(* ===== verification/Prelude.thy ===== *)
theory Prelude
  imports Complex_Main "HOL-Library.Word" "HOL-Library.Product_Lexorder" "HOL-Library.Multiset"
    "HOL-Library.Sublist"
begin

text \<open>
  Shared ground of the development: the Go types the components use, the parts of Go's
  standard library they call (integer printing and parsing, \<open>strings.ReplaceAll\<close>,
  \<open>strings.Contains\<close>, \<open>strings.Join\<close>), the collections of rewrite rules, and
  one generic contract, that of a step function with an invariant.

  Go strings are byte strings, so \<^typ>\<open>string\<close> (a list of 8-bit characters) models them and
  \<open>len\<close> is \<^const>\<open>length\<close>. A \<open>time.Time\<close> is its instant in nanoseconds since
  the Unix epoch; a UUID is its 128 bits, ordered as PostgreSQL orders them.
\<close>

section \<open>Types\<close>

type_synonym time = int
type_synonym uuid = "128 word"

abbreviation uuid_Nil :: uuid where
  "uuid_Nil \<equiv> 0"

abbreviation byte :: "char \<Rightarrow> nat" where
  "byte c \<equiv> of_char c"

abbreviation second :: int where
  "second \<equiv> 1000000000"

abbreviation millisecond :: int where
  "millisecond \<equiv> 1000000"

text \<open>The zero \<open>time.Time\<close>, 1 January of the year 1.\<close>

definition zero_time :: time where
  "zero_time = - 62135596800 * second"

text \<open>
  The package \<open>github.com/google/uuid\<close> is not part of the repository; its printer and parser are
  the fields of this record, an argument of every operation that uses them. Where an operation
  relies on parsing what was printed, or on the text being ASCII, that is the hypothesis \<open>uuid_roundtrip\<close>;
  \<open>sample_uuid_pkg\<close> satisfies it.
\<close>

record uuid_pkg =
  uuid_String :: "uuid \<Rightarrow> string"
  uuid_Parse :: "string \<Rightarrow> uuid option"

definition uuid_roundtrip :: "uuid_pkg \<Rightarrow> bool" where
  "uuid_roundtrip up \<longleftrightarrow>
     (\<forall>u. uuid_Parse up (uuid_String up u) = Some u \<and> list_all (\<lambda>c. byte c < 128) (uuid_String up u))"

definition sample_uuid_pkg :: uuid_pkg where
  "sample_uuid_pkg = \<lparr>uuid_String = (\<lambda>u. map (\<lambda>i. if bit u i then CHR ''1'' else CHR ''0'') [0..<128]),
     uuid_Parse = (\<lambda>s. if length s = 128 then Some (horner_sum of_bool 2 (map (\<lambda>c. c = CHR ''1'') s)) else None)\<rparr>"

lemma sample_uuid_roundtrip: "uuid_roundtrip sample_uuid_pkg"
proof -
  have "map ((\<lambda>c. c = CHR ''1'') \<circ> (\<lambda>i. if bit u i then CHR ''1'' else CHR ''0'')) [0..<128] = map (bit u) [0..<128]"
    for u :: uuid by (intro map_cong) auto
  moreover have "horner_sum of_bool 2 (map (bit u) [0..<128]) = u" for u :: uuid
    by (simp only: horner_sum_bit_eq_take_bit) (simp add: take_bit_word_eq_self)
  ultimately have "uuid_Parse sample_uuid_pkg (uuid_String sample_uuid_pkg u) = Some u" for u
    by (simp only: sample_uuid_pkg_def uuid_pkg.simps length_map length_upt list.map_comp) simp
  moreover have "list_all (\<lambda>c. byte c < 128) (uuid_String sample_uuid_pkg u)" for u
    by (auto simp: sample_uuid_pkg_def list_all_iff simp del: upt.simps)
  ultimately show ?thesis by (simp only: uuid_roundtrip_def simp_thms)
qed

text \<open>A call over the network may fail before or after the other side has acted on it.\<close>

datatype net_fault = NoFault | LostBefore string | LostAfter string

named_theorems domain_consts \<open>string constants of package domain\<close>
named_theorems op_defs \<open>definitions of repository operations\<close>
named_theorems effect_defs \<open>definitions unfolded when the effects of an operation are computed\<close>

section \<open>Integers as decimal strings\<close>

definition digit_char :: "nat \<Rightarrow> char" where
  "digit_char d = ''0123456789'' ! d"

fun nat_digits :: "nat \<Rightarrow> string" where
  "nat_digits n = (if n < 10 then [digit_char n] else nat_digits (n div 10) @ [digit_char (n mod 10)])"

declare nat_digits.simps [simp del]

text \<open>\<open>strconv.Itoa\<close>, and what \<open>fmt.Sprintf\<close> writes for \<open>%d\<close>.\<close>

definition itoa :: "int \<Rightarrow> string" where
  "itoa i = (if i < 0 then CHR ''-'' # nat_digits (nat (- i)) else nat_digits (nat i))"

definition digit_val :: "char \<Rightarrow> int option" where
  "digit_val c = (let k = of_char c in if 48 \<le> k \<and> k \<le> 57 then Some (k - 48) else None)"

fun parse_digits :: "int \<Rightarrow> string \<Rightarrow> int option" where
  "parse_digits acc [] = Some acc"
| "parse_digits acc (c # cs) =
     (case digit_val c of None \<Rightarrow> None | Some d \<Rightarrow> parse_digits (10 * acc + d) cs)"

definition in_int64 :: "int \<Rightarrow> bool" where
  "in_int64 i \<longleftrightarrow> - (2 ^ 63) \<le> i \<and> i < 2 ^ 63"

text \<open>Go's \<open>int\<close>, \<open>int64\<close> and \<open>time.Duration\<close> wrap around at 64 bits.\<close>

definition wrap64 :: "int \<Rightarrow> int" where
  "wrap64 i = (i + 2 ^ 63) mod 2 ^ 64 - 2 ^ 63"

lemma wrap64_id: "in_int64 i \<Longrightarrow> wrap64 i = i"
  by (simp add: wrap64_def in_int64_def)

lemma wrap64_range: "in_int64 (wrap64 i)"
  by (simp add: wrap64_def in_int64_def)

text \<open>\<open>strconv.Atoi\<close> on a 64-bit platform: an optional sign, then decimal digits, in range.\<close>

definition atoi :: "string \<Rightarrow> int option" where
  "atoi s =
     (let (neg, ds) = (case s of
          [] \<Rightarrow> (False, [])
        | c # cs \<Rightarrow> if c = CHR ''-'' then (True, cs) else if c = CHR ''+'' then (False, cs) else (False, s))
      in if ds = [] then None
         else case parse_digits 0 ds of
             None \<Rightarrow> None
           | Some n \<Rightarrow> (let i = (if neg then - n else n) in if in_int64 i then Some i else None))"

lemma digit_cases: "d < 10 \<Longrightarrow> d = 0 \<or> d = 1 \<or> d = 2 \<or> d = 3 \<or> d = 4 \<or> d = 5 \<or> d = 6 \<or> d = 7 \<or> d = 8 \<or> d = (9::nat)"
  by arith

lemma digit_val_digit_char [simp]: "d < 10 \<Longrightarrow> digit_val (digit_char d) = Some (int d)"
  by (drule digit_cases) (auto simp: digit_val_def digit_char_def)

lemma digit_char_plain: "d < 10 \<Longrightarrow> digit_char d \<noteq> CHR ''-'' \<and> digit_char d \<noteq> CHR ''+''"
  by (drule digit_cases) (auto simp: digit_char_def)

lemma parse_digits_append:
  "parse_digits acc (xs @ ys) = (case parse_digits acc xs of None \<Rightarrow> None | Some a \<Rightarrow> parse_digits a ys)"
  by (induction xs arbitrary: acc) (auto split: option.splits)

lemma parse_nat_digits: "parse_digits 0 (nat_digits n) = Some (int n)"
proof (induction n rule: nat_digits.induct)
  case (1 n)
  show ?case
  proof (cases "n < 10")
    case True
    then show ?thesis by (simp add: nat_digits.simps [of n])
  next
    case False
    have "int n = 10 * int (n div 10) + int (n mod 10)"
      by (simp add: zdiv_int zmod_int)
    with False "1.IH" show ?thesis
      by (simp add: nat_digits.simps [of n] parse_digits_append)
  qed
qed

lemma nat_digits_Cons: "\<exists>c cs. nat_digits n = c # cs \<and> c \<noteq> CHR ''-'' \<and> c \<noteq> CHR ''+''"
proof (induction n rule: nat_digits.induct)
  case (1 n)
  show ?case
  proof (cases "n < 10")
    case True
    then show ?thesis by (simp add: nat_digits.simps [of n] digit_char_plain)
  next
    case False
    with "1.IH" obtain c cs where "nat_digits (n div 10) = c # cs" "c \<noteq> CHR ''-''" "c \<noteq> CHR ''+''"
      by blast
    with False show ?thesis by (simp add: nat_digits.simps [of n])
  qed
qed

lemma nat_digits_nonempty [simp]: "nat_digits n \<noteq> []"
  using nat_digits_Cons [of n] by auto

text \<open>Parsing what \<^const>\<open>itoa\<close> prints gives the number back.\<close>

lemma atoi_itoa: "in_int64 i \<Longrightarrow> atoi (itoa i) = Some i"
proof -
  assume r: "in_int64 i"
  obtain c cs where d: "nat_digits (nat i) = c # cs" "c \<noteq> CHR ''-''" "c \<noteq> CHR ''+''"
    using nat_digits_Cons by blast
  have p: "parse_digits 0 (c # cs) = Some (int (nat i))"
    using parse_nat_digits [of "nat i"] d(1) by simp
  show ?thesis
  proof (cases "i < 0")
    case True
    then show ?thesis using r by (simp add: atoi_def itoa_def parse_nat_digits)
  next
    case False
    then show ?thesis using r d p by (simp add: atoi_def itoa_def)
  qed
qed

section \<open>Strings\<close>

text \<open>\<open>strings.Contains(s, sub)\<close>.\<close>

definition contains :: "string \<Rightarrow> string \<Rightarrow> bool" where
  "contains s sub \<longleftrightarrow> sub \<in> set (sublists s)"

text \<open>\<open>strings.Join(parts, sep)\<close>.\<close>

fun join :: "string list \<Rightarrow> string \<Rightarrow> string" where
  "join [] sep = []"
| "join [p] sep = p"
| "join (p # q # ps) sep = p @ sep @ join (q # ps) sep"

text \<open>
  \<open>strings.ReplaceAll(s, old, new)\<close> for a non-empty \<open>old\<close>: occurrences are found
  left to right and do not overlap. The sources call it with a needle of at least four
  characters, so the case of an empty needle is left as the identity.
\<close>

function replace_all :: "string \<Rightarrow> string \<Rightarrow> string \<Rightarrow> string" where
  "replace_all [] old new = []"
| "replace_all (c # cs) old new =
     (if old \<noteq> [] \<and> prefix old (c # cs)
      then new @ replace_all (drop (length old) (c # cs)) old new
      else c # replace_all cs old new)"
  by pat_completeness auto
termination
  by (relation "measure (\<lambda>(s, old, new). length s)") (auto simp: length_greater_0_conv [symmetric] simp del: length_greater_0_conv)

text \<open>Characters of a UTF-8 byte string: every byte that is not a continuation byte.\<close>

definition utf8_length :: "string \<Rightarrow> nat" where
  "utf8_length s = length (filter (\<lambda>c. \<not> (128 \<le> (of_char c :: nat) \<and> (of_char c :: nat) < 192)) s)"

lemma utf8_length_le: "utf8_length s \<le> length s"
  by (simp add: utf8_length_def)

section \<open>Lists\<close>

lemma count_filter_distinct_key:
  "distinct (map f xs) \<Longrightarrow> x \<in> set xs \<Longrightarrow> filter (\<lambda>y. f y = f x) xs = [x]"
  by (induction xs) (auto simp: filter_empty_conv rev_image_eqI)

lemma find_distinct_key:
  "distinct (map f xs) \<Longrightarrow> x \<in> set xs \<Longrightarrow> find (\<lambda>y. f y = f x) xs = Some x"
  by (induction xs) (auto simp: rev_image_eqI)

lemma find_Some_set: "find P xs = Some x \<Longrightarrow> x \<in> set xs \<and> P x"
  by (induction xs) (auto split: if_splits)

lemma find_None_all: "find P xs = None \<longleftrightarrow> (\<forall>x \<in> set xs. \<not> P x)"
  by (induction xs) auto

lemma find_append: "find P (xs @ ys) = (case find P xs of None \<Rightarrow> find P ys | Some x \<Rightarrow> Some x)"
  by (induction xs) auto

section \<open>Step functions with an invariant\<close>

text \<open>
  Several components are state machines: a step function on a record and a well-formedness
  predicate that every step keeps. What holds of every run follows once and for all.
\<close>

locale invariant_machine =
  fixes step :: "'s \<Rightarrow> 'e \<Rightarrow> 's"
    and inv :: "'s \<Rightarrow> bool"
  assumes step_inv: "inv s \<Longrightarrow> inv (step s e)"
begin

lemma run_inv: "inv s \<Longrightarrow> inv (foldl step s es)"
  by (induction es arbitrary: s) (auto intro: step_inv)

lemma run_all_inv: "inv s \<Longrightarrow> n \<le> length es \<Longrightarrow> inv (foldl step s (take n es))"
  by (rule run_inv)

end

end
