(* ===== verification/Domain.thy ===== *)
theory Domain
  imports Prelude
begin

text \<open>
  Package \<open>internal/domain\<close>, notifications and errors: the constants, the structs
  \<open>Notification\<close>, \<open>CreateNotificationRequest\<close> and \<open>BatchCreateRequest\<close>, the
  error types of \<open>errors.go\<close> and the two \<open>Validate\<close> methods. A pointer field is an
  \<open>option\<close>; \<open>Validate\<close> has a pointer receiver and fills in the default priority, so
  the model returns the request as the method leaves it together with the error.
  The lemmas characterise validation by a declarative predicate, on every branch.
\<close>

section \<open>Errors\<close>

record FieldError =
  fe_Field :: string
  fe_Message :: string

text \<open>
  The domain's error types; every other error of the program (a driver error, an error
  wrapped with \<open>fmt.Errorf\<close>) is known to its callers by its text only.
\<close>

datatype go_error =
    ErrNotFound string string
  | ErrConflict string
  | ErrValidation "FieldError list"
  | ErrOther string

fun Error :: "go_error \<Rightarrow> string" where
  "Error (ErrNotFound entity i) = entity @ '' not found: '' @ i"
| "Error (ErrConflict msg) = msg"
| "Error (ErrValidation fes) =
     ''validation failed: '' @ join (map (\<lambda>f. fe_Field f @ '': '' @ fe_Message f) fes) ''; ''"
| "Error (ErrOther msg) = msg"

section \<open>Constants\<close>

definition ChannelSMS :: string where [domain_consts]: "ChannelSMS = ''sms''"
definition ChannelEmail :: string where [domain_consts]: "ChannelEmail = ''email''"
definition ChannelPush :: string where [domain_consts]: "ChannelPush = ''push''"

definition StatusPending :: string where [domain_consts]: "StatusPending = ''pending''"
definition StatusQueued :: string where [domain_consts]: "StatusQueued = ''queued''"
definition StatusProcessing :: string where [domain_consts]: "StatusProcessing = ''processing''"
definition StatusSent :: string where [domain_consts]: "StatusSent = ''sent''"
definition StatusDelivered :: string where [domain_consts]: "StatusDelivered = ''delivered''"
definition StatusFailed :: string where [domain_consts]: "StatusFailed = ''failed''"
definition StatusCancelled :: string where [domain_consts]: "StatusCancelled = ''cancelled''"

definition PriorityHigh :: string where [domain_consts]: "PriorityHigh = ''high''"
definition PriorityNormal :: string where [domain_consts]: "PriorityNormal = ''normal''"
definition PriorityLow :: string where [domain_consts]: "PriorityLow = ''low''"

definition MaxSMSContentLength :: int where [domain_consts]: "MaxSMSContentLength = 160"
definition MaxEmailContentLength :: int where [domain_consts]: "MaxEmailContentLength = 100000"
definition MaxPushContentLength :: int where [domain_consts]: "MaxPushContentLength = 4096"
definition MaxBatchSize :: int where [domain_consts]: "MaxBatchSize = 1000"

section \<open>Data\<close>

record Notification =
  n_ID :: uuid
  n_BatchID :: "uuid option"
  n_IdempotencyKey :: "string option"
  n_Recipient :: string
  n_Channel :: string
  n_Content :: string
  n_Subject :: "string option"
  n_Priority :: string
  n_Status :: string
  n_ProviderMessageID :: "string option"
  n_RetryCount :: int
  n_MaxRetries :: int
  n_NextRetryAt :: "time option"
  n_ScheduledAt :: "time option"
  n_SentAt :: "time option"
  n_FailedAt :: "time option"
  n_ErrorMessage :: "string option"
  n_Metadata :: "string option"
  n_CreatedAt :: time
  n_UpdatedAt :: time

record CreateNotificationRequest =
  r_IdempotencyKey :: "string option"
  r_Recipient :: string
  r_Channel :: string
  r_Content :: string
  r_Subject :: "string option"
  r_Priority :: string
  r_ScheduledAt :: "time option"
  r_Metadata :: "string option"
  r_TemplateID :: "uuid option"
  r_Variables :: "string \<rightharpoonup> string"

record BatchCreateRequest =
  b_Notifications :: "CreateNotificationRequest list"

section \<open>Validation\<close>

definition isValidChannel :: "string \<Rightarrow> bool" where
  "isValidChannel ch \<longleftrightarrow> ch = ChannelSMS \<or> ch = ChannelEmail \<or> ch = ChannelPush"

definition isValidPriority :: "string \<Rightarrow> bool" where
  "isValidPriority p \<longleftrightarrow> p = PriorityHigh \<or> p = PriorityNormal \<or> p = PriorityLow"

text \<open>The empty string is "no error".\<close>

definition validateContentLength :: "string \<Rightarrow> string \<Rightarrow> string" where
  "validateContentLength channel content =
     (if channel = ChannelSMS then
        (if int (length content) > MaxSMSContentLength
         then ''must be at most '' @ itoa MaxSMSContentLength @ '' characters for SMS'' else [])
      else if channel = ChannelEmail then
        (if int (length content) > MaxEmailContentLength
         then ''must be at most '' @ itoa MaxEmailContentLength @ '' characters for email'' else [])
      else if channel = ChannelPush then
        (if int (length content) > MaxPushContentLength
         then ''must be at most '' @ itoa MaxPushContentLength @ '' characters for push'' else [])
      else [])"

abbreviation field_err :: "string \<Rightarrow> string \<Rightarrow> FieldError" where
  "field_err f m \<equiv> \<lparr>fe_Field = f, fe_Message = m\<rparr>"

text \<open>
  The method appends to \<open>errs\<close> in five independent statements; each is one list below.
\<close>

definition CreateNotificationRequest_Validate ::
    "CreateNotificationRequest \<Rightarrow> CreateNotificationRequest \<times> go_error option" where
  "CreateNotificationRequest_Validate r =
     (let errs1 = (if r_Recipient r = [] then [field_err ''recipient'' ''is required''] else []);
          errs2 = (if r_Channel r = [] then [field_err ''channel'' ''is required'']
                   else if \<not> isValidChannel (r_Channel r)
                     then [field_err ''channel'' ''must be one of: sms, email, push'']
                   else []);
          errs3 = (if r_Content r = [] \<and> r_TemplateID r = None
                     then [field_err ''content'' ''is required (or provide template_id)'']
                   else if r_Content r \<noteq> [] \<and> r_Channel r \<noteq> [] \<and> isValidChannel (r_Channel r)
                     then (let err = validateContentLength (r_Channel r) (r_Content r)
                           in if err \<noteq> [] then [field_err ''content'' err] else [])
                   else []);
          errs4 = (if r_Channel r = ChannelEmail \<and> (r_Subject r = None \<or> r_Subject r = Some [])
                     then [field_err ''subject'' ''is required for email channel''] else []);
          errs5 = (if r_Priority r \<noteq> [] \<and> \<not> isValidPriority (r_Priority r)
                     then [field_err ''priority'' ''must be one of: high, normal, low''] else []);
          r' = (if r_Priority r = [] then r\<lparr>r_Priority := PriorityNormal\<rparr> else r);
          errs = errs1 @ errs2 @ errs3 @ errs4 @ errs5
      in (r', if errs \<noteq> [] then Some (ErrValidation errs) else None))"

text \<open>
  The loop of the batch: each item is validated in place (so its default priority sticks),
  and its field errors are re-labelled with the item's index.
\<close>

fun validate_items ::
    "int \<Rightarrow> CreateNotificationRequest list \<Rightarrow> CreateNotificationRequest list \<times> FieldError list" where
  "validate_items i [] = ([], [])"
| "validate_items i (r # rs) =
     (let (r', err) = CreateNotificationRequest_Validate r;
          here = (case err of
              Some (ErrValidation fes) \<Rightarrow>
                map (\<lambda>fe. field_err (''notifications['' @ itoa i @ ''].'' @ fe_Field fe) (fe_Message fe)) fes
            | _ \<Rightarrow> []);
          (rs', errs) = validate_items (i + 1) rs
      in (r' # rs', here @ errs))"

definition BatchCreateRequest_Validate ::
    "BatchCreateRequest \<Rightarrow> BatchCreateRequest \<times> go_error option" where
  "BatchCreateRequest_Validate b =
     (if b_Notifications b = [] then
        (b, Some (ErrValidation [field_err ''notifications'' ''must not be empty'']))
      else if int (length (b_Notifications b)) > MaxBatchSize then
        (b, Some (ErrValidation [field_err ''notifications''
               (''must have at most '' @ itoa MaxBatchSize @ '' items'')]))
      else
        (let (rs', errs) = validate_items 0 (b_Notifications b)
         in (b\<lparr>b_Notifications := rs'\<rparr>, if errs \<noteq> [] then Some (ErrValidation errs) else None)))"

section \<open>What validation decides\<close>

text \<open>The longest content a channel takes; a channel that is none of the three has no limit.\<close>

definition content_limit :: "string \<Rightarrow> int option" where
  "content_limit ch = (if ch = ''sms'' then Some 160 else if ch = ''email'' then Some 100000
     else if ch = ''push'' then Some 4096 else None)"

definition within_limit :: "string \<Rightarrow> string \<Rightarrow> bool" where
  "within_limit ch content \<longleftrightarrow> (case content_limit ch of None \<Rightarrow> True | Some k \<Rightarrow> int (length content) \<le> k)"

text \<open>
  The documented requirement on each field of a request, and the fields in the order in which
  they are checked. A request is valid when every field is.
\<close>

definition field_ok :: "string \<Rightarrow> CreateNotificationRequest \<Rightarrow> bool" where
  "field_ok f r =
     (if f = ''recipient'' then r_Recipient r \<noteq> []
      else if f = ''channel'' then r_Channel r \<in> {''sms'', ''email'', ''push''}
      else if f = ''content'' then
        (r_Content r \<noteq> [] \<or> r_TemplateID r \<noteq> None) \<and> within_limit (r_Channel r) (r_Content r)
      else if f = ''subject'' then r_Channel r \<noteq> ''email'' \<or> (\<exists>c cs. r_Subject r = Some (c # cs))
      else if f = ''priority'' then r_Priority r \<in> {[], ''high'', ''normal'', ''low''}
      else True)"

definition checked_fields :: "string list" where
  "checked_fields = [''recipient'', ''channel'', ''content'', ''subject'', ''priority'']"

definition valid_request :: "CreateNotificationRequest \<Rightarrow> bool" where
  "valid_request r \<longleftrightarrow> list_all (\<lambda>f. field_ok f r) checked_fields"

text \<open>The request as \<open>Validate\<close> leaves it.\<close>

definition with_default_priority :: "CreateNotificationRequest \<Rightarrow> CreateNotificationRequest" where
  "with_default_priority r = (if r_Priority r = [] then r\<lparr>r_Priority := ''normal''\<rparr> else r)"

text \<open>The field errors an error value carries.\<close>

fun field_errors :: "go_error option \<Rightarrow> FieldError list" where
  "field_errors (Some (ErrValidation fes)) = fes"
| "field_errors _ = []"

fun is_validation_error :: "go_error \<Rightarrow> bool" where
  "is_validation_error (ErrValidation fes) = (fes \<noteq> [])"
| "is_validation_error _ = False"

lemma isValidChannel_iff: "isValidChannel ch \<longleftrightarrow> ch \<in> {''sms'', ''email'', ''push''}"
  by (auto simp: isValidChannel_def domain_consts)

lemma isValidPriority_iff: "isValidPriority p \<longleftrightarrow> p \<in> {''high'', ''normal'', ''low''}"
  by (auto simp: isValidPriority_def domain_consts)

lemma validateContentLength_ok:
  "validateContentLength ch content = [] \<longleftrightarrow> within_limit ch content"
  by (auto simp: validateContentLength_def within_limit_def content_limit_def domain_consts)

lemma within_limit_Nil [simp]: "within_limit ch []"
  by (simp add: within_limit_def content_limit_def)

lemma within_limit_no_channel: "\<not> isValidChannel ch \<Longrightarrow> within_limit ch content"
  by (auto simp: isValidChannel_iff within_limit_def content_limit_def)

lemma Validate_request [simp]:
  "fst (CreateNotificationRequest_Validate r) = with_default_priority r"
  by (simp add: CreateNotificationRequest_Validate_def with_default_priority_def PriorityNormal_def Let_def)

lemma isValidChannel_Nil [simp]: "\<not> isValidChannel []"
  by (simp add: isValidChannel_iff)

text \<open>Each of the five checks reports its field exactly when the field is not as required.\<close>

lemma content_check_reports:
  "(r_Content r = [] \<and> r_TemplateID r = None) \<or>
   (r_Content r \<noteq> [] \<and> r_Channel r \<noteq> [] \<and> isValidChannel (r_Channel r) \<and>
     validateContentLength (r_Channel r) (r_Content r) \<noteq> [])
   \<longleftrightarrow> \<not> field_ok ''content'' r"
  using within_limit_no_channel [of "r_Channel r" "r_Content r"] within_limit_no_channel [of "[]" "r_Content r"]
  by (auto simp: field_ok_def validateContentLength_ok)

lemma subject_check_reports:
  "r_Channel r = ChannelEmail \<and> (r_Subject r = None \<or> r_Subject r = Some [])
   \<longleftrightarrow> \<not> field_ok ''subject'' r"
  by (cases "r_Subject r"; cases "the (r_Subject r)") (auto simp: field_ok_def ChannelEmail_def)

lemma if_errs_Some: "(if errs \<noteq> [] then Some (ErrValidation errs) else None) = Some e \<Longrightarrow> is_validation_error e"
  by (auto split: if_splits)

lemma field_errors_if_errs [simp]:
  "field_errors (if errs \<noteq> [] then Some (ErrValidation errs) else None) = errs"
  by simp

lemma Validate_fields:
  "map fe_Field (field_errors (snd (CreateNotificationRequest_Validate r))) =
     filter (\<lambda>f. \<not> field_ok f r) checked_fields"
proof -
  have c: "field_ok ''content'' r \<longleftrightarrow>
      \<not> ((r_Content r = [] \<and> r_TemplateID r = None) \<or>
        (r_Content r \<noteq> [] \<and> r_Channel r \<noteq> [] \<and> isValidChannel (r_Channel r) \<and>
          validateContentLength (r_Channel r) (r_Content r) \<noteq> []))"
    using content_check_reports [of r] by blast
  have s: "field_ok ''subject'' r \<longleftrightarrow>
      \<not> (r_Channel r = ChannelEmail \<and> (r_Subject r = None \<or> r_Subject r = Some []))"
    using subject_check_reports [of r] by blast
  have ch: "field_ok ''channel'' r \<longleftrightarrow> isValidChannel (r_Channel r)"
    by (simp add: field_ok_def isValidChannel_iff)
  have p: "field_ok ''priority'' r \<longleftrightarrow> r_Priority r = [] \<or> isValidPriority (r_Priority r)"
    by (simp add: field_ok_def isValidPriority_iff)
  have rc: "field_ok ''recipient'' r \<longleftrightarrow> r_Recipient r \<noteq> []"
    by (simp add: field_ok_def)
  show ?thesis
    unfolding CreateNotificationRequest_Validate_def Let_def snd_conv field_errors_if_errs
    by (simp add: checked_fields_def c s ch p rc)
qed

lemma Validate_error_kind:
  "snd (CreateNotificationRequest_Validate r) = Some e \<Longrightarrow> is_validation_error e"
  unfolding CreateNotificationRequest_Validate_def Let_def snd_conv by (rule if_errs_Some)

lemma Validate_None_iff:
  "snd (CreateNotificationRequest_Validate r) = None
     \<longleftrightarrow> field_errors (snd (CreateNotificationRequest_Validate r)) = []"
  using Validate_error_kind [of r]
  by (cases "snd (CreateNotificationRequest_Validate r)") (auto elim: is_validation_error.elims)

lemma Validate_ok_iff: "snd (CreateNotificationRequest_Validate r) = None \<longleftrightarrow> valid_request r"
proof -
  have "field_errors (snd (CreateNotificationRequest_Validate r)) = []
      \<longleftrightarrow> filter (\<lambda>f. \<not> field_ok f r) checked_fields = []"
    using Validate_fields [of r] by (metis map_is_Nil_conv)
  then show ?thesis
    by (simp add: Validate_None_iff valid_request_def list_all_iff filter_empty_conv)
qed

text \<open>
  C11. \<open>CreateNotificationRequest.Validate\<close> accepts exactly the requests whose five fields are
  as documented; otherwise it returns an \<open>ErrValidation\<close> that names precisely the offending
  fields, each once and in checking order. In both cases the only change to the request is that
  an empty priority becomes \<open>normal\<close>.
\<close>

theorem create_validate_correct:
  "fst (CreateNotificationRequest_Validate r) = with_default_priority r \<and>
   (snd (CreateNotificationRequest_Validate r) = None \<longleftrightarrow> valid_request r) \<and>
   map fe_Field (field_errors (snd (CreateNotificationRequest_Validate r))) =
     filter (\<lambda>f. \<not> field_ok f r) checked_fields"
  by (simp add: Validate_ok_iff Validate_fields)

lemma with_default_priority_simps [simp]:
  "r_Recipient (with_default_priority r) = r_Recipient r"
  "r_Channel (with_default_priority r) = r_Channel r"
  "r_Content (with_default_priority r) = r_Content r"
  "r_Subject (with_default_priority r) = r_Subject r"
  "r_TemplateID (with_default_priority r) = r_TemplateID r"
  "r_ScheduledAt (with_default_priority r) = r_ScheduledAt r"
  "r_Variables (with_default_priority r) = r_Variables r"
  "r_IdempotencyKey (with_default_priority r) = r_IdempotencyKey r"
  "r_Metadata (with_default_priority r) = r_Metadata r"
  by (simp_all add: with_default_priority_def)

lemma valid_request_channel: "valid_request r \<Longrightarrow> isValidChannel (r_Channel r)"
  by (simp add: valid_request_def checked_fields_def field_ok_def isValidChannel_iff)

lemma valid_request_priority: "valid_request r \<Longrightarrow> isValidPriority (r_Priority (with_default_priority r))"
  by (auto simp: valid_request_def checked_fields_def field_ok_def isValidPriority_iff with_default_priority_def)

subsection \<open>Batches\<close>

definition item_label :: "int \<Rightarrow> string \<Rightarrow> string" where
  "item_label i f = ''notifications['' @ itoa i @ ''].'' @ f"

text \<open>The labels of all offending fields of the items from index \<open>i\<close> on.\<close>

fun item_labels :: "int \<Rightarrow> CreateNotificationRequest list \<Rightarrow> string list" where
  "item_labels i [] = []"
| "item_labels i (r # rs) =
     map (item_label i) (filter (\<lambda>f. \<not> field_ok f r) checked_fields) @ item_labels (i + 1) rs"

lemma validate_items_requests: "fst (validate_items i rs) = map with_default_priority rs"
proof (induction rs arbitrary: i)
  case Nil
  then show ?case by simp
next
  case (Cons r rs)
  show ?case
    using Cons [of "i + 1"] Validate_request [of r]
    by (simp add: Let_def split_beta del: Validate_request)
qed

lemma item_errors_fields:
  "map fe_Field (case err of
       Some (ErrValidation fes) \<Rightarrow>
         map (\<lambda>fe. field_err (''notifications['' @ itoa i @ ''].'' @ fe_Field fe) (fe_Message fe)) fes
     | _ \<Rightarrow> []) = map (item_label i) (map fe_Field (field_errors err))"
  by (cases err; simp; cases "the err"; simp add: item_label_def o_def)

lemma validate_items_fields: "map fe_Field (snd (validate_items i rs)) = item_labels i rs"
proof (induction rs arbitrary: i)
  case Nil
  then show ?case by simp
next
  case (Cons r rs)
  show ?case
    using Cons [of "i + 1"]
    by (simp add: Let_def split_beta item_errors_fields Validate_fields)
qed

lemma item_labels_Nil: "item_labels i rs = [] \<longleftrightarrow> list_all valid_request rs"
  by (induction rs arbitrary: i)
    (auto simp: valid_request_def list_all_iff filter_empty_conv)

definition batch_size_ok :: "BatchCreateRequest \<Rightarrow> bool" where
  "batch_size_ok b \<longleftrightarrow> 1 \<le> length (b_Notifications b) \<and> length (b_Notifications b) \<le> 1000"

lemma Batch_Validate_sized:
  "batch_size_ok b \<Longrightarrow> BatchCreateRequest_Validate b =
     (b\<lparr>b_Notifications := map with_default_priority (b_Notifications b)\<rparr>,
      let errs = snd (validate_items 0 (b_Notifications b))
      in if errs \<noteq> [] then Some (ErrValidation errs) else None)"
  using validate_items_requests [of 0 "b_Notifications b"]
  by (auto simp: BatchCreateRequest_Validate_def batch_size_ok_def MaxBatchSize_def Let_def split_beta)

lemma Batch_Validate_requests:
  "batch_size_ok b \<Longrightarrow> b_Notifications (fst (BatchCreateRequest_Validate b)) = map with_default_priority (b_Notifications b)"
  by (simp add: Batch_Validate_sized)

lemma Batch_Validate_unsized:
  "\<not> batch_size_ok b \<Longrightarrow> fst (BatchCreateRequest_Validate b) = b \<and>
     map fe_Field (field_errors (snd (BatchCreateRequest_Validate b))) = [''notifications'']"
  by (auto simp: BatchCreateRequest_Validate_def batch_size_ok_def MaxBatchSize_def not_le Suc_le_eq)

lemma Batch_Validate_ok_iff:
  "snd (BatchCreateRequest_Validate b) = None
     \<longleftrightarrow> batch_size_ok b \<and> list_all valid_request (b_Notifications b)"
proof (cases "batch_size_ok b")
  case True
  have "snd (validate_items 0 (b_Notifications b)) = [] \<longleftrightarrow> item_labels 0 (b_Notifications b) = []"
    using validate_items_fields [of 0 "b_Notifications b"] by (metis map_is_Nil_conv)
  with True show ?thesis
    by (simp add: Batch_Validate_sized Let_def item_labels_Nil)
next
  case False
  then have "field_errors (snd (BatchCreateRequest_Validate b)) \<noteq> []"
    using Batch_Validate_unsized by fastforce
  then have "snd (BatchCreateRequest_Validate b) \<noteq> None" by (metis field_errors.simps(2))
  with False show ?thesis by simp
qed

text \<open>
  C12. \<open>BatchCreateRequest.Validate\<close> accepts exactly the batches of 1 to 1000 items that are
  all valid. An accepted or item-wise rejected batch has every item's default priority filled
  in; a rejected one names every offending field of every item, labelled
  \<open>notifications[i].field\<close> in item order, and a batch of the wrong size is returned unchanged
  with the single field \<open>notifications\<close>.
\<close>

theorem batch_validate_correct:
  "(snd (BatchCreateRequest_Validate b) = None \<longleftrightarrow>
      batch_size_ok b \<and> list_all valid_request (b_Notifications b)) \<and>
   BatchCreateRequest.b_Notifications (fst (BatchCreateRequest_Validate b)) =
      (if batch_size_ok b then map with_default_priority (b_Notifications b) else b_Notifications b) \<and>
   map fe_Field (field_errors (snd (BatchCreateRequest_Validate b))) =
      (if batch_size_ok b then item_labels 0 (b_Notifications b) else [''notifications''])"
  using Batch_Validate_unsized [of b] validate_items_fields [of 0 "b_Notifications b"]
  by (auto simp: Batch_Validate_ok_iff Batch_Validate_sized Let_def)

section \<open>A notification for examples\<close>

definition sample_notification :: Notification where
  "sample_notification = \<lparr>n_ID = 1, n_BatchID = None, n_IdempotencyKey = None, n_Recipient = ''+90555'',
     n_Channel = ''sms'', n_Content = ''hi'', n_Subject = None, n_Priority = ''normal'', n_Status = ''queued'',
     n_ProviderMessageID = None, n_RetryCount = 0, n_MaxRetries = 3, n_NextRetryAt = None,
     n_ScheduledAt = None, n_SentAt = None, n_FailedAt = None, n_ErrorMessage = None, n_Metadata = None,
     n_CreatedAt = 0, n_UpdatedAt = 0\<rparr>"

end
