(* ===== verification/Json.thy ===== *)
theory Json
  imports Prelude
begin

text \<open>
  The parts of Go's \<open>encoding/json\<close> the program's messages go through: writing a string (with the HTML
  escapes of \<open>json.Marshal\<close>), reading one back, checking and compacting an arbitrary value (what
  \<open>Marshal\<close> does to a \<open>RawMessage\<close> and \<open>Unmarshal\<close> to its whole input) and taking an object apart. Go
  strings are bytes, so all of this is on bytes, with UTF-8 spelt out.

  The lemmas: a written string is read back, invalid UTF-8 replaced; a compacted value is one; and an
  object written member by member is taken apart into the same members.
\<close>

section \<open>UTF-8\<close>

abbreviation cont_byte :: "char \<Rightarrow> bool" where
  "cont_byte c \<equiv> 128 \<le> byte c \<and> byte c < 192"

text \<open>How many bytes the character at the front takes, 0 if the bytes there are none (\<open>utf8.DecodeRune\<close>).\<close>

definition utf8_two :: "char \<Rightarrow> char \<Rightarrow> bool" where
  "utf8_two a b \<longleftrightarrow> 194 \<le> byte a \<and> byte a < 224 \<and> cont_byte b"

definition utf8_three :: "char \<Rightarrow> char \<Rightarrow> char \<Rightarrow> bool" where
  "utf8_three a b c \<longleftrightarrow> 224 \<le> byte a \<and> byte a < 240 \<and> cont_byte b \<and> cont_byte c \<and>
     (byte a = 224 \<longrightarrow> 160 \<le> byte b) \<and> (byte a = 237 \<longrightarrow> byte b < 160)"

definition utf8_four :: "char \<Rightarrow> char \<Rightarrow> char \<Rightarrow> char \<Rightarrow> bool" where
  "utf8_four a b c d \<longleftrightarrow> 240 \<le> byte a \<and> byte a < 245 \<and> cont_byte b \<and> cont_byte c \<and> cont_byte d \<and>
     (byte a = 240 \<longrightarrow> 144 \<le> byte b) \<and> (byte a = 244 \<longrightarrow> byte b < 144)"

fun utf8_lead :: "string \<Rightarrow> nat" where
  "utf8_lead [] = 0"
| "utf8_lead (a # r) =
     (if byte a < 128 then 1
      else (case r of
         [] \<Rightarrow> 0
       | b # r2 \<Rightarrow>
           if utf8_two a b then 2
           else (case r2 of
              [] \<Rightarrow> 0
            | c # r3 \<Rightarrow>
                if utf8_three a b c then 3
                else (case r3 of
                   [] \<Rightarrow> 0
                 | d # _ \<Rightarrow> if utf8_four a b c d then 4 else 0))))"

lemma utf8_lead_local:
  "0 < utf8_lead s \<Longrightarrow> utf8_lead (take (utf8_lead s) s @ t) = utf8_lead s \<and> utf8_lead s \<le> length s"
  by (cases s) (auto split: list.splits)

declare utf8_lead.simps(2) [simp del]

text \<open>\<open>string([]rune(s))\<close>: every byte that is no character becomes U+FFFD.\<close>

definition replacement :: string where
  "replacement = [CHR 0xEF, CHR 0xBF, CHR 0xBD]"

fun to_valid_utf8 :: "string \<Rightarrow> string" where
  "to_valid_utf8 [] = []"
| "to_valid_utf8 (c # cs) =
     (let k = utf8_lead (c # cs)
      in if k = 0 then replacement @ to_valid_utf8 cs else take k (c # cs) @ to_valid_utf8 (drop (k - 1) cs))"

definition utf8_valid :: "string \<Rightarrow> bool" where
  "utf8_valid s \<longleftrightarrow> to_valid_utf8 s = s"

definition utf8_encode :: "nat \<Rightarrow> string" where
  "utf8_encode r =
     (if r < 128 then [char_of r]
      else if r < 2048 then [char_of (192 + r div 64), char_of (128 + r mod 64)]
      else if r < 65536 then [char_of (224 + r div 4096), char_of (128 + r div 64 mod 64), char_of (128 + r mod 64)]
      else [char_of (240 + r div 262144), char_of (128 + r div 4096 mod 64), char_of (128 + r div 64 mod 64),
            char_of (128 + r mod 64)])"

section \<open>Writing a string\<close>

abbreviation dquote :: char where "dquote \<equiv> CHR 0x22"
abbreviation backslash :: char where "backslash \<equiv> CHR 0x5C"

definition hex_char :: "nat \<Rightarrow> char" where
  "hex_char d = ''0123456789abcdef'' ! d"

definition u_escape :: "nat \<Rightarrow> string" where
  "u_escape r = [backslash, CHR ''u'', hex_char (r div 4096 mod 16), hex_char (r div 256 mod 16),
     hex_char (r div 16 mod 16), hex_char (r mod 16)]"

definition escape_ascii :: "char \<Rightarrow> string" where
  "escape_ascii c =
     (let x = byte c
      in if c = backslash \<or> c = dquote then [backslash, c]
         else if x = 8 then [backslash, CHR ''b'']
         else if x = 12 then [backslash, CHR ''f'']
         else if x = 10 then [backslash, CHR ''n'']
         else if x = 13 then [backslash, CHR ''r'']
         else if x = 9 then [backslash, CHR ''t'']
         else if x < 32 \<or> c = CHR ''<'' \<or> c = CHR ''>'' \<or> c = CHR ''&'' then u_escape x
         else [c])"

fun json_chars :: "string \<Rightarrow> string" where
  "json_chars [] = []"
| "json_chars (c # cs) =
     (let k = utf8_lead (c # cs)
      in if byte c < 128 then escape_ascii c @ json_chars cs
         else if k = 0 then u_escape 65533 @ json_chars cs
         else if take k (c # cs) = [CHR 0xE2, CHR 0x80, CHR 0xA8] then u_escape 8232 @ json_chars (drop (k - 1) cs)
         else if take k (c # cs) = [CHR 0xE2, CHR 0x80, CHR 0xA9] then u_escape 8233 @ json_chars (drop (k - 1) cs)
         else take k (c # cs) @ json_chars (drop (k - 1) cs))"

definition json_string :: "string \<Rightarrow> string" where
  "json_string s = dquote # json_chars s @ [dquote]"

section \<open>Reading a string\<close>

definition hex_val :: "char \<Rightarrow> nat option" where
  "hex_val c =
     (let x = byte c
      in if 48 \<le> x \<and> x \<le> 57 then Some (x - 48)
         else if 97 \<le> x \<and> x \<le> 102 then Some (x - 87)
         else if 65 \<le> x \<and> x \<le> 70 then Some (x - 55)
         else None)"

fun hex4 :: "string \<Rightarrow> (nat \<times> string) option" where
  "hex4 (a # b # c # d # r) =
     (case (hex_val a, hex_val b, hex_val c, hex_val d) of
        (Some w, Some x, Some y, Some z) \<Rightarrow> Some (w * 4096 + x * 256 + y * 16 + z, r)
      | _ \<Rightarrow> None)"
| "hex4 _ = None"

lemma hex4_shorter [termination_simp]: "hex4 s = Some (r, t) \<Longrightarrow> length t < length s"
  by (induction s rule: hex4.induct) (auto split: option.splits)

definition simple_escape :: "char \<Rightarrow> char option" where
  "simple_escape c =
     (if c = dquote \<or> c = backslash \<or> c = CHR ''/'' then Some c
      else if c = CHR ''b'' then Some (CHR 0x08)
      else if c = CHR ''f'' then Some (CHR 0x0C)
      else if c = CHR ''n'' then Some (CHR 0x0A)
      else if c = CHR ''r'' then Some (CHR 0x0D)
      else if c = CHR ''t'' then Some (CHR 0x09)
      else None)"

text \<open>The second half of a surrogate pair, when it follows.\<close>

definition low_surrogate :: "string \<Rightarrow> (nat \<times> string) option" where
  "low_surrogate s =
     (case s of
        b # u # r \<Rightarrow>
          if b = backslash \<and> u = CHR ''u'' then
            (case hex4 r of
               Some (x, r') \<Rightarrow> if 56320 \<le> x \<and> x < 57344 then Some (x, r') else None
             | None \<Rightarrow> None)
          else None
      | _ \<Rightarrow> None)"

lemma low_surrogate_shorter [termination_simp]: "low_surrogate s = Some (x, t) \<Longrightarrow> length t < length s"
  by (auto simp: low_surrogate_def split: list.splits if_splits option.splits dest: hex4_shorter)

definition prepend :: "string \<Rightarrow> (string \<times> string) option \<Rightarrow> (string \<times> string) option" where
  "prepend p x = map_option (\<lambda>(t, r). (p @ t, r)) x"

lemma prepend_simps [simp]: "prepend p None = None" "prepend p (Some (t, r)) = Some (p @ t, r)"
  by (simp_all add: prepend_def)

lemma prepend_Some: "prepend p x = Some (t, r) \<longleftrightarrow> (\<exists>t'. x = Some (t', r) \<and> t = p @ t')"
  by (auto simp: prepend_def)

text \<open>After the opening quote: the string up to the closing one, and what follows it.\<close>

function unquote :: "string \<Rightarrow> (string \<times> string) option" where
  "unquote [] = None"
| "unquote (c # cs) =
     (if c = dquote then Some ([], cs)
      else if c = backslash then
        (case cs of
           [] \<Rightarrow> None
         | e # es \<Rightarrow>
             (case simple_escape e of
                Some x \<Rightarrow> prepend [x] (unquote es)
              | None \<Rightarrow>
                  if e \<noteq> CHR ''u'' then None
                  else (case hex4 es of
                     None \<Rightarrow> None
                   | Some (r, es') \<Rightarrow>
                       if 55296 \<le> r \<and> r < 57344 then
                         (case low_surrogate es' of
                            Some (r2, es'') \<Rightarrow>
                              if r < 56320 then prepend (utf8_encode ((r - 55296) * 1024 + (r2 - 56320) + 65536)) (unquote es'')
                              else prepend replacement (unquote es')
                          | None \<Rightarrow> prepend replacement (unquote es'))
                       else prepend (utf8_encode r) (unquote es'))))
      else if byte c < 32 then None
      else (let k = utf8_lead (c # cs)
            in if k = 0 then prepend replacement (unquote cs)
               else prepend (take k (c # cs)) (unquote (drop (k - 1) cs))))"
  by pat_completeness auto
termination
  by (relation "measure length") (auto dest!: hex4_shorter low_surrogate_shorter)

declare unquote.simps(2) [simp del]

lemma char_codes:
  "char_of (8 :: nat) = CHR 0x08" "char_of (9 :: nat) = CHR 0x09" "char_of (10 :: nat) = CHR 0x0A"
  "char_of (12 :: nat) = CHR 0x0C" "char_of (13 :: nat) = CHR 0x0D" "char_of (128 :: nat) = CHR 0x80"
  "char_of (168 :: nat) = CHR 0xA8" "char_of (169 :: nat) = CHR 0xA9" "char_of (189 :: nat) = CHR 0xBD"
  "char_of (191 :: nat) = CHR 0xBF" "char_of (226 :: nat) = CHR 0xE2" "char_of (239 :: nat) = CHR 0xEF"
  by code_simp+

lemma hex_val_hex_char [simp]: "d < 16 \<Longrightarrow> hex_val (hex_char d) = Some d"
proof -
  have "list_all (\<lambda>d. hex_val (hex_char d) = Some d) [0..<16]" by code_simp
  then show "d < 16 \<Longrightarrow> hex_val (hex_char d) = Some d" by (simp add: list_all_iff)
qed

lemma hex4_digits: "r < 65536 \<Longrightarrow> hex4 (drop 2 (u_escape r) @ t) = Some (r, t)"
proof -
  assume r: "r < 65536"
  have "r div 4096 < 16" using r by simp
  moreover have "r div 256 mod 16 = r div 256 - r div 4096 * 16" "r div 16 mod 16 = r div 16 - r div 256 * 16"
    by (simp_all add: modulo_nat_def div_mult2_eq [symmetric] mult.commute)
  moreover have "r mod 16 = r - r div 16 * 16" by (simp add: modulo_nat_def mult.commute)
  moreover have "r div 16 * 16 \<le> r" "r div 256 * 16 \<le> r div 16" "r div 4096 * 16 \<le> r div 256" by simp_all
  ultimately have "(r div 4096 mod 16) * 4096 + (r div 256 mod 16) * 256 + (r div 16 mod 16) * 16 + r mod 16 = r"
    by (simp add: diff_mult_distrib)
  then show ?thesis by (simp add: u_escape_def del: mod_less)
qed

lemma unquote_u_escape:
  assumes "r < 65536" "\<not> (55296 \<le> r \<and> r < 57344)"
  shows "unquote (u_escape r @ t) = prepend (utf8_encode r) (unquote t)"
proof -
  have e: "u_escape r @ t = backslash # CHR ''u'' # drop 2 (u_escape r) @ t" by (simp add: u_escape_def)
  show ?thesis
    unfolding e using assms hex4_digits [of r t] by (auto simp: unquote.simps(2) simple_escape_def)
qed

lemma unquote_escape_ascii:
  assumes "byte c < 128"
  shows "unquote (escape_ascii c @ t) = prepend [c] (unquote t)"
proof -
  have lead: "utf8_lead (c # t) = 1" using assms by (simp add: utf8_lead.simps)
  have byte: "c = char_of k" if "byte c = k" for k using that by (metis char_of_char)
  have u: "unquote (u_escape (byte c) @ t) = prepend [c] (unquote t)"
    using unquote_u_escape [of "byte c" t] assms by (simp add: utf8_encode_def)
  have plain: "unquote (c # t) = prepend [c] (unquote t)" if "32 \<le> byte c" "c \<noteq> dquote" "c \<noteq> backslash"
    using that lead by (simp add: unquote.simps(2))
  show ?thesis
    unfolding escape_ascii_def Let_def using u plain
    by (auto simp: unquote.simps(2) simple_escape_def not_less char_codes dest!: byte)
qed

lemma unquote_rune:
  assumes "\<not> byte c < 128" "0 < utf8_lead (c # cs)"
  shows "unquote (take (utf8_lead (c # cs)) (c # cs) @ t) = prepend (take (utf8_lead (c # cs)) (c # cs)) (unquote t)"
proof -
  let ?k = "utf8_lead (c # cs)"
  obtain j where k: "?k = Suc j" using assms(2) by (cases ?k) auto
  have loc: "utf8_lead (take ?k (c # cs) @ t) = ?k" "?k \<le> length (c # cs)" using utf8_lead_local [OF assms(2)] by auto
  have c: "c \<noteq> dquote" "c \<noteq> backslash" "\<not> byte c < 32" using assms(1) by auto
  have e: "take ?k (c # cs) @ t = c # take j cs @ t" by (simp add: k)
  have "length (take j cs) = j" using loc(2) k by simp
  with loc(1) show ?thesis
    unfolding e using c by (simp add: unquote.simps(2) k)
qed

theorem unquote_json_chars: "unquote (json_chars s @ dquote # rest) = Some (to_valid_utf8 s, rest)"
proof (induction s rule: json_chars.induct)
  case 1
  then show ?case by (simp add: unquote.simps(2))
next
  case (2 c cs)
  let ?k = "utf8_lead (c # cs)"
  let ?t = "json_chars (drop (?k - 1) cs) @ dquote # rest"
  have rune: "unquote ?t = Some (to_valid_utf8 (drop (?k - 1) cs), rest)" if "\<not> byte c < 128" "?k \<noteq> 0"
    using that 2(3-5) by blast
  consider (ascii) "byte c < 128" | (bad) "\<not> byte c < 128" "?k = 0" | (good) "\<not> byte c < 128" "?k \<noteq> 0" by blast
  then show ?case
  proof cases
    case ascii
    then have "?k = 1" by (simp add: utf8_lead.simps)
    with ascii 2(1) [OF refl ascii] show ?thesis by (simp add: unquote_escape_ascii)
  next
    case bad
    with 2(2) [OF refl bad] show ?thesis by (simp add: unquote_u_escape utf8_encode_def replacement_def char_codes)
  next
    case good
    have "unquote (take ?k (c # cs) @ ?t) = prepend (take ?k (c # cs)) (unquote ?t)"
      using unquote_rune good by simp
    with good rune [OF good] show ?thesis
      by (simp add: Let_def unquote_u_escape) (simp add: utf8_encode_def char_codes)
  qed
qed

section \<open>Checking and compacting a value\<close>

definition is_ws :: "char \<Rightarrow> bool" where
  "is_ws c \<longleftrightarrow> c = CHR 0x20 \<or> c = CHR 0x09 \<or> c = CHR 0x0A \<or> c = CHR 0x0D"

definition skip_ws :: "string \<Rightarrow> string" where
  "skip_ws s = dropWhile is_ws s"

text \<open>
  A string literal after its opening quote, as \<open>json.Marshal\<close> copies it from a \<open>RawMessage\<close>: unchanged but
  for the HTML escapes and the two line separators.
\<close>

definition line_separator :: "string \<Rightarrow> nat option" where
  "line_separator s =
     (if take 3 s = [CHR 0xE2, CHR 0x80, CHR 0xA8] then Some 8232
      else if take 3 s = [CHR 0xE2, CHR 0x80, CHR 0xA9] then Some 8233
      else None)"

function jstring :: "string \<Rightarrow> (string \<times> string) option" where
  "jstring [] = None"
| "jstring (c # cs) =
     (if c = dquote then Some ([dquote], cs)
      else if c = backslash then
        (case cs of
           [] \<Rightarrow> None
         | e # es \<Rightarrow>
             if simple_escape e \<noteq> None then prepend [backslash, e] (jstring es)
             else if e \<noteq> CHR ''u'' then None
             else (case hex4 es of
                None \<Rightarrow> None
              | Some (_, es') \<Rightarrow> prepend (backslash # e # take 4 es) (jstring es')))
      else if byte c < 32 then None
      else if c = CHR ''<'' \<or> c = CHR ''>'' \<or> c = CHR ''&'' then prepend (u_escape (byte c)) (jstring cs)
      else (case line_separator (c # cs) of
         Some r \<Rightarrow> prepend (u_escape r) (jstring (drop 2 cs))
       | None \<Rightarrow> prepend [c] (jstring cs)))"
  by pat_completeness auto
termination
  by (relation "measure length") (auto dest!: hex4_shorter)

declare jstring.simps(2) [simp del]

abbreviation is_digit :: "char \<Rightarrow> bool" where
  "is_digit c \<equiv> 48 \<le> byte c \<and> byte c \<le> 57"

definition some_digits :: "string \<Rightarrow> (string \<times> string) option" where
  "some_digits s = (let ds = takeWhile is_digit s in if ds = [] then None else Some (ds, dropWhile is_digit s))"

definition jint :: "string \<Rightarrow> (string \<times> string) option" where
  "jint s = (case s of [] \<Rightarrow> None | c # r \<Rightarrow> if c = CHR ''0'' then Some ([c], r) else some_digits s)"

definition jfraction :: "string \<Rightarrow> (string \<times> string) option" where
  "jfraction s =
     (case s of
        [] \<Rightarrow> Some ([], [])
      | c # r \<Rightarrow> if c = CHR ''.'' then prepend [c] (some_digits r) else Some ([], s))"

definition jexponent :: "string \<Rightarrow> (string \<times> string) option" where
  "jexponent s =
     (case s of
        [] \<Rightarrow> Some ([], [])
      | c # r \<Rightarrow>
          if c = CHR ''e'' \<or> c = CHR ''E'' then
            (case r of
               [] \<Rightarrow> None
             | c2 # r2 \<Rightarrow>
                 if c2 = CHR ''+'' \<or> c2 = CHR ''-'' then prepend [c, c2] (some_digits r2)
                 else prepend [c] (some_digits r))
          else Some ([], s))"

definition then_parse :: "(string \<Rightarrow> (string \<times> string) option) \<Rightarrow> (string \<times> string) option \<Rightarrow> (string \<times> string) option" where
  "then_parse q x = (case x of None \<Rightarrow> None | Some (t, r) \<Rightarrow> prepend t (q r))"

definition junsigned :: "string \<Rightarrow> (string \<times> string) option" where
  "junsigned s = then_parse jexponent (then_parse jfraction (jint s))"

definition jnumber :: "string \<Rightarrow> (string \<times> string) option" where
  "jnumber s =
     (case s of
        [] \<Rightarrow> None
      | c # r \<Rightarrow> if c = CHR ''-'' then prepend [c] (junsigned r) else junsigned s)"

definition jliteral :: "string \<Rightarrow> (string \<times> string) option" where
  "jliteral s =
     (if take 4 s = ''true'' then Some (''true'', drop 4 s)
      else if take 5 s = ''false'' then Some (''false'', drop 5 s)
      else if take 4 s = ''null'' then Some (''null'', drop 4 s)
      else jnumber s)"

text \<open>
  A value: its compact text and what follows. \<open>d\<close> is how many more objects and arrays may be opened
  (Go allows 10000), \<open>k\<close> is fuel; \<open>jvalue_fuel\<close> below shows that the length of the input is enough.
\<close>

fun jvalue :: "nat \<Rightarrow> nat \<Rightarrow> string \<Rightarrow> (string \<times> string) option"
  and jmembers :: "nat \<Rightarrow> nat \<Rightarrow> string \<Rightarrow> (string \<times> string) option"
  and jelements :: "nat \<Rightarrow> nat \<Rightarrow> string \<Rightarrow> (string \<times> string) option" where
  "jvalue 0 d s = None"
| "jvalue (Suc k) d s =
     (case skip_ws s of
        [] \<Rightarrow> None
      | c # r \<Rightarrow>
          if c = dquote then prepend [c] (jstring r)
          else if c = CHR ''{'' then
            (if d = 0 then None
             else (case skip_ws r of
                [] \<Rightarrow> None
              | c' # r' \<Rightarrow> if c' = CHR ''}'' then Some (''{}'', r') else prepend [c] (jmembers k (d - 1) r)))
          else if c = CHR ''['' then
            (if d = 0 then None
             else (case skip_ws r of
                [] \<Rightarrow> None
              | c' # r' \<Rightarrow> if c' = CHR '']'' then Some (''[]'', r') else prepend [c] (jelements k (d - 1) r)))
          else jliteral (c # r))"
| "jmembers 0 d s = None"
| "jmembers (Suc k) d s =
     (case skip_ws s of
        [] \<Rightarrow> None
      | c # r \<Rightarrow>
          if c \<noteq> dquote then None
          else (case jstring r of
             None \<Rightarrow> None
           | Some (name, r1) \<Rightarrow>
               (case skip_ws r1 of
                  [] \<Rightarrow> None
                | c1 # r2 \<Rightarrow>
                    if c1 \<noteq> CHR '':'' then None
                    else (case jvalue k d r2 of
                       None \<Rightarrow> None
                     | Some (v, r3) \<Rightarrow>
                         (case skip_ws r3 of
                            [] \<Rightarrow> None
                          | c3 # r4 \<Rightarrow>
                              if c3 = CHR '','' then prepend (c # name @ c1 # v @ [c3]) (jmembers k d r4)
                              else if c3 = CHR ''}'' then Some (c # name @ c1 # v @ [c3], r4)
                              else None)))))"
| "jelements 0 d s = None"
| "jelements (Suc k) d s =
     (case jvalue k d s of
        None \<Rightarrow> None
      | Some (v, r) \<Rightarrow>
          (case skip_ws r of
             [] \<Rightarrow> None
           | c # r' \<Rightarrow>
               if c = CHR '','' then prepend (v @ [c]) (jelements k d r')
               else if c = CHR '']'' then Some (v @ [c], r')
               else None))"

definition max_depth :: nat where
  "max_depth = 10000"

text \<open>\<open>json.Compact\<close> of a whole text, with HTML escapes; \<open>None\<close> if it is no JSON.\<close>

definition json_compact :: "string \<Rightarrow> string option" where
  "json_compact s =
     (case jvalue (length s) max_depth s of
        None \<Rightarrow> None
      | Some (t, r) \<Rightarrow> if skip_ws r = [] then Some t else None)"

section \<open>Compact text is compact\<close>

lemma jstring_u: "r < 65536 \<Longrightarrow> jstring (u_escape r @ t) = prepend (u_escape r) (jstring t)"
proof -
  assume r: "r < 65536"
  have e: "u_escape r @ t = backslash # CHR ''u'' # drop 2 (u_escape r) @ t" "take 4 (drop 2 (u_escape r) @ t) = drop 2 (u_escape r)"
    "u_escape r = backslash # CHR ''u'' # drop 2 (u_escape r)"
    by (simp_all add: u_escape_def)
  have "jstring (backslash # CHR ''u'' # drop 2 (u_escape r) @ t) = prepend (backslash # CHR ''u'' # drop 2 (u_escape r)) (jstring t)"
    using hex4_digits [OF r, of t] e(2) by (simp add: jstring.simps(2) simple_escape_def)
  then show ?thesis by (metis e(1,3))
qed

lemma jstring_plain:
  assumes "\<not> byte c < 32" "c \<notin> {dquote, backslash, CHR ''<'', CHR ''>'', CHR ''&''}" "line_separator (c # t) = None"
  shows "jstring (c # t) = prepend [c] (jstring t)"
  using assms by (simp add: jstring.simps(2))

lemma jstring_nonempty: "jstring s = Some (t, r) \<Longrightarrow> t \<noteq> []"
  by (cases s) (auto simp: jstring.simps(2) prepend_Some u_escape_def split: if_splits list.splits option.splits)

lemma jstring_front:
  assumes "jstring s = Some (x # t, r)" "128 \<le> byte x"
  shows "\<exists>s'. s = x # s' \<and> jstring s' = Some (t, r)"
proof -
  have "x \<noteq> dquote" "x \<noteq> backslash" using assms(2) by auto
  with assms(1) show ?thesis
    by (cases s) (auto simp: jstring.simps(2) prepend_Some u_escape_def split: if_splits list.splits option.splits)
qed

lemma line_separator_front:
  assumes "jstring cs = Some (t, r)" "line_separator (c # cs) = None"
  shows "line_separator (c # t @ r') = None"
proof (rule ccontr)
  assume "line_separator (c # t @ r') \<noteq> None"
  then obtain y where y: "take 3 (c # t @ r') = [CHR 0xE2, CHR 0x80, y]" "y = CHR 0xA8 \<or> y = CHR 0xA9"
    by (auto simp: line_separator_def split: if_splits)
  obtain x t1 where t: "t = x # t1" using jstring_nonempty [OF assms(1)] by (cases t) auto
  with y have "x = CHR 0x80" by simp
  with assms(1) t obtain cs1 where cs1: "cs = CHR 0x80 # cs1" "jstring cs1 = Some (t1, r)"
    using jstring_front [of cs x t1 r] by auto
  obtain x2 t2 where t1: "t1 = x2 # t2" using jstring_nonempty [OF cs1(2)] by (cases t1) auto
  with y t have "x2 = y" by simp
  with cs1(2) t1 y(2) obtain cs2 where "cs1 = y # cs2" using jstring_front [of cs1 x2 t2 r] by auto
  with y cs1(1) assms(2) show False by (auto simp: line_separator_def)
qed

lemma hex4_take: "hex4 s = Some (r, t) \<Longrightarrow> hex4 (take 4 s @ u) = Some (r, u) \<and> length (take 4 s) = 4"
  by (induction s rule: hex4.induct) (auto split: option.splits)

lemma line_separator_codes: "line_separator s = Some n \<Longrightarrow> n < 65536"
  by (auto simp: line_separator_def split: if_splits)

lemma jstring_again: "jstring s = Some (t, r) \<Longrightarrow> jstring (t @ r') = Some (t, r')"
proof (induction s arbitrary: t rule: jstring.induct)
  case 1
  then show ?case by simp
next
  case (2 c cs)
  consider (close) "c = dquote" | (esc) "c = backslash" | (html) "c = CHR ''<'' \<or> c = CHR ''>'' \<or> c = CHR ''&''"
    | (sep) n where "c \<notin> {dquote, backslash, CHR ''<'', CHR ''>'', CHR ''&''}" "line_separator (c # cs) = Some n"
    | (plain) "c \<notin> {dquote, backslash, CHR ''<'', CHR ''>'', CHR ''&''}" "line_separator (c # cs) = None" by blast
  then show ?case
  proof cases
    case close
    with 2(6) show ?thesis by (auto simp: jstring.simps(2))
  next
    case esc
    then obtain e es where cs: "cs = e # es" using 2(6) by (cases cs) (auto simp: jstring.simps(2))
    show ?thesis
    proof (cases "simple_escape e = None")
      case True
      with 2(6) esc cs obtain q es' t' where q: "e = CHR ''u''" "hex4 es = Some (q, es')" "jstring es' = Some (t', r)"
        "t = backslash # CHR ''u'' # take 4 es @ t'"
        by (auto simp: jstring.simps(2) prepend_Some split: if_splits option.splits)
      have "jstring (t' @ r') = Some (t', r')" using 2(2) esc cs True q by auto
      then show ?thesis
        using hex4_take [OF q(2), of "t' @ r'"] q by (simp add: jstring.simps(2) simple_escape_def)
    next
      case False
      with 2(6) esc cs obtain t' where q: "jstring es = Some (t', r)" "t = backslash # e # t'"
        by (auto simp: jstring.simps(2) prepend_Some split: if_splits)
      have "jstring (t' @ r') = Some (t', r')" using 2(1) esc cs False q by auto
      then show ?thesis using q False by (simp add: jstring.simps(2))
    qed
  next
    case html
    then have p: "\<not> byte c < 32" "c \<noteq> dquote" "c \<noteq> backslash" by auto
    with html 2(6) obtain t' where q: "jstring cs = Some (t', r)" "t = u_escape (byte c) @ t'"
      by (auto simp: jstring.simps(2) prepend_Some)
    have "jstring (t' @ r') = Some (t', r')" using 2(3) p html q by blast
    moreover have "byte c < 65536" using html by auto
    ultimately show ?thesis using q(2) by (simp add: jstring_u)
  next
    case (sep n)
    then have p: "\<not> byte c < 32" by (auto simp: line_separator_def split: if_splits)
    with sep 2(6) obtain t' where q: "jstring (drop 2 cs) = Some (t', r)" "t = u_escape n @ t'"
      by (auto simp: jstring.simps(2) prepend_Some)
    have "jstring (t' @ r') = Some (t', r')" using 2(5) p sep q by auto
    then show ?thesis using q(2) line_separator_codes [OF sep(2)] by (simp add: jstring_u)
  next
    case plain
    with 2(6) have p: "\<not> byte c < 32" by (auto simp: jstring.simps(2))
    with plain 2(6) obtain t' where q: "jstring cs = Some (t', r)" "t = c # t'"
      by (auto simp: jstring.simps(2) prepend_Some)
    have "jstring (t' @ r') = Some (t', r')" using 2(4) p plain q by auto
    then show ?thesis
      using q plain p jstring_plain line_separator_front [OF q(1) plain(2), of r'] by simp
  qed
qed

text \<open>What can follow a value inside compact text, or at its end.\<close>

definition delim :: "string \<Rightarrow> bool" where
  "delim r \<longleftrightarrow> (case r of [] \<Rightarrow> True | c # _ \<Rightarrow> c = CHR '','' \<or> c = CHR '']'' \<or> c = CHR ''}'')"

definition no_digit :: "string \<Rightarrow> bool" where
  "no_digit r \<longleftrightarrow> (case r of [] \<Rightarrow> True | c # _ \<Rightarrow> \<not> is_digit c)"

lemma delim_no_digit: "delim r \<Longrightarrow> no_digit r"
  by (auto simp: delim_def no_digit_def split: list.splits)

lemma some_digits_again: "some_digits s = Some (t, r) \<Longrightarrow> no_digit r' \<Longrightarrow> some_digits (t @ r') = Some (t, r')"
proof -
  assume "some_digits s = Some (t, r)" and r': "no_digit r'"
  then have t: "t = takeWhile is_digit s" "t \<noteq> []" by (auto simp: some_digits_def Let_def split: if_splits)
  then have "\<forall>c \<in> set t. is_digit c" using set_takeWhileD by metis
  then have "takeWhile is_digit (t @ r') = t @ takeWhile is_digit r'" "dropWhile is_digit (t @ r') = dropWhile is_digit r'"
    by auto
  moreover have "takeWhile is_digit r' = []" "dropWhile is_digit r' = r'"
    using r' by (auto simp: no_digit_def split: list.splits)
  ultimately show ?thesis using t(2) by (simp add: some_digits_def)
qed

lemma some_digits_nonempty: "some_digits s = Some (t, r) \<Longrightarrow> t \<noteq> [] \<and> is_digit (hd t)"
  by (cases s) (auto simp: some_digits_def Let_def split: if_splits)

lemma jexponent_again:
  "jexponent s = Some (t, r) \<Longrightarrow> delim r' \<Longrightarrow> jexponent (t @ r') = Some (t, r') \<and>
     (t = [] \<or> hd t = CHR ''e'' \<or> hd t = CHR ''E'')"
proof -
  assume x: "jexponent s = Some (t, r)" and r': "delim r'"
  consider "t = []" | c c2 u s' where "c = CHR ''e'' \<or> c = CHR ''E''" "c2 = CHR ''+'' \<or> c2 = CHR ''-''"
      "some_digits s' = Some (u, r)" "t = c # c2 # u"
    | c u s' where "c = CHR ''e'' \<or> c = CHR ''E''" "some_digits s' = Some (u, r)" "t = c # u"
    using x by (auto simp: jexponent_def prepend_Some split: list.splits if_splits)
  then show ?thesis
  proof cases
    case 1
    with r' show ?thesis by (auto simp: jexponent_def delim_def split: list.splits)
  next
    case 2
    then show ?thesis
      using some_digits_again [OF 2(3) delim_no_digit [OF r']] by (auto simp: jexponent_def)
  next
    case 3
    obtain x u' where u: "u = x # u'" "is_digit x" using some_digits_nonempty [OF 3(2)] by (cases u) auto
    then have "x \<noteq> CHR ''+''" "x \<noteq> CHR ''-''" by auto
    then show ?thesis
      using some_digits_again [OF 3(2) delim_no_digit [OF r']] 3 u by (auto simp: jexponent_def)
  qed
qed

text \<open>What can follow the integer and the fraction of a number.\<close>

lemma jfraction_again:
  assumes "jfraction s = Some (t, r)" "no_digit r'" "\<not> (\<exists>q. r' = CHR ''.'' # q)"
  shows "jfraction (t @ r') = Some (t, r') \<and> (t = [] \<or> hd t = CHR ''.'')"
proof -
  consider "t = []" | u s' where "some_digits s' = Some (u, r)" "t = CHR ''.'' # u"
    using assms(1) by (auto simp: jfraction_def prepend_Some split: list.splits if_splits)
  then show ?thesis
  proof cases
    case 1
    with assms(3) show ?thesis by (auto simp: jfraction_def split: list.splits)
  next
    case 2
    then show ?thesis using some_digits_again [OF 2(1) assms(2)] by (simp add: jfraction_def)
  qed
qed

lemma jint_again:
  assumes "jint s = Some (t, r)" "no_digit r'"
  shows "jint (t @ r') = Some (t, r') \<and> t \<noteq> [] \<and> is_digit (hd t)"
proof -
  consider "t = ''0''" | "some_digits s = Some (t, r)" "hd t \<noteq> CHR ''0''" "t \<noteq> []"
    using assms(1)
    by (auto simp: jint_def some_digits_def Let_def split: list.splits if_splits)
  then show ?thesis
  proof cases
    case 1
    then show ?thesis by (simp add: jint_def)
  next
    case 2
    then show ?thesis
      using some_digits_again [OF 2(1) assms(2)] some_digits_nonempty [OF 2(1)]
      by (cases t) (auto simp: jint_def)
  qed
qed

lemma junsigned_again:
  assumes "junsigned s = Some (t, r)" "delim r'"
  shows "junsigned (t @ r') = Some (t, r') \<and> t \<noteq> [] \<and> is_digit (hd t)"
proof -
  obtain i s1 f s2 e where i: "jint s = Some (i, s1)" and f: "jfraction s1 = Some (f, s2)"
    and e: "jexponent s2 = Some (e, r)" and t: "t = i @ f @ e"
    using assms(1) by (auto simp: junsigned_def then_parse_def prepend_Some split: option.splits)
  note e' = jexponent_again [OF e assms(2)]
  have er: "no_digit (e @ r')" "\<not> (\<exists>q. e @ r' = CHR ''.'' # q)"
    using e' assms(2) by (cases e; auto simp: no_digit_def delim_def split: list.splits)+
  note f' = jfraction_again [OF f er]
  have "no_digit (f @ e @ r')" using f' er by (cases f) (auto simp: no_digit_def)
  note i' = jint_again [OF i this]
  show ?thesis using e' f' i' by (simp add: junsigned_def then_parse_def t)
qed

lemma jnumber_again:
  assumes "jnumber s = Some (t, r)" "delim r'"
  shows "jnumber (t @ r') = Some (t, r') \<and> t \<noteq> [] \<and> (is_digit (hd t) \<or> hd t = CHR ''-'')"
proof -
  consider u s' where "t = CHR ''-'' # u" "junsigned s' = Some (u, r)" | "junsigned s = Some (t, r)"
    using assms(1) by (auto simp: jnumber_def prepend_Some split: list.splits if_splits)
  then show ?thesis
  proof cases
    case 1
    then show ?thesis using junsigned_again [OF 1(2) assms(2)] by (simp add: jnumber_def)
  next
    case 2
    have "hd t \<noteq> CHR ''-''" using junsigned_again [OF 2 assms(2)] by auto
    then show ?thesis
      using junsigned_again [OF 2 assms(2)]
      by (cases t) (auto simp: jnumber_def)
  qed
qed

definition literal_start :: "char \<Rightarrow> bool" where
  "literal_start c \<longleftrightarrow> is_digit c \<or> c = CHR ''-'' \<or> c = CHR ''t'' \<or> c = CHR ''f'' \<or> c = CHR ''n''"

lemma jliteral_again:
  assumes "jliteral s = Some (t, r)" "delim r'"
  shows "jliteral (t @ r') = Some (t, r') \<and> t \<noteq> [] \<and> literal_start (hd t)"
proof -
  consider "t \<in> {''true'', ''false'', ''null''}" | "jnumber s = Some (t, r)"
    using assms(1) by (auto simp: jliteral_def split: if_splits)
  then show ?thesis
  proof cases
    case 1
    then show ?thesis by (auto simp: jliteral_def literal_start_def)
  next
    case 2
    note n = jnumber_again [OF 2 assms(2)]
    obtain x t' where t: "t = x # t'" "is_digit x \<or> x = CHR ''-''" using n by (cases t) auto
    then have "x \<noteq> CHR ''t''" "x \<noteq> CHR ''f''" "x \<noteq> CHR ''n''" by auto
    then show ?thesis using n t by (auto simp: jliteral_def literal_start_def)
  qed
qed

text \<open>The first character of a value, which is no white space and ends no array.\<close>

definition value_start :: "char \<Rightarrow> bool" where
  "value_start c \<longleftrightarrow> literal_start c \<or> c = dquote \<or> c = CHR ''{'' \<or> c = CHR ''[''"

lemma value_start_plain: "value_start c \<Longrightarrow> \<not> is_ws c \<and> c \<noteq> CHR '']'' \<and> c \<noteq> CHR ''}''"
  by (auto simp: value_start_def literal_start_def is_ws_def)

lemma skip_ws_id: "t = c # t' \<Longrightarrow> \<not> is_ws c \<Longrightarrow> skip_ws t = t"
  by (simp add: skip_ws_def)

lemma skip_ws_Cons [simp]: "\<not> is_ws c \<Longrightarrow> skip_ws (c # t) = c # t"
  by (simp add: skip_ws_def)

lemma punctuation_no_ws [simp]:
  "\<not> is_ws dquote" "\<not> is_ws (CHR '','')" "\<not> is_ws (CHR '':'')" "\<not> is_ws (CHR ''}'')" "\<not> is_ws (CHR '']'')"
  "\<not> is_ws (CHR ''{'')" "\<not> is_ws (CHR ''['')"
  by (simp_all add: is_ws_def)

lemma delim_punctuation [simp]: "delim (CHR '','' # r)" "delim (CHR ''}'' # r)" "delim (CHR '']'' # r)" "delim []"
  by (simp_all add: delim_def)

definition value_again :: "nat \<Rightarrow> string \<Rightarrow> bool" where
  "value_again d t \<longleftrightarrow> t \<noteq> [] \<and> value_start (hd t) \<and>
     (\<forall>k r. length t \<le> k \<longrightarrow> delim r \<longrightarrow> jvalue k d (t @ r) = Some (t, r))"

definition members_again :: "nat \<Rightarrow> string \<Rightarrow> bool" where
  "members_again d t \<longleftrightarrow> t \<noteq> [] \<and> hd t = dquote \<and>
     (\<forall>k r. length t \<le> k \<longrightarrow> jmembers k d (t @ r) = Some (t, r))"

definition elements_again :: "nat \<Rightarrow> string \<Rightarrow> bool" where
  "elements_again d t \<longleftrightarrow> t \<noteq> [] \<and> value_start (hd t) \<and>
     (\<forall>k r. length t \<le> k \<longrightarrow> jelements k d (t @ r) = Some (t, r))"

lemma value_again_string: "jstring s = Some (t, r) \<Longrightarrow> value_again d (dquote # t)"
  unfolding value_again_def by (auto simp: value_start_def jstring_again dest!: Suc_le_D)

lemma literal_start_plain: "literal_start c \<Longrightarrow> value_start c \<and> c \<noteq> dquote \<and> c \<noteq> CHR ''{'' \<and> c \<noteq> CHR ''[''"
  by (auto simp: value_start_def literal_start_def)

lemma value_again_literal: "jliteral s = Some (t, r) \<Longrightarrow> value_again d t"
proof -
  assume j: "jliteral s = Some (t, r)"
  note start = jliteral_again [OF j delim_punctuation(4)]
  obtain c t' where t: "t = c # t'" "literal_start c" using start by (cases t) auto
  then have c: "value_start c" "c \<noteq> dquote" "c \<noteq> CHR ''{''" "c \<noteq> CHR ''[''" "\<not> is_ws c"
    using value_start_plain literal_start_plain [OF t(2)] by blast+
  have "jvalue k d (t @ r') = Some (t, r')" if "length t \<le> k" "delim r'" for k r'
    using that jliteral_again [OF j that(2)] t c by (cases k) auto
  then show ?thesis using start c t by (auto simp: value_again_def)
qed

lemma object_any_rest:
  assumes "members_again d t" "length (CHR ''{'' # t) \<le> k"
  shows "jvalue k (Suc d) ((CHR ''{'' # t) @ r) = Some (CHR ''{'' # t, r)"
proof -
  obtain t' where "t = dquote # t'" using assms(1) by (cases t) (auto simp: members_again_def)
  then show ?thesis using assms by (cases k) (auto simp: members_again_def)
qed

lemma value_again_object: "members_again d t \<Longrightarrow> value_again (Suc d) (CHR ''{'' # t)"
  using object_any_rest [of d t] by (simp add: value_again_def value_start_def)

lemma value_again_array: "elements_again d t \<Longrightarrow> value_again (Suc d) (CHR ''['' # t)"
proof -
  assume m: "elements_again d t"
  then obtain c t' where t: "t = c # t'" "value_start c" by (cases t) (auto simp: elements_again_def)
  have "jvalue k (Suc d) ((CHR ''['' # t) @ r) = Some (CHR ''['' # t, r)" if "length (CHR ''['' # t) \<le> k" for k r
    using that m t value_start_plain [OF t(2)] by (cases k) (auto simp: elements_again_def)
  then show ?thesis by (simp add: value_again_def value_start_def)
qed

lemma value_again_empty: "0 < d \<Longrightarrow> value_again d ''{}'' \<and> value_again d ''[]''"
  by (auto simp: value_again_def value_start_def dest!: Suc_le_D)

lemma member_step:
  assumes "jstring s = Some (name, s')" "value_again d v" "length (dquote # name @ CHR '':'' # v @ [c]) \<le> k"
    "c = CHR '','' \<or> c = CHR ''}''"
  shows "jmembers k d (dquote # name @ CHR '':'' # v @ c # t) =
    (if c = CHR '','' then prepend (dquote # name @ CHR '':'' # v @ [c]) (jmembers (k - 1) d t)
     else Some (dquote # name @ CHR '':'' # v @ [c], t))"
proof -
  obtain k' where k: "k = Suc k'" using assms(3) by (cases k) auto
  have "delim (c # t)" using assms(4) by auto
  then have v: "jvalue k' d (v @ c # t) = Some (v, c # t)" using assms(2,3) k by (auto simp: value_again_def)
  show ?thesis
    using assms(4) v jstring_again [OF assms(1), of "CHR '':'' # v @ c # t"] by (auto simp: k)
qed

lemma members_again_last:
  "jstring s = Some (name, s') \<Longrightarrow> value_again d v \<Longrightarrow> members_again d (dquote # name @ CHR '':'' # v @ [CHR ''}''])"
  unfolding members_again_def using member_step [where c = "CHR ''}''"] by simp

lemma members_again_more:
  assumes "jstring s = Some (name, s')" "value_again d v" "members_again d t"
  shows "members_again d (dquote # name @ CHR '':'' # v @ CHR '','' # t)"
proof -
  have "jmembers k d (dquote # name @ CHR '':'' # v @ CHR '','' # t @ r) =
      Some (dquote # name @ CHR '':'' # v @ CHR '','' # t, r)"
    if l: "length (dquote # name @ CHR '':'' # v @ CHR '','' # t) \<le> k" for k r
  proof -
    have "jmembers (k - 1) d (t @ r) = Some (t, r)" using assms(3) l by (simp add: members_again_def)
    then show ?thesis using member_step [OF assms(1,2), of "CHR '',''" k "t @ r"] l by simp
  qed
  then show ?thesis by (simp add: members_again_def)
qed

lemma element_step:
  assumes "value_again d v" "length (v @ [c]) \<le> k" "c = CHR '','' \<or> c = CHR '']''"
  shows "jelements k d (v @ c # t) =
    (if c = CHR '','' then prepend (v @ [c]) (jelements (k - 1) d t) else Some (v @ [c], t))"
proof -
  obtain k' where k: "k = Suc k'" using assms(2) by (cases k) auto
  have "delim (c # t)" using assms(3) by auto
  then have v: "jvalue k' d (v @ c # t) = Some (v, c # t)" using assms(1,2) k by (auto simp: value_again_def)
  then show ?thesis using assms(3) by (auto simp: k)
qed

lemma elements_again_last: "value_again d v \<Longrightarrow> elements_again d (v @ [CHR '']''])"
  using element_step [where c = "CHR '']''"] by (auto simp: elements_again_def value_again_def hd_append)

lemma elements_again_more:
  assumes "value_again d v" "elements_again d t"
  shows "elements_again d (v @ CHR '','' # t)"
proof -
  have "jelements k d (v @ CHR '','' # t @ r) = Some (v @ CHR '','' # t, r)"
    if l: "length (v @ CHR '','' # t) \<le> k" for k r
  proof -
    have "jelements (k - 1) d (t @ r) = Some (t, r)" using assms(2) l by (simp add: elements_again_def)
    then show ?thesis using element_step [OF assms(1), of "CHR '',''" k "t @ r"] l by simp
  qed
  then show ?thesis using assms(1) by (auto simp: elements_again_def value_again_def hd_append)
qed

theorem parsed_again:
  "jvalue k d s = Some (t, r) \<Longrightarrow> value_again d t"
  "jmembers k d s = Some (t, r) \<Longrightarrow> members_again d t"
  "jelements k d s = Some (t, r) \<Longrightarrow> elements_again d t"
proof (induction k d s and k d s and k d s arbitrary: t r and t r and t r rule: jvalue_jmembers_jelements.induct)
  case (2 k d s)
  obtain c cs where s: "skip_ws s = c # cs" using 2(3) by (cases "skip_ws s") auto
  consider (str) u where "c = dquote" "jstring cs = Some (u, r)" "t = dquote # u"
    | (empty) "0 < d" "t = ''{}'' \<or> t = ''[]''"
    | (obj) u c' r' where "c = CHR ''{''" "skip_ws cs = c' # r'" "c' \<noteq> CHR ''}''" "d \<noteq> 0" "jmembers k (d - 1) cs = Some (u, r)" "t = CHR ''{'' # u"
    | (arr) u c' r' where "c = CHR ''[''" "skip_ws cs = c' # r'" "c' \<noteq> CHR '']''" "d \<noteq> 0" "jelements k (d - 1) cs = Some (u, r)" "t = CHR ''['' # u"
    | (lit) "jliteral (c # cs) = Some (t, r)"
    using 2(3) s by (auto simp: prepend_Some split: if_splits list.splits)
  then show ?case
  proof cases
    case str
    then show ?thesis using value_again_string by simp
  next
    case empty
    then show ?thesis using value_again_empty by blast
  next
    case obj
    then have "members_again (d - 1) u"
      using 2(1) [OF s] by auto
    then show ?thesis using value_again_object [of "d - 1" u] obj by simp
  next
    case arr
    then have "elements_again (d - 1) u"
      using 2(2) [OF s] by auto
    then show ?thesis using value_again_array [of "d - 1" u] arr by simp
  next
    case lit
    then show ?thesis by (rule value_again_literal)
  qed
next
  case (4 k d s)
  then show ?case
    using members_again_last members_again_more
    by (auto simp: prepend_Some split: if_splits list.splits option.splits)
next
  case (6 k d s)
  then show ?case
    using elements_again_last elements_again_more
    by (auto simp: prepend_Some split: if_splits list.splits option.splits)
qed simp_all

section \<open>Fuel\<close>

lemma prepend_rest: "prepend p x = Some (t, r) \<Longrightarrow> \<exists>u. x = Some (u, r)"
  by (auto simp: prepend_Some)

lemma skip_ws_length: "length (skip_ws s) \<le> length s"
  by (simp add: skip_ws_def length_dropWhile_le)

lemma jstring_step:
  assumes "jstring (c # cs) = Some (t, r)"
  shows "r = cs \<or> (\<exists>s' u. length s' \<le> length cs \<and> jstring s' = Some (u, r))"
proof -
  have "cs \<noteq> []" if "c = backslash" using that assms by (auto simp: jstring.simps(2))
  then consider (close) "c = dquote" | (esc) e es where "c = backslash" "c \<noteq> dquote" "cs = e # es"
    | (plain) "c \<noteq> dquote" "c \<noteq> backslash"
    by (cases cs) auto
  then show ?thesis
  proof cases
    case close
    with assms show ?thesis by (simp add: jstring.simps(2))
  next
    case esc
    with assms consider u where "jstring es = Some (u, r)" | q es' u where "hex4 es = Some (q, es')" "jstring es' = Some (u, r)"
      by (auto simp: jstring.simps(2) dest!: prepend_rest split: if_splits option.splits)
    then show ?thesis
    proof cases
      case 1
      moreover have "length es \<le> length cs" using esc(3) by simp
      ultimately show ?thesis by blast
    next
      case 2
      moreover have "length es' \<le> length cs" using esc(3) hex4_shorter [OF 2(1)] by simp
      ultimately show ?thesis by blast
    qed
  next
    case plain
    with assms have "(\<exists>u. jstring cs = Some (u, r)) \<or> (\<exists>u. jstring (drop 2 cs) = Some (u, r))"
      by (auto simp: jstring.simps(2) dest!: prepend_rest split: if_splits option.splits)
    moreover have "length (drop 2 cs) \<le> length cs" by simp
    ultimately show ?thesis by (meson order_refl)
  qed
qed

lemma jstring_shorter: "jstring s = Some (t, r) \<Longrightarrow> length r < length s"
proof (induction "length s" arbitrary: s t rule: less_induct)
  case less
  obtain c cs where s: "s = c # cs" using less(2) by (cases s) auto
  from jstring_step [OF less(2) [unfolded s]] show ?case
  proof
    assume "\<exists>s' u. length s' \<le> length cs \<and> jstring s' = Some (u, r)"
    then obtain s' u where "length s' \<le> length cs" "jstring s' = Some (u, r)" by blast
    then show ?thesis using less(1) [of s' u] s by simp
  qed (simp add: s)
qed

lemma some_digits_shorter: "some_digits s = Some (t, r) \<Longrightarrow> length r < length s"
  by (cases s) (auto simp: some_digits_def Let_def length_dropWhile_le le_imp_less_Suc split: if_splits)

lemma jint_shorter: "jint s = Some (t, r) \<Longrightarrow> length r < length s"
  by (auto simp: jint_def split: list.splits if_splits dest: some_digits_shorter)

lemma jfraction_shorter: "jfraction s = Some (t, r) \<Longrightarrow> length r \<le> length s"
  by (auto simp: jfraction_def split: list.splits if_splits dest!: prepend_rest some_digits_shorter)

lemma jexponent_shorter: "jexponent s = Some (t, r) \<Longrightarrow> length r \<le> length s"
  by (auto simp: jexponent_def split: list.splits if_splits dest!: prepend_rest some_digits_shorter)

lemma junsigned_shorter: "junsigned s = Some (t, r) \<Longrightarrow> length r < length s"
  by (auto simp: junsigned_def then_parse_def split: option.splits
      dest!: prepend_rest jint_shorter jfraction_shorter jexponent_shorter)

lemma jliteral_shorter: "jliteral s = Some (t, r) \<Longrightarrow> length r < length s"
  by (cases s) (auto simp: jliteral_def jnumber_def split: if_splits dest!: prepend_rest junsigned_shorter)

definition enough :: "(nat \<Rightarrow> nat \<Rightarrow> string \<Rightarrow> (string \<times> string) option) \<Rightarrow> nat \<Rightarrow> string \<Rightarrow> string \<Rightarrow> string \<Rightarrow> bool" where
  "enough p d s t r \<longleftrightarrow> length r < length s \<and> (\<forall>k. length s \<le> k + length r \<longrightarrow> p k d s = Some (t, r))"

lemma enough_smaller: "enough p d s t r \<Longrightarrow> length s \<le> n + length r \<Longrightarrow> p n d s = Some (t, r)"
  by (auto simp: enough_def)

lemma skip_ws_shorter: "skip_ws s = c # r \<Longrightarrow> length r < length s"
  using skip_ws_length [of s] by simp

lemma enoughI:
  assumes "length r < length s" "\<And>n. length s \<le> Suc n + length r \<Longrightarrow> p (Suc n) d s = Some (t, r)"
  shows "enough p d s t r"
proof -
  have "p k d s = Some (t, r)" if "length s \<le> k + length r" for k
    using that assms by (cases k) auto
  then show ?thesis using assms(1) by (simp add: enough_def)
qed

theorem parse_fuel:
  "jvalue k d s = Some (t, r) \<Longrightarrow> enough jvalue d s t r"
  "jmembers k d s = Some (t, r) \<Longrightarrow> enough jmembers d s t r"
  "jelements k d s = Some (t, r) \<Longrightarrow> enough jelements d s t r"
proof (induction k d s and k d s and k d s arbitrary: t r and t r and t r rule: jvalue_jmembers_jelements.induct)
  case (2 k d s)
  obtain c cs where s: "skip_ws s = c # cs" using 2(3) by (cases "skip_ws s") auto
  note l = skip_ws_shorter [OF s]
  consider (str) u where "c = dquote" "jstring cs = Some (u, r)" "t = dquote # u"
    | (empty) c' where "0 < d" "c = CHR ''{'' \<and> c' = CHR ''}'' \<and> t = ''{}'' \<or> c = CHR ''['' \<and> c' = CHR '']'' \<and> t = ''[]''" "skip_ws cs = c' # r"
    | (obj) u c' r' where "c = CHR ''{''" "skip_ws cs = c' # r'" "c' \<noteq> CHR ''}''" "d \<noteq> 0" "jmembers k (d - 1) cs = Some (u, r)" "t = CHR ''{'' # u"
    | (arr) u c' r' where "c = CHR ''[''" "skip_ws cs = c' # r'" "c' \<noteq> CHR '']''" "d \<noteq> 0" "jelements k (d - 1) cs = Some (u, r)" "t = CHR ''['' # u"
    | (lit) "c \<noteq> dquote" "c \<noteq> CHR ''{''" "c \<noteq> CHR ''[''" "jliteral (c # cs) = Some (t, r)"
    using 2(3) s by (auto simp: prepend_Some split: if_splits list.splits)
  then show ?case
  proof cases
    case str
    then show ?thesis using jstring_shorter [OF str(2)] l s by (intro enoughI) auto
  next
    case empty
    then show ?thesis using skip_ws_shorter [OF empty(3)] l s by (intro enoughI) auto
  next
    case obj
    then have e: "enough jmembers (d - 1) cs u r" using 2(1) [OF s] by auto
    then have "length r < length s" using l by (simp add: enough_def)
    moreover have "jvalue (Suc n) d s = Some (t, r)" if "length s \<le> Suc n + length r" for n
      using that enough_smaller [OF e, of n] l s obj by simp
    ultimately show ?thesis by (rule enoughI)
  next
    case arr
    then have e: "enough jelements (d - 1) cs u r" using 2(2) [OF s] by auto
    then have "length r < length s" using l by (simp add: enough_def)
    moreover have "jvalue (Suc n) d s = Some (t, r)" if "length s \<le> Suc n + length r" for n
      using that enough_smaller [OF e, of n] l s arr by simp
    ultimately show ?thesis by (rule enoughI)
  next
    case lit
    have "length r < length s" using jliteral_shorter [OF lit(4)] l skip_ws_length [of s] s by simp
    then show ?thesis using s lit by (intro enoughI) auto
  qed
next
  case (4 k d s)
  then obtain r0 name r1 r2 v r3 c3 r4 where p: "skip_ws s = dquote # r0" "jstring r0 = Some (name, r1)"
    "skip_ws r1 = CHR '':'' # r2" "jvalue k d r2 = Some (v, r3)" "skip_ws r3 = c3 # r4"
    and c3: "c3 = CHR '','' \<and> (\<exists>u. jmembers k d r4 = Some (u, r) \<and> t = dquote # name @ CHR '':'' # v @ CHR '','' # u) \<or>
      c3 = CHR ''}'' \<and> r = r4 \<and> t = dquote # name @ CHR '':'' # v @ [c3]"
    by (auto simp: prepend_Some split: if_splits list.splits option.splits)
  have v: "enough jvalue d r2 v r3" using 4(1) p by auto
  then have l: "length r2 < length s" "length r4 < length s" "length r4 < length r3" "length r3 < length r2"
    using skip_ws_shorter [OF p(1)] jstring_shorter [OF p(2)] skip_ws_shorter [OF p(3)] skip_ws_shorter [OF p(5)]
    by (simp_all add: enough_def)
  from c3 show ?case
  proof (elim disjE conjE exE)
    fix u assume u: "c3 = CHR '',''" "jmembers k d r4 = Some (u, r)" "t = dquote # name @ CHR '':'' # v @ CHR '','' # u"
    have e: "enough jmembers d r4 u r" using 4(2) p u by auto
    have r: "length r < length r4" using e by (simp add: enough_def)
    have "length r < length s" using r l by simp
    moreover have "jmembers (Suc n) d s = Some (t, r)" if "length s \<le> Suc n + length r" for n
      using that enough_smaller [OF e, of n] enough_smaller [OF v, of n] l r p u by simp
    ultimately show ?case by (rule enoughI)
  next
    assume u: "c3 = CHR ''}''" "r = r4" "t = dquote # name @ CHR '':'' # v @ [c3]"
    have "jmembers (Suc n) d s = Some (t, r)" if "length s \<le> Suc n + length r" for n
      using that enough_smaller [OF v, of n] l p u by simp
    then show ?case using l u by (intro enoughI) auto
  qed
next
  case (6 k d s)
  then obtain v r1 c r2 where p: "jvalue k d s = Some (v, r1)" "skip_ws r1 = c # r2"
    and c: "c = CHR '','' \<and> (\<exists>u. jelements k d r2 = Some (u, r) \<and> t = v @ c # u) \<or> c = CHR '']'' \<and> r = r2 \<and> t = v @ [c]"
    by (auto simp: prepend_Some split: if_splits list.splits option.splits)
  have v: "enough jvalue d s v r1" using 6(1) p by auto
  then have l: "length r1 < length s" "length r2 < length r1"
    using skip_ws_shorter [OF p(2)] by (simp_all add: enough_def)
  from c show ?case
  proof (elim disjE conjE exE)
    fix u assume u: "c = CHR '',''" "jelements k d r2 = Some (u, r)" "t = v @ c # u"
    have e: "enough jelements d r2 u r" using 6(2) p u by auto
    then have r: "length r < length r2" by (simp add: enough_def)
    have "jelements (Suc n) d s = Some (t, r)" if "length s \<le> Suc n + length r" for n
      using that enough_smaller [OF e, of n] enough_smaller [OF v, of n] l r p u by simp
    then show ?case using l r by (intro enoughI) auto
  next
    assume u: "c = CHR '']''" "r = r2" "t = v @ [c]"
    have "jelements (Suc n) d s = Some (t, r)" if "length s \<le> Suc n + length r" for n
      using that enough_smaller [OF v, of n] l p u by simp
    then show ?case using l u by (intro enoughI) auto
  qed
qed simp_all

text \<open>The length of the text is fuel enough to check and compact it.\<close>

corollary jvalue_fuel: "jvalue k d s = Some (t, r) \<Longrightarrow> jvalue (length s) d s = Some (t, r)"
  using enough_smaller [OF parse_fuel(1), of k d s t r "length s"] by simp

section \<open>Written strings are compact\<close>

lemma line_separator_lead: "c \<noteq> CHR 0xE2 \<Longrightarrow> line_separator (c # t) = None"
  by (simp add: line_separator_def)

lemma jstring_escape_ascii: "byte c < 128 \<Longrightarrow> jstring (escape_ascii c @ t) = prepend (escape_ascii c) (jstring t)"
proof -
  assume c: "byte c < 128"
  have byte: "c = char_of k" if "byte c = k" for k using that by (metis char_of_char)
  have u: "jstring (u_escape (byte c) @ t) = prepend (u_escape (byte c)) (jstring t)" using jstring_u c by simp
  have "c \<noteq> CHR 0xE2" using c by auto
  then have plain: "jstring (c # t) = prepend [c] (jstring t)"
    if "32 \<le> byte c" "c \<notin> {dquote, backslash, CHR ''<'', CHR ''>'', CHR ''&''}"
    using that jstring_plain line_separator_lead by simp
  show ?thesis
    unfolding escape_ascii_def Let_def using u plain
    by (auto simp: jstring.simps(2) simple_escape_def not_less char_codes dest!: byte)
qed

lemma jstring_high:
  assumes "128 \<le> byte c" "line_separator (c # t) = None"
  shows "jstring (c # t) = prepend [c] (jstring t)"
proof -
  have "c \<notin> {dquote, backslash, CHR ''<'', CHR ''>'', CHR ''&''}" "\<not> byte c < 32" using assms(1) by auto
  then show ?thesis using jstring_plain assms(2) by simp
qed

lemma jstring_cont: "cont_byte c \<Longrightarrow> jstring (c # t) = prepend [c] (jstring t)"
proof -
  assume c: "cont_byte c"
  then have "c \<noteq> CHR 0xE2" by auto
  with c show ?thesis using jstring_high line_separator_lead by simp
qed

lemma jstring_rune:
  assumes "\<not> byte c < 128" "0 < utf8_lead (c # cs)"
    "take (utf8_lead (c # cs)) (c # cs) \<noteq> [CHR 0xE2, CHR 0x80, CHR 0xA8]"
    "take (utf8_lead (c # cs)) (c # cs) \<noteq> [CHR 0xE2, CHR 0x80, CHR 0xA9]"
  shows "jstring (take (utf8_lead (c # cs)) (c # cs) @ t) = prepend (take (utf8_lead (c # cs)) (c # cs)) (jstring t)"
proof -
  have pre: "prepend p (prepend q x) = prepend (p @ q) x" for p q x by (cases x) auto
  consider (two) b r where "cs = b # r" "utf8_two c b" "utf8_lead (c # cs) = 2"
    | (three) b d r where "cs = b # d # r" "utf8_three c b d" "utf8_lead (c # cs) = 3"
    | (four) b d e r where "cs = b # d # e # r" "utf8_four c b d e" "utf8_lead (c # cs) = 4"
    using assms(1,2) by (auto simp: utf8_lead.simps split: list.splits if_splits)
  then show ?thesis
  proof cases
    case two
    then have c: "cont_byte b" "c \<noteq> CHR 0xE2" by (auto simp: utf8_two_def)
    have "jstring (c # b # t) = prepend [c] (jstring (b # t))"
      using jstring_high [of c "b # t"] line_separator_lead [OF c(2)] assms(1) by simp
    then show ?thesis using two jstring_cont [OF c(1)] by (simp add: pre)
  next
    case three
    then have c: "cont_byte b" "cont_byte d" by (auto simp: utf8_three_def)
    have "line_separator (c # b # d # t) = None" using assms(3,4) three by (simp add: line_separator_def)
    then have "jstring (c # b # d # t) = prepend [c] (jstring (b # d # t))" using jstring_high assms(1) by simp
    then show ?thesis using three jstring_cont [OF c(1)] jstring_cont [OF c(2)] by (simp add: pre)
  next
    case four
    then have c: "cont_byte b" "cont_byte d" "cont_byte e" "c \<noteq> CHR 0xE2" by (auto simp: utf8_four_def)
    have "jstring (c # b # d # e # t) = prepend [c] (jstring (b # d # e # t))"
      using jstring_high [of c "b # d # e # t"] line_separator_lead [OF c(4)] assms(1) by simp
    then show ?thesis using four jstring_cont [OF c(1)] jstring_cont [OF c(2)] jstring_cont [OF c(3)] by (simp add: pre)
  qed
qed

lemma jstring_json_chars: "jstring (json_chars s @ dquote # r) = Some (json_chars s @ [dquote], r)"
proof (induction s rule: json_chars.induct)
  case 1
  then show ?case by (simp add: jstring.simps(2))
next
  case (2 c cs)
  let ?k = "utf8_lead (c # cs)"
  let ?t = "json_chars (drop (?k - 1) cs) @ dquote # r"
  have rune: "jstring ?t = Some (json_chars (drop (?k - 1) cs) @ [dquote], r)" if "\<not> byte c < 128" "?k \<noteq> 0"
    using that 2(3-5) by blast
  consider (ascii) "byte c < 128" | (bad) "\<not> byte c < 128" "?k = 0" | (good) "\<not> byte c < 128" "?k \<noteq> 0" by blast
  then show ?case
  proof cases
    case ascii
    with 2(1) [OF refl ascii] show ?thesis by (simp add: jstring_escape_ascii)
  next
    case bad
    with 2(2) [OF refl bad] show ?thesis by (simp add: jstring_u)
  next
    case good
    with rune [OF good] show ?thesis
      using jstring_rune [of c cs ?t] by (auto simp: Let_def jstring_u)
  qed
qed

lemma value_again_json_string: "value_again d (json_string s)"
  using value_again_string [OF jstring_json_chars [of s "[]"]] by (simp add: json_string_def)

section \<open>Objects\<close>

text \<open>Writing an object, and taking one apart into names and the text of their values.\<close>

fun members_text :: "(string \<times> string) list \<Rightarrow> string" where
  "members_text [] = ''}''"
| "members_text [(n, v)] = json_string n @ CHR '':'' # v @ ''}''"
| "members_text ((n, v) # m # ms) = json_string n @ CHR '':'' # v @ CHR '','' # members_text (m # ms)"

definition object_text :: "(string \<times> string) list \<Rightarrow> string" where
  "object_text ms = CHR ''{'' # members_text ms"

fun read_members :: "nat \<Rightarrow> string \<Rightarrow> (string \<times> string) list option" where
  "read_members 0 s = None"
| "read_members (Suc k) s =
     (case skip_ws s of
        [] \<Rightarrow> None
      | c # r \<Rightarrow>
          if c \<noteq> dquote then None
          else (case unquote r of
             None \<Rightarrow> None
           | Some (name, r1) \<Rightarrow>
               (case skip_ws r1 of
                  [] \<Rightarrow> None
                | c1 # r2 \<Rightarrow>
                    if c1 \<noteq> CHR '':'' then None
                    else (case jvalue k (max_depth - 1) r2 of
                       None \<Rightarrow> None
                     | Some (_, r3) \<Rightarrow>
                         (let v = skip_ws r2; raw = take (length v - length r3) v
                          in case skip_ws r3 of
                               [] \<Rightarrow> None
                             | c3 # r4 \<Rightarrow>
                                 if c3 = CHR '','' then map_option (\<lambda>ms. (name, raw) # ms) (read_members k r4)
                                 else if c3 = CHR ''}'' then Some [(name, raw)]
                                 else None)))))"

text \<open>What \<open>json.Unmarshal\<close> finds in a text: nothing, if it is not JSON; an object's members; null; another value.\<close>

datatype json_doc = JObject "(string \<times> string) list" | JNull | JOther

definition json_read :: "string \<Rightarrow> json_doc option" where
  "json_read s =
     (if json_compact s = None then None
      else (case skip_ws s of
         [] \<Rightarrow> None
       | c # r \<Rightarrow>
           if c = CHR ''{'' then
             (case skip_ws r of
                [] \<Rightarrow> None
              | c' # _ \<Rightarrow> if c' = CHR ''}'' then Some (JObject []) else map_option JObject (read_members (length s) r))
           else if c = CHR ''n'' then Some JNull
           else Some JOther))"

lemma members_again_text:
  "ms \<noteq> [] \<Longrightarrow> list_all (\<lambda>m. value_again d (snd m)) ms \<Longrightarrow> members_again d (members_text ms)"
proof (induction ms rule: members_text.induct)
  case (2 n v)
  then show ?case
    using members_again_last [OF jstring_json_chars [of n "[]"]] by (simp add: json_string_def)
next
  case (3 n v m ms)
  then show ?case
    using members_again_more [OF jstring_json_chars [of n "[]"]] by (simp add: json_string_def)
qed simp

lemma read_member_step:
  assumes "value_again (max_depth - 1) v" "length (json_string n @ CHR '':'' # v @ [c]) \<le> k" "c = CHR '','' \<or> c = CHR ''}''"
  shows "read_members k (json_string n @ CHR '':'' # v @ c # t) =
    (if c = CHR '','' then map_option (\<lambda>ms. (to_valid_utf8 n, v) # ms) (read_members (k - 1) t)
     else Some [(to_valid_utf8 n, v)])"
proof -
  obtain k' where k: "k = Suc k'" using assms(2) by (cases k) auto
  have "delim (c # t)" using assms(3) by auto
  then have v: "jvalue k' (max_depth - 1) (v @ c # t) = Some (v, c # t)"
    using assms(1,2) k by (auto simp: value_again_def json_string_def)
  obtain x v' where x: "v = x # v'" "\<not> is_ws x"
    using assms(1) value_start_plain by (cases v) (auto simp: value_again_def)
  have u: "unquote (json_chars n @ dquote # CHR '':'' # v @ c # t) = Some (to_valid_utf8 n, CHR '':'' # v @ c # t)"
    by (rule unquote_json_chars)
  have ws: "skip_ws (v @ c # t) = v @ c # t" using x by simp
  show ?thesis
    using assms(3) v u ws by (auto simp: k json_string_def)
qed

lemma read_members_text:
  "ms \<noteq> [] \<Longrightarrow> list_all (\<lambda>m. value_again (max_depth - 1) (snd m)) ms \<Longrightarrow> length (members_text ms) \<le> k \<Longrightarrow>
   read_members k (members_text ms @ r) = Some (map (\<lambda>(n, v). (to_valid_utf8 n, v)) ms)"
proof (induction ms arbitrary: k rule: members_text.induct)
  case (2 n v)
  then show ?case using read_member_step [of v n "CHR ''}''" k r] by simp
next
  case (3 n v m ms)
  have "read_members (k - 1) (members_text (m # ms) @ r) = Some (map (\<lambda>(n, v). (to_valid_utf8 n, v)) (m # ms))"
    using 3 by (intro 3(1)) auto
  then show ?case using read_member_step [of v n "CHR '',''" k "members_text (m # ms) @ r"] 3 by simp
qed simp

theorem json_read_object:
  assumes "ms \<noteq> []" "list_all (\<lambda>m. value_again (max_depth - 1) (snd m)) ms"
  shows "json_read (object_text ms) = Some (JObject (map (\<lambda>(n, v). (to_valid_utf8 n, v)) ms))"
proof -
  let ?s = "object_text ms"
  have m: "members_again (max_depth - 1) (members_text ms)" using members_again_text assms by blast
  have "value_again max_depth ?s"
    using value_again_object [OF m] by (simp add: object_text_def max_depth_def)
  then have "jvalue (length ?s) max_depth (?s @ []) = Some (?s, [])"
    unfolding value_again_def using delim_punctuation(4) by blast
  then have valid: "json_compact ?s \<noteq> None" by (simp add: json_compact_def skip_ws_def)
  obtain t where t: "members_text ms = dquote # t" using m by (cases "members_text ms") (auto simp: members_again_def)
  have "length (members_text ms) \<le> length ?s" by (simp add: object_text_def)
  from read_members_text [OF assms this, of "[]"]
  have "read_members (length ?s) (members_text ms) = Some (map (\<lambda>(n, v). (to_valid_utf8 n, v)) ms)" by simp
  then show ?thesis using valid t unfolding json_read_def by (simp add: object_text_def del: read_members.simps)
qed

text \<open>What nests less deeply than allowed is accepted with a deeper limit too, with the same compact text.\<close>

lemma depth_mono:
  "jvalue k d s = Some x \<Longrightarrow> jvalue k (Suc d) s = Some x"
  "jmembers k d s = Some x \<Longrightarrow> jmembers k (Suc d) s = Some x"
  "jelements k d s = Some x \<Longrightarrow> jelements k (Suc d) s = Some x"
proof (induction k d s and k d s and k d s arbitrary: x and x and x rule: jvalue_jmembers_jelements.induct)
  case (2 k d s)
  obtain c cs where s: "skip_ws s = c # cs" using 2(3) by (cases "skip_ws s") auto
  have m: "jmembers k d cs = Some y" if "c = CHR ''{''" "c \<noteq> dquote" "d \<noteq> 0" "skip_ws cs = c' # r'" "c' \<noteq> CHR ''}''"
    "jmembers k (d - 1) cs = Some y" for c' r' y
    using 2(1) [OF s] that by (cases d) auto
  have e: "jelements k d cs = Some y" if "c = CHR ''[''" "c \<noteq> dquote" "d \<noteq> 0" "skip_ws cs = c' # r'" "c' \<noteq> CHR '']''"
    "jelements k (d - 1) cs = Some y" for c' r' y
    using 2(2) [OF s] that by (cases d) auto
  show ?case
    using 2(3) s m e by (auto simp: prepend_def split: if_splits list.splits)
next
  case (4 k d s)
  then show ?case by (auto simp: prepend_def split: if_splits list.splits option.splits)
next
  case (6 k d s)
  then show ?case by (auto simp: prepend_def split: if_splits list.splits option.splits)
qed simp_all

text \<open>
  A raw text that is accepted one level below the top: it compacts, and compacted it is a value that
  reads back as itself there.
\<close>

definition raw_json :: "string \<Rightarrow> bool" where
  "raw_json s \<longleftrightarrow> (case jvalue (length s) (max_depth - 1) s of None \<Rightarrow> False | Some (t, r) \<Rightarrow> skip_ws r = [])"

lemma raw_json_compact: "raw_json s \<Longrightarrow> \<exists>t. json_compact s = Some t \<and> value_again (max_depth - 1) t"
proof -
  assume "raw_json s"
  then obtain t r where t: "jvalue (length s) (max_depth - 1) s = Some (t, r)" "skip_ws r = []"
    by (auto simp: raw_json_def split: option.splits)
  have "jvalue (length s) max_depth s = Some (t, r)"
    using depth_mono(1) [OF t(1)] by (simp add: max_depth_def)
  then show ?thesis using t parsed_again(1) by (auto simp: json_compact_def)
qed

section \<open>Decoding into a struct\<close>

text \<open>
  The folding with which names are compared when none is spelt exactly alike: ASCII letters, and the two
  other characters that fold to ASCII ones, the Kelvin sign and the long s.
\<close>

fun fold_name :: "string \<Rightarrow> string" where
  "fold_name [] = []"
| "fold_name (c # cs) =
     (if take 3 (c # cs) = [CHR 0xE2, CHR 0x84, CHR 0xAA] then CHR ''K'' # fold_name (drop 2 cs)
      else if take 2 (c # cs) = [CHR 0xC5, CHR 0xBF] then CHR ''S'' # fold_name (drop 1 cs)
      else (if 97 \<le> byte c \<and> byte c \<le> 122 then char_of (byte c - 32) else c) # fold_name cs)"

text \<open>The field a member is for: the one of that name, or else the first that is equal up to case.\<close>

definition find_field :: "string list \<Rightarrow> string \<Rightarrow> string option" where
  "find_field names name =
     (if name \<in> set names then Some name else find (\<lambda>f. fold_name f = fold_name name) names)"

text \<open>
  The text of a string value as that string, and a string field set to a value: \<open>null\<close> leaves it alone, and a
  value of another type is skipped and remembered, since decoding goes on and fails at the end.
\<close>

definition string_of_raw :: "string \<Rightarrow> string" where
  "string_of_raw raw = (case unquote (tl raw) of Some (s, _) \<Rightarrow> s | None \<Rightarrow> [])"

definition set_string :: "string \<Rightarrow> (string \<Rightarrow> 'r \<Rightarrow> 'r) \<Rightarrow> 'r \<times> bool \<Rightarrow> 'r \<times> bool" where
  "set_string raw upd acc =
     (let (msg, bad) = acc
      in if hd raw = dquote then (upd (string_of_raw raw) msg, bad)
         else if hd raw = CHR ''n'' then (msg, bad)
         else (msg, True))"

definition set_string_ptr :: "string \<Rightarrow> (string option \<Rightarrow> 'r \<Rightarrow> 'r) \<Rightarrow> 'r \<times> bool \<Rightarrow> 'r \<times> bool" where
  "set_string_ptr raw upd acc =
     (let (msg, bad) = acc
      in if hd raw = dquote then (upd (Some (string_of_raw raw)) msg, bad)
         else if hd raw = CHR ''n'' then (upd None msg, bad)
         else (msg, True))"

text \<open>
  A struct is decoded member by member, in the order of the text; \<open>json.Unmarshal\<close> reads a whole text, a
  \<open>json.Decoder\<close> the first value of one and leaves the rest.
\<close>

definition decode_doc :: "(string \<times> string \<Rightarrow> 'r \<times> bool \<Rightarrow> 'r \<times> bool) \<Rightarrow> json_doc \<Rightarrow> 'r \<times> bool \<Rightarrow> 'r \<times> bool" where
  "decode_doc decode doc acc =
     (case doc of JObject ms \<Rightarrow> fold decode ms acc | JNull \<Rightarrow> acc | JOther \<Rightarrow> (fst acc, True))"

definition decode_all :: "(string \<times> string \<Rightarrow> 'r \<times> bool \<Rightarrow> 'r \<times> bool) \<Rightarrow> 'r \<Rightarrow> json_doc option \<Rightarrow> 'r option" where
  "decode_all decode zero doc =
     (case doc of
        None \<Rightarrow> None
      | Some d \<Rightarrow> (let (r, bad) = decode_doc decode d (zero, False) in if bad then None else Some r))"

definition unmarshal_object :: "(string \<times> string \<Rightarrow> 'r \<times> bool \<Rightarrow> 'r \<times> bool) \<Rightarrow> 'r \<Rightarrow> string \<Rightarrow> 'r option" where
  "unmarshal_object decode zero body = decode_all decode zero (json_read body)"

definition json_first :: "string \<Rightarrow> json_doc option" where
  "json_first s =
     (case jvalue (length s) max_depth s of
        None \<Rightarrow> None
      | Some (_, r) \<Rightarrow> json_read (take (length s - length r) s))"

definition decode_first :: "(string \<times> string \<Rightarrow> 'r \<times> bool \<Rightarrow> 'r \<times> bool) \<Rightarrow> 'r \<Rightarrow> string \<Rightarrow> 'r option" where
  "decode_first decode zero body = decode_all decode zero (json_first body)"

text \<open>The texts of the elements of an array, for a text that is one.\<close>

fun read_elements :: "nat \<Rightarrow> string \<Rightarrow> string list option" where
  "read_elements 0 s = None"
| "read_elements (Suc k) s =
     (case jvalue k (max_depth - 1) s of
        None \<Rightarrow> None
      | Some (_, r) \<Rightarrow>
          (let v = skip_ws s; raw = take (length v - length r) v
           in case skip_ws r of
                [] \<Rightarrow> None
              | c # r' \<Rightarrow>
                  if c = CHR '','' then map_option (\<lambda>raws. raw # raws) (read_elements k r')
                  else if c = CHR '']'' then Some [raw]
                  else None))"

definition array_elements :: "string \<Rightarrow> string list option" where
  "array_elements raw =
     (case skip_ws (tl raw) of
        [] \<Rightarrow> None
      | c # _ \<Rightarrow> if c = CHR '']'' then Some [] else read_elements (length raw) (tl raw))"

lemma string_of_json_string: "string_of_raw (json_string s) = to_valid_utf8 s" "hd (json_string s) = dquote"
  using unquote_json_chars [of s "[]"] by (simp_all add: string_of_raw_def json_string_def)

lemma set_json_string: "set_string (json_string s) upd (r, bad) = (upd (to_valid_utf8 s) r, bad)"
  by (simp add: set_string_def string_of_json_string)

lemma set_json_string_ptr: "set_string_ptr (json_string s) upd (r, bad) = (upd (Some (to_valid_utf8 s)) r, bad)"
  by (simp add: set_string_ptr_def string_of_json_string)

lemma ascii_valid: "list_all (\<lambda>c. byte c < 128) s \<Longrightarrow> to_valid_utf8 s = s"
  by (induction s) (simp_all add: utf8_lead.simps(2))

lemma unmarshal_written:
  assumes "ms \<noteq> []" "list_all (\<lambda>m. value_again (max_depth - 1) (snd m)) ms"
    and "fold decode (map (\<lambda>(n, v). (to_valid_utf8 n, v)) ms) (zero, False) = (r, False)"
  shows "unmarshal_object decode zero (object_text ms) = Some r"
  using json_read_object [OF assms(1,2)] assms(3) by (simp add: unmarshal_object_def decode_all_def decode_doc_def)

lemma value_again_object_text:
  assumes "ms \<noteq> []" "list_all (\<lambda>m. value_again d (snd m)) ms"
  shows "value_again (Suc d) (object_text ms)"
  using value_again_object [OF members_again_text [OF assms]] by (simp add: object_text_def)

lemma decode_first_written:
  assumes "ms \<noteq> []" "list_all (\<lambda>m. value_again (max_depth - 1) (snd m)) ms"
    and "fold decode (map (\<lambda>(n, v). (to_valid_utf8 n, v)) ms) (zero, False) = (r, False)"
  shows "decode_first decode zero (object_text ms @ rest) = Some r"
proof -
  have "jvalue (length (object_text ms @ rest)) max_depth (object_text ms @ rest) = Some (object_text ms, rest)"
    using object_any_rest [OF members_again_text [OF assms(1,2)], of "length (object_text ms @ rest)" rest]
    by (simp add: object_text_def max_depth_def del: jvalue.simps)
  then have "json_first (object_text ms @ rest) = json_read (object_text ms)" by (simp add: json_first_def)
  with json_read_object [OF assms(1,2)] assms(3) show ?thesis
    by (simp add: decode_first_def decode_all_def decode_doc_def)
qed

end
