(* ===== verification/Rfc3339.thy ===== *)
theory Rfc3339
  imports Json "HOL-Library.Monad_Syntax"
begin

text \<open>
  Times as text, as far as the program uses Go's package \<open>time\<close>: the proleptic Gregorian calendar,
  \<open>Format\<close> with the layouts \<open>RFC3339\<close> and \<open>RFC3339Nano\<close>, \<open>Parse\<close> with the layout \<open>RFC3339\<close> (an hour of one
  digit, a decimal comma and zones up to 24 hours are accepted, as in Go), and the JSON form of a
  time. A location is the function that gives its offset from UTC, in seconds, at an instant. The
  lemmas: every day number has the date whose day number it is, and a time that is written is read
  back.
\<close>

section \<open>Calendar\<close>

definition leap_year :: "int \<Rightarrow> bool" where
  "leap_year y \<longleftrightarrow> y mod 4 = 0 \<and> (y mod 100 \<noteq> 0 \<or> y mod 400 = 0)"

definition month_lengths :: "int \<Rightarrow> int list" where
  "month_lengths y = [31, if leap_year y then 29 else 28, 31, 30, 31, 30, 31, 31, 30, 31, 30, 31]"

text \<open>Days from 1 January of the year 1 to 1 January of \<open>y\<close>, and to a date.\<close>

definition days_before :: "int \<Rightarrow> int" where
  "days_before y = 365 * (y - 1) + (y - 1) div 4 - (y - 1) div 100 + (y - 1) div 400"

definition day_number :: "int \<Rightarrow> int \<Rightarrow> int \<Rightarrow> int" where
  "day_number y m d = days_before y + sum_list (take (nat (m - 1)) (month_lengths y)) + (d - 1)"

definition days_in_month :: "int \<Rightarrow> int \<Rightarrow> int" where
  "days_in_month m y = month_lengths y ! nat (m - 1)"

definition year_of_day :: "int \<Rightarrow> int" where
  "year_of_day n =
     (let c = 400 * n div 146097
      in if days_before (c + 2) \<le> n then c + 2 else if days_before (c + 1) \<le> n then c + 1 else c)"

fun split_month :: "int \<Rightarrow> int list \<Rightarrow> int \<Rightarrow> int \<times> int" where
  "split_month m [] d = (m, d + 1)"
| "split_month m (l # ls) d = (if d < l then (m, d + 1) else split_month (m + 1) ls (d - l))"

definition civil :: "int \<Rightarrow> int \<times> int \<times> int" where
  "civil n = (let y = year_of_day n; (m, d) = split_month 1 (month_lengths y) (n - days_before y) in (y, m, d))"

lemma div_pred:
  assumes "0 < (k::int)"
  shows "y div k = (y - 1) div k + (if y mod k = 0 then 1 else 0)"
proof -
  define q r where "q = y div k" and "r = y mod k"
  have y: "y = k * q + r" "0 \<le> r" "r < k" using assms by (simp_all add: q_def r_def)
  show ?thesis
  proof (cases "r = 0")
    case True
    have "(y - 1) div k = q - 1" by (rule int_div_pos_eq [of _ _ _ "k - 1"]) (use y True assms in \<open>simp_all add: algebra_simps\<close>)
    then show ?thesis using True by (simp add: q_def r_def)
  next
    case False
    have "(y - 1) div k = q" by (rule int_div_pos_eq [of _ _ _ "r - 1"]) (use y False in \<open>simp_all add: algebra_simps\<close>)
    then show ?thesis using False by (simp add: q_def r_def)
  qed
qed

lemma leap_count:
  fixes a b c :: int
  assumes "C \<Longrightarrow> B" "B \<Longrightarrow> A"
  shows "(a + (if A then 1 else 0)) - (b + (if B then 1 else 0)) + (c + (if C then 1 else 0)) =
    a - b + c + (if A \<and> (\<not> B \<or> C) then 1 else 0)"
  using assms by auto

lemma days_before_next: "days_before (y + 1) = days_before y + (if leap_year y then 366 else 365)"
proof -
  have d: "(400::int) = 100 * 4" "(100::int) = 4 * 25" by simp_all
  have m: "y mod 400 = 0 \<Longrightarrow> y mod 100 = 0" "y mod 100 = 0 \<Longrightarrow> y mod 4 = 0"
    unfolding mod_eq_0_iff_dvd by (subst (asm) d, erule dvd_mult_left)+
  have k: "0 < (4::int)" "0 < (100::int)" "0 < (400::int)" by simp_all
  have "y div 4 - y div 100 + y div 400 =
      (y - 1) div 4 - (y - 1) div 100 + (y - 1) div 400 + (if leap_year y then 1 else 0)"
    unfolding div_pred [OF k(1), of y] div_pred [OF k(2), of y] div_pred [OF k(3), of y] leap_year_def
    by (rule leap_count) (fact m)+
  then show ?thesis unfolding days_before_def by (simp only: add_diff_cancel_right') (simp split: if_splits)
qed

lemma div_bounds: "0 < (k::int) \<Longrightarrow> k * (p div k) \<le> p" "0 < k \<Longrightarrow> p \<le> k * (p div k) + (k - 1)"
  using pos_mod_bound [of k p] pos_mod_sign [of k p] by (simp_all add: minus_mod_eq_mult_div [symmetric])

lemma days_before_bounds:
  "146097 * y - 146797 \<le> 400 * days_before y" "400 * days_before y \<le> 146097 * y - 145697"
proof -
  define p a b c where "p = y - 1" and "a = p div 4" and "b = p div 100" and "c = p div 400"
  have bds: "4 * a \<le> p" "p \<le> 4 * a + 3" "100 * b \<le> p" "p \<le> 100 * b + 99" "400 * c \<le> p" "p \<le> 400 * c + 399"
    using div_bounds [of 4 p] div_bounds [of 100 p] div_bounds [of 400 p] unfolding a_def b_def c_def by simp_all
  have "400 * days_before y = 146000 * p + 400 * a - 400 * b + 400 * c" "146097 * y = 146097 * p + 146097"
    by (simp_all add: days_before_def p_def a_def b_def c_def)
  with bds show "146097 * y - 146797 \<le> 400 * days_before y" "400 * days_before y \<le> 146097 * y - 145697"
    by linarith+
qed

lemma year_of_day: "days_before (year_of_day n) \<le> n \<and> n < days_before (year_of_day n + 1)"
proof -
  define c where "c = 400 * n div 146097"
  have c: "146097 * c \<le> 400 * n" "400 * n \<le> 146097 * c + 146096"
    using div_bounds [of 146097 "400 * n"] by (simp_all add: c_def)
  have "days_before c \<le> n" using days_before_bounds(2) [of c] c(1) by linarith
  moreover have "146097 * (c + 3) = 146097 * c + 438291" by simp
  then have "n < days_before (c + 3)" using days_before_bounds(1) [of "c + 3"] c(2) by linarith
  ultimately show ?thesis by (simp add: year_of_day_def Let_def add.assoc c_def [symmetric])
qed

lemma month_lengths_sum: "sum_list (month_lengths y) = (if leap_year y then 366 else 365)"
  by (simp add: month_lengths_def)

lemma split_month:
  "0 \<le> d \<Longrightarrow> d < sum_list ls \<Longrightarrow> split_month m0 ls d = (m, e) \<Longrightarrow>
   \<exists>k. m = m0 + int k \<and> k < length ls \<and> d = sum_list (take k ls) + (e - 1) \<and> 1 \<le> e \<and> e \<le> ls ! k"
proof (induction ls arbitrary: m0 d)
  case (Cons l ls)
  show ?case
  proof (cases "d < l")
    case True
    with Cons.prems show ?thesis by (intro exI [of _ 0]) auto
  next
    case False
    with Cons.prems Cons.IH [of "d - l" "m0 + 1"] obtain k where
      "m = m0 + 1 + int k" "k < length ls" "d - l = sum_list (take k ls) + (e - 1)" "1 \<le> e" "e \<le> ls ! k"
      by auto
    then show ?thesis by (intro exI [of _ "Suc k"]) auto
  qed
qed simp

lemma month_lengths_length [simp]: "length (month_lengths y) = 12"
  by (simp add: month_lengths_def)

text \<open>The date of a day is a date of the calendar, and its day number is that day.\<close>

lemma civil_day_number:
  assumes "civil n = (y, m, d)"
  shows "day_number y m d = n \<and> 1 \<le> m \<and> m \<le> 12 \<and> 1 \<le> d \<and> d \<le> days_in_month m y"
proof -
  have y: "y = year_of_day n" and s: "split_month 1 (month_lengths y) (n - days_before y) = (m, d)"
    using assms by (auto simp: civil_def Let_def split: prod.splits)
  have "0 \<le> n - days_before y" "n - days_before y < sum_list (month_lengths y)"
    using year_of_day [of n] days_before_next [of y] unfolding month_lengths_sum y by auto
  from split_month [OF this s] show ?thesis
    by (auto simp: day_number_def days_in_month_def)
qed

lemma days_in_month_le: "1 \<le> m \<Longrightarrow> m \<le> 12 \<Longrightarrow> days_in_month m y \<le> 31"
proof -
  assume "1 \<le> m" "m \<le> 12"
  then have "month_lengths y ! nat (m - 1) \<in> set (month_lengths y)" by (intro nth_mem) simp
  moreover have "\<forall>l \<in> set (month_lengths y). l \<le> 31" by (simp add: month_lengths_def)
  ultimately show ?thesis by (simp add: days_in_month_def)
qed

section \<open>Writing\<close>

text \<open>Decimal digits, padded with zeros to a width (\<open>appendInt\<close>).\<close>

fun zero_padded :: "nat \<Rightarrow> int \<Rightarrow> string" where
  "zero_padded 0 x = (if x = 0 then [] else itoa x)"
| "zero_padded (Suc w) x = zero_padded w (x div 10) @ [digit_char (nat (x mod 10))]"

definition append_int :: "int \<Rightarrow> nat \<Rightarrow> string" where
  "append_int x width = (if x < 0 then CHR ''-'' # zero_padded width (- x) else zero_padded width x)"

text \<open>The fraction of a second: nine digits less the zeros at the end, and nothing at all for none.\<close>

definition trim_zeros :: "string \<Rightarrow> string" where
  "trim_zeros s = rev (dropWhile (\<lambda>c. c = CHR ''0'') (rev s))"

definition append_nano :: "int \<Rightarrow> string" where
  "append_nano nsec = (if nsec = 0 then [] else CHR ''.'' # trim_zeros (append_int nsec 9))"

text \<open>The offset is written in whole minutes, rounded towards zero.\<close>

definition append_zone :: "int \<Rightarrow> string" where
  "append_zone offset =
     (if offset = 0 then ''Z''
      else (let m = \<bar>offset\<bar> div 60
            in (if offset < 0 \<and> m \<noteq> 0 then CHR ''-'' else CHR ''+'') #
               append_int (m div 60) 2 @ CHR '':'' # append_int (m mod 60) 2))"

definition unix_day :: int where
  "unix_day = 719162"

text \<open>\<open>t.Format(time.RFC3339)\<close>, or with \<open>time.RFC3339Nano\<close>.\<close>

definition format_rfc3339 :: "bool \<Rightarrow> (time \<Rightarrow> int) \<Rightarrow> time \<Rightarrow> string" where
  "format_rfc3339 nanos zone t =
     (let offset = zone t;
          secs = t div second + offset;
          (y, m, d) = civil (secs div 86400 + unix_day);
          sod = secs mod 86400
      in append_int y 4 @ CHR ''-'' # append_int m 2 @ CHR ''-'' # append_int d 2 @ CHR ''T'' #
         append_int (sod div 3600) 2 @ CHR '':'' # append_int (sod mod 3600 div 60) 2 @ CHR '':'' #
         append_int (sod mod 60) 2 @ (if nanos then append_nano (t mod second) else []) @ append_zone offset)"

section \<open>Reading\<close>

definition expect :: "char \<Rightarrow> string \<Rightarrow> string option" where
  "expect c s = (case s of [] \<Rightarrow> None | x # r \<Rightarrow> if x = c then Some r else None)"

definition guard :: "bool \<Rightarrow> unit option" where
  "guard b = (if b then Some () else None)"

text \<open>A number of two digits, or of one when \<open>fixed\<close> is false (\<open>getnum\<close>).\<close>

definition getnum :: "bool \<Rightarrow> string \<Rightarrow> (int \<times> string) option" where
  "getnum fixed s =
     (case s of
        [] \<Rightarrow> None
      | c # r \<Rightarrow>
          (case digit_val c of
             None \<Rightarrow> None
           | Some d \<Rightarrow>
               (case r of
                  [] \<Rightarrow> if fixed then None else Some (d, r)
                | c2 # r2 \<Rightarrow>
                    (case digit_val c2 of
                       None \<Rightarrow> if fixed then None else Some (d, r)
                     | Some e \<Rightarrow> Some (10 * d + e, r2)))))"

definition get_year :: "string \<Rightarrow> (int \<times> string) option" where
  "get_year s = (if length s < 4 then None else map_option (\<lambda>y. (y, drop 4 s)) (parse_digits 0 (take 4 s)))"

text \<open>
  A fraction is accepted after the seconds although the layout has none: a point or a comma and
  digits, of which the first nine count.
\<close>

definition is_dec :: "char \<Rightarrow> bool" where
  "is_dec c \<longleftrightarrow> digit_val c \<noteq> None"

definition get_fraction :: "string \<Rightarrow> int \<times> string" where
  "get_fraction s =
     (case s of
        c # r \<Rightarrow>
          if (c = CHR ''.'' \<or> c = CHR '','') \<and> takeWhile is_dec r \<noteq> [] then
            (let ds = take 9 (takeWhile is_dec r)
             in ((case parse_digits 0 ds of None \<Rightarrow> 0 | Some n \<Rightarrow> n) * 10 ^ (9 - length ds), dropWhile is_dec r))
          else (0, s)
      | [] \<Rightarrow> (0, s))"

definition get_zone :: "string \<Rightarrow> (int \<times> string) option" where
  "get_zone s =
     (if s \<noteq> [] \<and> hd s = CHR ''Z'' then Some (0, tl s)
      else if length s < 6 \<or> s ! 3 \<noteq> CHR '':'' then None
      else do {
        (hr, _) \<leftarrow> getnum True (take 2 (drop 1 s));
        (mm, _) \<leftarrow> getnum True (take 2 (drop 4 s));
        guard (hr \<le> 24 \<and> mm \<le> 60);
        guard (s ! 0 = CHR ''+'' \<or> s ! 0 = CHR ''-'');
        Some ((if s ! 0 = CHR ''-'' then - 1 else 1) * (hr * 60 + mm) * 60, drop 6 s)
      })"

text \<open>\<open>time.Parse(time.RFC3339, s)\<close>; \<open>None\<close> for any error.\<close>

definition parse_rfc3339 :: "string \<Rightarrow> time option" where
  "parse_rfc3339 s = do {
     (y, s) \<leftarrow> get_year s;
     s \<leftarrow> expect CHR ''-'' s;
     (m, s) \<leftarrow> getnum True s;
     guard (1 \<le> m \<and> m \<le> 12);
     s \<leftarrow> expect CHR ''-'' s;
     (d, s) \<leftarrow> getnum True s;
     s \<leftarrow> expect CHR ''T'' s;
     (hour, s) \<leftarrow> getnum False s;
     guard (hour < 24);
     s \<leftarrow> expect CHR '':'' s;
     (mins, s) \<leftarrow> getnum True s;
     guard (mins < 60);
     s \<leftarrow> expect CHR '':'' s;
     (sec, s) \<leftarrow> getnum True s;
     guard (sec < 60);
     let (nsec, s) = get_fraction s;
     (offset, s) \<leftarrow> get_zone s;
     guard (s = [] \<and> 1 \<le> d \<and> d \<le> days_in_month m y);
     Some ((((day_number y m d - unix_day) * 24 + hour) * 60 + mins) * 60 * second + sec * second + nsec - offset * second)
   }"


section \<open>Round trip\<close>

lemma digit_val_mod [simp]: "digit_val (digit_char (nat (x mod 10))) = Some (x mod 10)"
  by (subst digit_val_digit_char) simp_all

lemma zero_padded_parse:
  "0 \<le> x \<Longrightarrow> x < 10 ^ w \<Longrightarrow> parse_digits a (zero_padded w x) = Some (a * 10 ^ w + x) \<and> length (zero_padded w x) = w \<and>
   list_all is_dec (zero_padded w x)"
proof (induction w arbitrary: x)
  case (Suc w)
  have "0 \<le> x div 10" "x div 10 < 10 ^ w" using Suc.prems by simp_all
  note IH = Suc.IH [OF this]
  have "10 * (x div 10) + x mod 10 = x" by simp
  with IH show ?case by (simp add: parse_digits_append is_dec_def algebra_simps)
qed simp

lemma append_two:
  assumes "0 \<le> x" "x < 100"
  shows "append_int x 2 = [digit_char (nat (x div 10 mod 10)), digit_char (nat (x mod 10))]"
proof -
  have "x div 10 div 10 = 0" using assms by (simp add: pos_imp_zdiv_nonneg_iff)
  then show ?thesis using assms by (simp add: append_int_def numeral_2_eq_2)
qed

lemma getnum_two: "0 \<le> x \<Longrightarrow> x < 100 \<Longrightarrow> getnum fixed (append_int x 2 @ r) = Some (x, r)"
proof -
  assume x: "0 \<le> x" "x < 100"
  then have "x div 10 mod 10 = x div 10" by (intro mod_pos_pos_trivial) (simp_all add: pos_imp_zdiv_nonneg_iff)
  then have "10 * (x div 10 mod 10) + x mod 10 = x" by (simp only: mult_div_mod_eq)
  then show ?thesis
    unfolding append_two [OF x] getnum_def by (simp only: append_Cons append_Nil list.case option.case digit_val_mod)
qed

lemma get_year_four: "0 \<le> y \<Longrightarrow> y < 10000 \<Longrightarrow> get_year (append_int y 4 @ r) = Some (y, r)"
  using zero_padded_parse [of y 4 0] by (simp add: get_year_def append_int_def)

lemma trim_zeros_split: "\<exists>k. s = trim_zeros s @ replicate k CHR ''0''"
proof (induction s rule: rev_induct)
  case (snoc x s)
  then obtain k where k: "s = trim_zeros s @ replicate k CHR ''0''" by blast
  show ?case
  proof (cases "x = CHR ''0''")
    case True
    then have "trim_zeros (s @ [x]) = trim_zeros s" by (simp add: trim_zeros_def)
    moreover have "s @ [x] = trim_zeros s @ replicate (Suc k) CHR ''0''"
      using k True by (metis append_assoc replicate_append_same replicate_Suc)
    ultimately have "s @ [x] = trim_zeros (s @ [x]) @ replicate (Suc k) CHR ''0''" by simp
    then show ?thesis by blast
  next
    case False
    then show ?thesis by (intro exI [of _ 0]) (simp add: trim_zeros_def)
  qed
qed (simp add: trim_zeros_def)

lemma parse_zeros: "parse_digits a (replicate k CHR ''0'') = Some (a * 10 ^ k)"
  by (induction k arbitrary: a) (simp_all add: digit_val_def)

lemma get_fraction_nano:
  assumes "0 \<le> n" "n < 10 ^ 9" "r = c # r'" "\<not> is_dec c" "c \<noteq> CHR ''.''" "c \<noteq> CHR '',''"
  shows "get_fraction (append_nano n @ r) = (n, r)"
proof (cases "n = 0")
  case True
  then show ?thesis using assms by (simp add: append_nano_def get_fraction_def)
next
  case False
  define ds where "ds = trim_zeros (zero_padded 9 n)"
  obtain k where k: "zero_padded 9 n = ds @ replicate k CHR ''0''" using trim_zeros_split ds_def by blast
  have z: "parse_digits 0 (ds @ replicate k CHR ''0'') = Some n" "length ds + k = 9" "list_all is_dec ds"
    using zero_padded_parse [OF assms(1,2), of 0] by (simp_all add: k)
  obtain m where m: "parse_digits 0 ds = Some m" "m * 10 ^ k = n"
    using z(1) by (auto simp: parse_digits_append parse_zeros split: option.splits)
  have "ds \<noteq> []" using m False by auto
  moreover have "takeWhile is_dec (ds @ r) = ds" "dropWhile is_dec (ds @ r) = r"
    using z(3) assms(3,4) by (simp_all add: takeWhile_append list_all_iff dropWhile_append)
  moreover have "append_nano n = CHR ''.'' # ds" using False assms(1) by (simp add: append_nano_def append_int_def ds_def)
  moreover have "9 - length ds = k" "take 9 ds = ds" using z(2) by simp_all
  ultimately show ?thesis using m by (simp add: get_fraction_def)
qed

lemma zone_parts:
  assumes "off mod 60 = (0::int)" "\<bar>off\<bar> < 86400" "off \<noteq> 0"
  shows "\<bar>off\<bar> div 60 \<noteq> 0" "0 \<le> \<bar>off\<bar> div 60 div 60" "\<bar>off\<bar> div 60 div 60 < 24" "\<bar>off\<bar> div 60 mod 60 < 60"
    "(\<bar>off\<bar> div 60 div 60 * 60 + \<bar>off\<bar> div 60 mod 60) * 60 = \<bar>off\<bar>"
proof -
  obtain k where k: "off = 60 * k" using assms(1) by auto
  then have "\<bar>off\<bar> div 60 = \<bar>k\<bar>" by (simp add: abs_mult)
  then show "\<bar>off\<bar> div 60 \<noteq> 0" "0 \<le> \<bar>off\<bar> div 60 div 60" "\<bar>off\<bar> div 60 div 60 < 24" "\<bar>off\<bar> div 60 mod 60 < 60"
    "(\<bar>off\<bar> div 60 div 60 * 60 + \<bar>off\<bar> div 60 mod 60) * 60 = \<bar>off\<bar>"
    using k assms(2,3) by (simp_all add: abs_mult)
qed

lemma get_zone_append:
  assumes "off mod 60 = 0" "\<bar>off\<bar> < 86400"
  shows "get_zone (append_zone off) = Some (off, [])"
proof (cases "off = 0")
  case True
  then show ?thesis by (simp add: append_zone_def get_zone_def)
next
  case False
  note z = zone_parts [OF assms False]
  define h m sg where "h = \<bar>off\<bar> div 60 div 60" and "m = \<bar>off\<bar> div 60 mod 60"
    and "sg = (if off < 0 then CHR ''-'' else CHR ''+'')"
  have hm: "0 \<le> h" "h < 24" "0 \<le> m" "m < 60" "(h * 60 + m) * 60 = \<bar>off\<bar>" using z(2-5) by (simp_all add: h_def m_def)
  have n: "getnum True (append_int h 2 @ []) = Some (h, [])" "getnum True (append_int m 2 @ []) = Some (m, [])"
    using hm by (intro getnum_two; simp)+
  obtain a b c d where two: "append_int h 2 = [a, b]" "append_int m 2 = [c, d]"
    using append_two [of h] append_two [of m] hm by simp
  have "append_zone off = sg # append_int h 2 @ CHR '':'' # append_int m 2"
    using False z(1) by (simp add: append_zone_def Let_def h_def m_def sg_def)
  then have t: "append_zone off = [sg, a, b, CHR '':'', c, d]" by (simp add: two)
  have "(if sg = CHR ''-'' then - 1 else 1) * (h * 60 + m) * 60 = off" using hm(5) by (auto simp: sg_def)
  moreover have "sg \<noteq> CHR ''Z''" "sg = CHR ''+'' \<or> sg = CHR ''-''" by (auto simp: sg_def)
  ultimately show ?thesis
    using n hm(2,4) unfolding t by (simp add: get_zone_def guard_def two)
qed

text \<open>The times that can be written: years of four digits, and offsets of whole minutes below a day.\<close>

definition writable :: "(time \<Rightarrow> int) \<Rightarrow> time \<Rightarrow> bool" where
  "writable zone t \<longleftrightarrow> (let (y, _) = civil ((t div second + zone t) div 86400 + unix_day) in 0 \<le> y \<and> y \<le> 9999) \<and>
     \<bar>zone t\<bar> < 86400"

lemma append_zone_first:
  "\<exists>c r. append_zone off = c # r \<and> \<not> is_dec c \<and> c \<noteq> CHR ''.'' \<and> c \<noteq> CHR '',''"
  by (auto simp: append_zone_def Let_def is_dec_def digit_val_def)

lemma clock_parts:
  fixes secs :: int
  defines "sod \<equiv> secs mod 86400"
  shows "0 \<le> sod div 3600" "sod div 3600 < 24" "0 \<le> sod mod 3600 div 60" "sod mod 3600 div 60 < 60"
    "0 \<le> sod mod 60" "sod mod 60 < 60"
    "((secs div 86400 * 24 + sod div 3600) * 60 + sod mod 3600 div 60) * 60 + sod mod 60 = secs"
proof -
  have sod: "0 \<le> sod" "sod < 86400" by (simp_all add: sod_def)
  then show "0 \<le> sod div 3600" "sod div 3600 < 24" "0 \<le> sod mod 3600 div 60" "sod mod 3600 div 60 < 60"
    "0 \<le> sod mod 60" "sod mod 60 < 60"
    by (simp_all add: pos_imp_zdiv_nonneg_iff)
  have "sod mod 3600 mod 60 = sod mod 60" by (rule mod_mod_cancel) simp
  then have "sod = sod div 3600 * 3600 + (sod mod 3600 div 60 * 60 + sod mod 60)"
    using div_mult_mod_eq [of sod 3600] div_mult_mod_eq [of "sod mod 3600" 60] by (simp only:)
  then have "(sod div 3600 * 60 + sod mod 3600 div 60) * 60 + sod mod 60 = sod" by simp
  moreover have "secs div 86400 * 86400 + sod = secs" by (simp add: sod_def)
  ultimately show "((secs div 86400 * 24 + sod div 3600) * 60 + sod mod 3600 div 60) * 60 + sod mod 60 = secs"
    by (simp add: algebra_simps)
qed

lemma expect_Cons [simp]: "expect c (x # s) = (if x = c then Some s else None)"
  by (simp add: expect_def)

lemma guard_True [simp]: "b \<Longrightarrow> guard b = Some ()"
  by (simp add: guard_def)

theorem parse_format:
  assumes "writable zone t" "zone t mod 60 = 0"
  shows "parse_rfc3339 (format_rfc3339 True zone t) = Some t"
proof -
  define secs y m d where "secs = t div second + zone t" and "y = fst (civil (secs div 86400 + unix_day))"
    and "m = fst (snd (civil (secs div 86400 + unix_day)))" and "d = snd (snd (civil (secs div 86400 + unix_day)))"
  have c: "civil (secs div 86400 + unix_day) = (y, m, d)" by (simp add: y_def m_def d_def)
  note day = civil_day_number [OF c]
  have y: "0 \<le> y" "y < 10000" "\<bar>zone t\<bar> < 86400"
    using assms(1) c by (auto simp: writable_def secs_def [symmetric])
  have d: "d < 100" using day days_in_month_le [of m y] by linarith
  define h mi se where "h = secs mod 86400 div 3600" and "mi = secs mod 86400 mod 3600 div 60" and "se = secs mod 86400 mod 60"
  note clock = clock_parts [of secs, folded h_def mi_def se_def]
  have f: "format_rfc3339 True zone t = append_int y 4 @ CHR ''-'' # append_int m 2 @ CHR ''-'' # append_int d 2 @ CHR ''T'' #
      append_int h 2 @ CHR '':'' # append_int mi 2 @ CHR '':'' # append_int se 2 @ append_nano (t mod second) @ append_zone (zone t)"
    by (simp add: format_rfc3339_def Let_def c secs_def [symmetric] h_def mi_def se_def)
  have nano: "get_fraction (append_nano (t mod second) @ append_zone (zone t)) = (t mod second, append_zone (zone t))"
    using append_zone_first [of "zone t"] get_fraction_nano [of "t mod second"] by force
  have z: "get_zone (append_zone (zone t)) = Some (zone t, [])" by (rule get_zone_append [OF assms(2) y(3)])
  have inst: "(((day_number y m d - unix_day) * 24 + h) * 60 + mi) * 60 * second + se * second + t mod second - zone t * second = t"
  proof -
    have "((day_number y m d - unix_day) * 24 + h) * 60 * 60 + mi * 60 + se = t div second + zone t"
      using clock(7) day by (simp add: secs_def algebra_simps)
    then have "(((day_number y m d - unix_day) * 24 + h) * 60 + mi) * 60 * second + se * second = (t div second + zone t) * second"
      by (simp add: algebra_simps)
    then show ?thesis using div_mult_mod_eq [of t second] by (simp add: algebra_simps)
  qed
  show ?thesis
    unfolding f parse_rfc3339_def
    using y day d clock inst by (simp add: get_year_four getnum_two nano z)
qed

section \<open>Times in JSON\<close>

text \<open>
  \<open>Time.MarshalJSON\<close> and \<open>Time.UnmarshalJSON\<close>: a quoted RFC 3339 text with nanoseconds; a time that has
  none (a year without four digits, an offset of a day or more) is an error. Reading takes the
  literal's characters as they are, escapes included, and leaves the old time alone for \<open>null\<close>.
\<close>

definition marshal_time :: "(time \<Rightarrow> int) \<Rightarrow> time \<Rightarrow> string option" where
  "marshal_time zone t = (if writable zone t then Some (dquote # format_rfc3339 True zone t @ [dquote]) else None)"

definition unmarshal_time :: "string \<Rightarrow> time \<Rightarrow> time option" where
  "unmarshal_time raw old =
     (if raw = ''null'' then Some old
      else if length raw < 2 \<or> hd raw \<noteq> dquote \<or> last raw \<noteq> dquote then None
      else parse_rfc3339 (butlast (tl raw)))"

lemma unmarshal_marshal_time:
  "marshal_time zone t = Some raw \<Longrightarrow> zone t mod 60 = 0 \<Longrightarrow> unmarshal_time raw old = Some t"
  by (auto simp: marshal_time_def unmarshal_time_def parse_format split: if_splits)

text \<open>None of the characters of a time are escaped in JSON.\<close>

definition json_plain :: "char \<Rightarrow> bool" where
  "json_plain c \<longleftrightarrow> 32 \<le> byte c \<and> byte c < 128 \<and> c \<notin> {backslash, dquote, CHR ''<'', CHR ''>'', CHR ''&''}"

lemma json_chars_plain: "list_all json_plain s \<Longrightarrow> json_chars s = s"
  by (induction s) (simp_all add: json_plain_def escape_ascii_def)

lemma plain_digit: "d < 10 \<Longrightarrow> json_plain (digit_char d)"
  by (drule digit_cases) (auto simp: json_plain_def digit_char_def)

lemma plain_nat_digits: "list_all json_plain (nat_digits n)"
proof (induction n rule: nat_digits.induct)
  case (1 n)
  then show ?case by (simp add: nat_digits.simps [of n] plain_digit)
qed

lemma plain_marks [simp]: "json_plain CHR ''-''" "json_plain CHR '':''" "json_plain CHR ''T''" "json_plain CHR ''Z''"
  "json_plain CHR ''+''" "json_plain CHR ''.''"
  by (simp_all add: json_plain_def)

lemma plain_append_int [simp]: "list_all json_plain (append_int x w)"
proof -
  have "list_all json_plain (zero_padded w x)" for x
    by (induction w x rule: zero_padded.induct) (simp_all add: itoa_def plain_nat_digits plain_digit)
  then show ?thesis by (simp add: append_int_def)
qed

lemma plain_append_nano [simp]: "list_all json_plain (append_nano n)"
proof -
  have "list_all json_plain (trim_zeros (append_int n 9))"
    using plain_append_int [of n 9] by (auto simp: trim_zeros_def list_all_iff simp del: plain_append_int dest!: set_dropWhileD)
  then show ?thesis by (simp add: append_nano_def)
qed

lemma plain_append_zone [simp]: "list_all json_plain (append_zone off)"
  by (simp add: append_zone_def Let_def)

lemma plain_format: "list_all json_plain (format_rfc3339 nanos zone t)"
  by (simp add: format_rfc3339_def Let_def split: prod.split)

lemma marshal_time_string: "marshal_time zone t = Some raw \<Longrightarrow> raw = json_string (format_rfc3339 True zone t)"
  by (simp add: marshal_time_def json_string_def json_chars_plain [OF plain_format] split: if_splits)

end
