(* ===== verification/Cursor.thy ===== *)
theory Cursor
  imports Domain Rfc3339
begin

text \<open>
  Package \<open>internal/repository\<close>, the data of listings: \<open>ListFilters\<close>, \<open>Cursor\<close>,
  \<open>ListResult\<close>, and the opaque text form of a cursor, base64 (URL alphabet, padded) over JSON.
  Base64 is modelled byte by byte, in both directions, with Go's rule that line breaks in the
  input are skipped; the JSON text of a cursor is written out, with \<open>cursor_json\<close> for what it depends on:
  the UUID package and the location of the times. The lemmas give the round trip.
\<close>

section \<open>Base64, URL alphabet\<close>

text \<open>The alphabet \<open>A\<close> to \<open>Z\<close>, \<open>a\<close> to \<open>z\<close>, \<open>0\<close> to \<open>9\<close>, \<open>-\<close>, \<open>_\<close> by character codes.\<close>

definition b64_char :: "nat \<Rightarrow> char" where
  "b64_char v = char_of (if v < 26 then v + 65 else if v < 52 then v + 71 else if v < 62 then v - 4
     else if v = 62 then 45 else 95)"

definition b64_val :: "char \<Rightarrow> nat option" where
  "b64_val c =
     (let k = of_char c :: nat
      in if 65 \<le> k \<and> k \<le> 90 then Some (k - 65)
         else if 97 \<le> k \<and> k \<le> 122 then Some (k - 71)
         else if 48 \<le> k \<and> k \<le> 57 then Some (k + 4)
         else if k = 45 then Some 62
         else if k = 95 then Some 63
         else None)"

fun b64_encode :: "string \<Rightarrow> string" where
  "b64_encode [] = []"
| "b64_encode [x] =
     [b64_char (byte x div 4), b64_char (byte x mod 4 * 16), CHR ''='', CHR ''='']"
| "b64_encode [x, y] =
     [b64_char (byte x div 4), b64_char (byte x mod 4 * 16 + byte y div 16),
      b64_char (byte y mod 16 * 4), CHR ''='']"
| "b64_encode (x # y # z # rest) =
     b64_char (byte x div 4) # b64_char (byte x mod 4 * 16 + byte y div 16) #
     b64_char (byte y mod 16 * 4 + byte z div 64) # b64_char (byte z mod 64) # b64_encode rest"

text \<open>
  Decoding of the text without line breaks: groups of four characters, padding only at the very
  end, and the unused low bits of a padded group ignored.
\<close>

fun b64_decode_groups :: "string \<Rightarrow> string option" where
  "b64_decode_groups [] = Some []"
| "b64_decode_groups (a # b # c # d # rest) =
     (case (b64_val a, b64_val b) of
        (Some p, Some q) \<Rightarrow>
          if c = CHR ''='' then
            (if d = CHR ''='' \<and> rest = [] then Some [char_of (p * 4 + q div 16)] else None)
          else (case b64_val c of
             None \<Rightarrow> None
           | Some r \<Rightarrow>
               if d = CHR ''='' then
                 (if rest = [] then Some [char_of (p * 4 + q div 16), char_of (q mod 16 * 16 + r div 4)] else None)
               else (case b64_val d of
                  None \<Rightarrow> None
                | Some s \<Rightarrow>
                    map_option (\<lambda>tl. char_of (p * 4 + q div 16) # char_of (q mod 16 * 16 + r div 4) #
                                     char_of (r mod 4 * 64 + s) # tl)
                      (b64_decode_groups rest)))
      | _ \<Rightarrow> None)"
| "b64_decode_groups _ = None"

definition b64_decode :: "string \<Rightarrow> string option" where
  "b64_decode s = b64_decode_groups (filter (\<lambda>c. c \<noteq> CHR 0x0A \<and> c \<noteq> CHR 0x0D) s)"

lemma b64_char_simps [simp]:
  assumes "v < 64"
  shows "b64_val (b64_char v) = Some v"
    and "b64_char v \<noteq> CHR ''=''" and "b64_char v \<noteq> CHR 0x0A" and "b64_char v \<noteq> CHR 0x0D"
proof -
  have code: "byte (b64_char v) = (if v < 26 then v + 65 else if v < 52 then v + 71 else if v < 62 then v - 4
     else if v = 62 then 45 else 95)"
    using assms by (simp add: b64_char_def)
  show "b64_val (b64_char v) = Some v"
    unfolding b64_val_def code Let_def using assms by auto
  have "byte (b64_char v) \<noteq> 61" and "byte (b64_char v) \<noteq> 10" and "byte (b64_char v) \<noteq> 13"
    unfolding code using assms by auto
  then show "b64_char v \<noteq> CHR ''=''" and "b64_char v \<noteq> CHR 0x0A" and "b64_char v \<noteq> CHR 0x0D"
    by auto
qed

lemma sextet_bounds:
  "(a::nat) < 256 \<Longrightarrow> a div 4 < 64" "(b::nat) < 256 \<Longrightarrow> a mod 4 * 16 + b div 16 < 64"
  "a mod 4 * 16 < 64" "(c::nat) < 256 \<Longrightarrow> b mod 16 * 4 + c div 64 < 64" "b mod 16 * 4 < 64"
  by auto

lemma sextets [simp]:
  "byte x div 4 < 64" "byte x mod 4 * 16 + byte y div 16 < 64" "byte x mod 4 * 16 < 64"
  "byte y mod 16 * 4 + byte z div 64 < 64" "byte y mod 16 * 4 < 64" "byte z mod 64 < 64"
  by (simp_all add: sextet_bounds del: of_char_mod_256)

lemma byte_parts:
  "(b::nat) < 256 \<Longrightarrow> b div 16 div 16 = 0" "(b::nat) < 256 \<Longrightarrow> b div 64 div 4 = 0"
  "(b::nat) < 256 \<Longrightarrow> b div 16 mod 16 * 16 + b mod 16 = b"
  "(b::nat) < 256 \<Longrightarrow> b div 64 mod 4 * 64 + b mod 64 = b"
  by auto

lemma b64_groups_roundtrip: "b64_decode_groups (b64_encode s) = Some s"
  by (induction s rule: b64_encode.induct) (simp_all add: byte_parts)

lemma b64_encode_no_breaks: "filter (\<lambda>c. c \<noteq> CHR 0x0A \<and> c \<noteq> CHR 0x0D) (b64_encode s) = b64_encode s"
  by (induction s rule: b64_encode.induct) simp_all

lemma b64_roundtrip: "b64_decode (b64_encode s) = Some s"
  by (simp add: b64_decode_def b64_encode_no_breaks b64_groups_roundtrip)

section \<open>Cursors and listings\<close>

record ListFilters =
  lf_Status :: "string option"
  lf_Channel :: "string option"
  lf_Priority :: "string option"
  lf_CreatedAfter :: "time option"
  lf_CreatedBefore :: "time option"

record Cursor =
  cu_CreatedAt :: time
  cu_ID :: uuid

record ListResult =
  lr_Notifications :: "Notification list"
  lr_NextCursor :: string
  lr_HasMore :: bool

text \<open>
  \<open>json.Marshal\<close> of a cursor, which fails on a time that has no JSON form (\<open>Encode\<close> then goes on with no
  bytes), and \<open>json.Unmarshal\<close>, whose decoder leaves a field alone for \<open>null\<close> and fails in the end after
  any other value it cannot read.
\<close>

record cursor_json =
  cj_uuid :: uuid_pkg
  cj_zone :: "time \<Rightarrow> int"

definition marshal_cursor :: "cursor_json \<Rightarrow> Cursor \<Rightarrow> string option" where
  "marshal_cursor cj c =
     map_option (\<lambda>t. object_text [(''c'', t), (''i'', json_string (uuid_String (cj_uuid cj) (cu_ID c)))])
       (marshal_time (cj_zone cj) (cu_CreatedAt c))"

definition decode_cursor_field :: "uuid_pkg \<Rightarrow> string \<times> string \<Rightarrow> Cursor \<times> bool \<Rightarrow> Cursor \<times> bool" where
  "decode_cursor_field up m acc =
     (let (name, raw) = m; (c, bad) = acc
      in case find_field [''c'', ''i''] name of
           None \<Rightarrow> acc
         | Some f \<Rightarrow>
             if f = ''c'' then
               (case unmarshal_time raw (cu_CreatedAt c) of
                  None \<Rightarrow> (c, True)
                | Some t \<Rightarrow> (c\<lparr>cu_CreatedAt := t\<rparr>, bad))
             else if hd raw = CHR ''n'' then acc
             else if hd raw \<noteq> dquote then (c, True)
             else (case uuid_Parse up (string_of_raw raw) of
                     None \<Rightarrow> (c, True)
                   | Some i \<Rightarrow> (c\<lparr>cu_ID := i\<rparr>, bad)))"

definition unmarshal_cursor :: "cursor_json \<Rightarrow> string \<Rightarrow> Cursor option" where
  "unmarshal_cursor cj = unmarshal_object (decode_cursor_field (cj_uuid cj)) \<lparr>cu_CreatedAt = zero_time, cu_ID = uuid_Nil\<rparr>"

definition Encode :: "cursor_json \<Rightarrow> Cursor \<Rightarrow> string" where
  "Encode cj c = b64_encode (case marshal_cursor cj c of None \<Rightarrow> [] | Some data \<Rightarrow> data)"

text \<open>\<open>err_text\<close> stands for the wording of the base64 or JSON error.\<close>

definition DecodeCursor :: "cursor_json \<Rightarrow> (string \<Rightarrow> string) \<Rightarrow> string \<Rightarrow> go_error + Cursor" where
  "DecodeCursor cj err_text s =
     (case b64_decode s of
        None \<Rightarrow> Inl (ErrOther (''invalid cursor: '' @ err_text s))
      | Some data \<Rightarrow>
          (case unmarshal_cursor cj data of
             None \<Rightarrow> Inl (ErrOther (''invalid cursor: '' @ err_text s))
           | Some c \<Rightarrow> Inr c))"

text \<open>The times a cursor can carry: they have a JSON form, and an offset of whole minutes.\<close>

definition time_readable :: "cursor_json \<Rightarrow> time \<Rightarrow> bool" where
  "time_readable cj t \<longleftrightarrow> writable (cj_zone cj) t \<and> cj_zone cj t mod 60 = 0"

lemma uuid_text:
  assumes "uuid_roundtrip up"
  shows "uuid_Parse up (to_valid_utf8 (uuid_String up i)) = Some i" "to_valid_utf8 (uuid_String up i) = uuid_String up i"
  using assms by (simp_all add: uuid_roundtrip_def ascii_valid)

lemma cursor_names_valid: "to_valid_utf8 ''c'' = ''c''" "to_valid_utf8 ''i'' = ''i''"
  by code_simp+

lemma cursor_json_roundtrip:
  assumes "uuid_roundtrip (cj_uuid cj)" "time_readable cj (cu_CreatedAt c)"
  shows "\<exists>data. marshal_cursor cj c = Some data \<and> unmarshal_cursor cj data = Some c"
proof -
  obtain raw where raw: "marshal_time (cj_zone cj) (cu_CreatedAt c) = Some raw"
    using assms(2) by (simp add: time_readable_def marshal_time_def)
  let ?i = "uuid_String (cj_uuid cj) (cu_ID c)"
  let ?ms = "[(''c'', raw), (''i'', json_string ?i)]"
  have read: "unmarshal_time raw old = Some (cu_CreatedAt c)" for old
    using unmarshal_marshal_time [OF raw] assms(2) by (simp add: time_readable_def)
  have "unmarshal_cursor cj (object_text ?ms) = Some c"
    unfolding unmarshal_cursor_def
  proof (rule unmarshal_written)
    show "list_all (\<lambda>m. value_again (max_depth - 1) (snd m)) ?ms"
      using marshal_time_string [OF raw] by (simp add: value_again_json_string)
    show "fold (decode_cursor_field (cj_uuid cj)) (map (\<lambda>(n, v). (to_valid_utf8 n, v)) ?ms)
        (\<lparr>cu_CreatedAt = zero_time, cu_ID = uuid_Nil\<rparr>, False) = (c, False)"
      using read uuid_text(1) [OF assms(1), of "cu_ID c"]
      by (simp add: decode_cursor_field_def find_field_def string_of_json_string cursor_names_valid del: to_valid_utf8.simps)
  qed simp
  then show ?thesis using raw by (simp add: marshal_cursor_def)
qed

lemma Decode_Encode:
  assumes "uuid_roundtrip (cj_uuid cj)" "time_readable cj (cu_CreatedAt c)"
  shows "DecodeCursor cj err_text (Encode cj c) = Inr c"
  using cursor_json_roundtrip [OF assms] by (auto simp: DecodeCursor_def Encode_def b64_roundtrip)

text \<open>UTC times and the sample UUIDs, for examples.\<close>

definition utc_json :: cursor_json where
  "utc_json = \<lparr>cj_uuid = sample_uuid_pkg, cj_zone = (\<lambda>_. 0)\<rparr>"

end
