(* ===== verification/Template.thy ===== *)
theory Template
  imports Domain
begin

text \<open>
  Package \<open>internal/domain\<close>, templates: the structs of \<open>template.go\<close>, \<open>Render\<close> and
  \<open>CreateTemplateRequest.Validate\<close>.

  \<open>Render\<close> ranges over a Go map twice, and Go leaves the iteration order open: each of the two
  orders is an argument of the model, a list of the map's bindings. The main lemma says that on
  templates made of text and \<open>{{name}}\<close> placeholders the orders do not matter; a second one
  that they do as soon as a value itself contains a placeholder.
\<close>

section \<open>Data and operations\<close>

record Template =
  t_ID :: uuid
  t_Name :: string
  t_Channel :: string
  t_Content :: string
  t_Subject :: "string option"
  t_CreatedAt :: time
  t_UpdatedAt :: time

record CreateTemplateRequest =
  ct_Name :: string
  ct_Channel :: string
  ct_Content :: string
  ct_Subject :: "string option"

definition placeholder :: "string \<Rightarrow> string" where
  "placeholder key = ''{{'' @ key @ ''}}''"

text \<open>One of the two loops: the bindings in the order the map is ranged over.\<close>

fun render_loop :: "(string \<times> string) list \<Rightarrow> string \<Rightarrow> string" where
  "render_loop [] content = content"
| "render_loop ((key, val) # vars) content = render_loop vars (replace_all content (placeholder key) val)"

definition Render ::
    "Template \<Rightarrow> (string \<times> string) list \<Rightarrow> (string \<times> string) list \<Rightarrow> string \<times> string option" where
  "Render t order1 order2 =
     (render_loop order1 (t_Content t), map_option (render_loop order2) (t_Subject t))"

text \<open>An order in which a Go map can be ranged over: every binding once.\<close>

definition ranges_over :: "(string \<times> string) list \<Rightarrow> (string \<rightharpoonup> string) \<Rightarrow> bool" where
  "ranges_over vars m \<longleftrightarrow> distinct (map fst vars) \<and> map_of vars = m"

definition CreateTemplateRequest_Validate :: "CreateTemplateRequest \<Rightarrow> go_error option" where
  "CreateTemplateRequest_Validate r =
     (let errs1 = (if ct_Name r = [] then [field_err ''name'' ''is required''] else []);
          errs2 = (if ct_Channel r = [] then [field_err ''channel'' ''is required'']
                   else if \<not> isValidChannel (ct_Channel r)
                     then [field_err ''channel'' ''must be one of: sms, email, push''] else []);
          errs3 = (if ct_Content r = [] then [field_err ''content'' ''is required''] else []);
          errs = errs1 @ errs2 @ errs3
      in if errs \<noteq> [] then Some (ErrValidation errs) else None)"

section \<open>Rendering\<close>

text \<open>
  The intended reading of a template: text and placeholders in sequence. \<open>source_text\<close> is the
  template's text, \<open>expand\<close> what it stands for, a placeholder without a binding being left as it
  is.
\<close>

datatype segment = Lit string | Var string

fun segment_text :: "segment \<Rightarrow> string" where
  "segment_text (Lit s) = s"
| "segment_text (Var key) = placeholder key"

fun segment_value :: "(string \<rightharpoonup> string) \<Rightarrow> segment \<Rightarrow> string" where
  "segment_value m (Lit s) = s"
| "segment_value m (Var key) = (case m key of None \<Rightarrow> placeholder key | Some v \<Rightarrow> v)"

definition source_text :: "segment list \<Rightarrow> string" where
  "source_text segs = concat (map segment_text segs)"

definition expand :: "(string \<rightharpoonup> string) \<Rightarrow> segment list \<Rightarrow> string" where
  "expand m segs = concat (map (segment_value m) segs)"

definition no_open :: "string \<Rightarrow> bool" where
  "no_open s \<longleftrightarrow> CHR ''{'' \<notin> set s"

definition no_braces :: "string \<Rightarrow> bool" where
  "no_braces s \<longleftrightarrow> CHR ''{'' \<notin> set s \<and> CHR ''}'' \<notin> set s"

fun segment_ok :: "segment \<Rightarrow> bool" where
  "segment_ok (Lit s) = no_open s"
| "segment_ok (Var key) = no_braces key"

fun subst_segment :: "string \<Rightarrow> string \<Rightarrow> segment \<Rightarrow> segment" where
  "subst_segment key v (Lit s) = Lit s"
| "subst_segment key v (Var j) = (if j = key then Lit v else Var j)"

declare replace_all.simps(2) [simp del]

lemma replace_text:
  "no_open s \<Longrightarrow> replace_all (s @ rest) (placeholder key) v = s @ replace_all rest (placeholder key) v"
  by (induction s) (auto simp: no_open_def placeholder_def replace_all.simps(2))

lemma replace_hit:
  "replace_all (placeholder key @ rest) (placeholder key) v = v @ replace_all rest (placeholder key) v"
  by (simp add: placeholder_def replace_all.simps(2))

lemma prefix_closed_name:
  "no_braces key \<Longrightarrow> no_braces j \<Longrightarrow> prefix (key @ ''}}'') (j @ ''}}'' @ rest) \<longleftrightarrow> key = j"
proof (induction key arbitrary: j)
  case Nil
  then show ?case by (cases j) (auto simp: no_braces_def)
next
  case (Cons c key)
  then show ?case by (cases j) (auto simp: no_braces_def)
qed

lemma replace_miss:
  assumes "no_braces key" and "no_braces j" and "key \<noteq> j"
  shows "replace_all (placeholder j @ rest) (placeholder key) v =
           placeholder j @ replace_all rest (placeholder key) v"
proof -
  have no: "\<not> prefix (''{{'' @ key @ ''}}'') (''{{'' @ j @ ''}}'' @ rest)"
    using assms prefix_closed_name [of key j rest] by simp
  have no2: "\<not> prefix (''{{'' @ key @ ''}}'') (''{'' @ j @ ''}}'' @ rest)"
    using assms(2) by (cases j) (auto simp: no_braces_def)
  have "no_open (j @ ''}}'')"
    using assms(2) by (auto simp: no_open_def no_braces_def)
  then have tail: "replace_all (j @ ''}}'' @ rest) (placeholder key) v =
      j @ ''}}'' @ replace_all rest (placeholder key) v"
    using replace_text [of "j @ ''}}''" rest key v] by simp
  show ?thesis
    using no no2 tail by (simp add: placeholder_def replace_all.simps(2))
qed

lemma replace_segments:
  "no_braces key \<Longrightarrow> list_all segment_ok segs \<Longrightarrow>
   replace_all (source_text segs) (placeholder key) v = source_text (map (subst_segment key v) segs)"
proof (induction segs)
  case Nil
  then show ?case by (simp add: source_text_def)
next
  case (Cons seg segs)
  then show ?case
    by (cases seg) (auto simp: source_text_def replace_text replace_hit replace_miss)
qed

lemma subst_segments_ok:
  "no_open v \<Longrightarrow> list_all segment_ok segs \<Longrightarrow> list_all segment_ok (map (subst_segment key v) segs)"
  by (induction segs) (auto elim!: segment_ok.elims)

lemma segment_value_subst:
  "segment_value (map_of vars) (subst_segment key v seg) = segment_value (map_of ((key, v) # vars)) seg"
  by (cases seg) auto

lemma render_loop_segments:
  "list_all (\<lambda>(key, v). no_braces key \<and> no_open v) vars \<Longrightarrow> list_all segment_ok segs \<Longrightarrow>
   render_loop vars (source_text segs) = expand (map_of vars) segs"
proof (induction vars arbitrary: segs)
  case Nil
  have "segment_text = segment_value (map_of [])"
    by (rule ext, case_tac x) auto
  then show ?case by (simp add: source_text_def expand_def)
next
  case (Cons kv vars)
  obtain key v where kv: "kv = (key, v)" by force
  have "render_loop vars (source_text (map (subst_segment key v) segs)) =
      expand (map_of vars) (map (subst_segment key v) segs)"
    using Cons kv by (auto intro!: Cons.IH subst_segments_ok)
  also have "\<dots> = expand (map_of ((key, v) # vars)) segs"
    by (simp only: expand_def map_map o_def segment_value_subst)
  finally show ?case
    using Cons.prems kv by (simp add: replace_segments fun_upd_def)
qed

text \<open>The variables of a request that rendering treats as plain text.\<close>

definition plain_variables :: "(string \<rightharpoonup> string) \<Rightarrow> bool" where
  "plain_variables m \<longleftrightarrow> (\<forall>key v. m key = Some v \<longrightarrow> no_braces key \<and> no_open v)"

lemma ranges_over_plain:
  "ranges_over vars m \<Longrightarrow> plain_variables m \<Longrightarrow> list_all (\<lambda>(key, v). no_braces key \<and> no_open v) vars"
  by (fastforce simp: ranges_over_def plain_variables_def list_all_iff)

lemma render_loop_correct:
  "ranges_over vars m \<Longrightarrow> plain_variables m \<Longrightarrow> list_all segment_ok segs \<Longrightarrow>
   render_loop vars (source_text segs) = expand m segs"
  using render_loop_segments [OF ranges_over_plain] by (auto simp: ranges_over_def)



text \<open>
  Without that restriction the outcome of \<open>Render\<close> depends on Go's map iteration order: one
  template and one variable map have two different renderings.
\<close>

lemma render_order_dependent:
  "\<exists>t m order1 order2. ranges_over order1 m \<and> ranges_over order2 m \<and>
     Render t order1 order1 \<noteq> Render t order2 order2"
proof -
  let ?t = "\<lparr>t_ID = 7, t_Name = ''n'', t_Channel = ''sms'', t_Content = ''{{a}}'', t_Subject = None,
      t_CreatedAt = 0, t_UpdatedAt = 0\<rparr>"
  have "Render ?t [(''a'', ''{{b}}''), (''b'', ''x'')] [] = (''x'', None)"
    by (simp add: Render_def placeholder_def replace_all.simps(2))
  moreover have "Render ?t [(''b'', ''x''), (''a'', ''{{b}}'')] [] = (''{{b}}'', None)"
    by (simp add: Render_def placeholder_def replace_all.simps(2))
  moreover have "ranges_over [(''a'', ''{{b}}''), (''b'', ''x'')] [''a'' \<mapsto> ''{{b}}'', ''b'' \<mapsto> ''x'']"
    and "ranges_over [(''b'', ''x''), (''a'', ''{{b}}'')] [''a'' \<mapsto> ''{{b}}'', ''b'' \<mapsto> ''x'']"
    by (auto simp: ranges_over_def)
  ultimately show ?thesis
    by (intro exI [of _ ?t]
          exI [of _ "[''a'' \<mapsto> ''{{b}}'', ''b'' \<mapsto> ''x'']"]
          exI [of _ "[(''a'', ''{{b}}''), (''b'', ''x'')]"]
          exI [of _ "[(''b'', ''x''), (''a'', ''{{b}}'')]"])
      (simp add: Render_def)
qed

section \<open>Validation of template requests\<close>

definition template_field_ok :: "string \<Rightarrow> CreateTemplateRequest \<Rightarrow> bool" where
  "template_field_ok f r =
     (if f = ''name'' then ct_Name r \<noteq> []
      else if f = ''channel'' then ct_Channel r \<in> {''sms'', ''email'', ''push''}
      else if f = ''content'' then ct_Content r \<noteq> []
      else True)"

lemma Template_Validate_fields:
  "map fe_Field (field_errors (CreateTemplateRequest_Validate r)) =
     filter (\<lambda>f. \<not> template_field_ok f r) [''name'', ''channel'', ''content'']"
  unfolding CreateTemplateRequest_Validate_def Let_def field_errors_if_errs
  by (simp add: template_field_ok_def isValidChannel_iff)

lemma Template_Validate_None:
  "CreateTemplateRequest_Validate r = None \<longleftrightarrow>
     ct_Name r \<noteq> [] \<and> isValidChannel (ct_Channel r) \<and> ct_Content r \<noteq> []"
  by (auto simp: CreateTemplateRequest_Validate_def Let_def)

end
