(* ===== verification/Repository.thy ===== *)
theory Repository
  imports Cursor Template
begin

text \<open>
  Package \<open>internal/repository\<close>, the interfaces. A Go interface value is a record of its methods,
  over the type \<open>'st\<close> of the store behind it. A method takes the surroundings of the call
  (the server's \<open>NOW()\<close>, the faults of its statements, the values \<open>uuid.New\<close> draws, the order in
  which the server scans rows), its arguments and the store, and returns its result and the store.

  \<open>notification_store\<close> is the contract the service, the workers and the scheduler rely on: what a
  lookup finds, which row each write changes and how, in the presence of faults too. It is
  interpreted for PostgreSQL in \<open>Postgres\<close>.
\<close>

section \<open>Surroundings of a call\<close>

datatype iter_fault = IterOk | ScanErr string | RowsErr string

record call_env =
  ce_now :: time
  ce_fault :: "nat \<Rightarrow> net_fault"
  ce_affected :: "string option"
  ce_iter :: iter_fault
  ce_rows :: nat
  ce_uuid :: "nat \<Rightarrow> uuid"
  ce_scan :: "Notification list \<Rightarrow> Notification list"
  ce_tscan :: "Template list \<Rightarrow> Template list"

text \<open>\<open>ce_rows\<close> is how many rows arrive before the iteration breaks off with \<open>RowsErr\<close>.\<close>

text \<open>Nothing goes wrong.\<close>

definition faultless :: "call_env \<Rightarrow> bool" where
  "faultless ce \<longleftrightarrow> (\<forall>i. ce_fault ce i = NoFault) \<and> ce_affected ce = None \<and> ce_iter ce = IterOk"

text \<open>The server may produce the rows of a query in any order, but every row once.\<close>

definition scans_all :: "call_env \<Rightarrow> bool" where
  "scans_all ce \<longleftrightarrow> (\<forall>xs. mset (ce_scan ce xs) = mset xs) \<and> (\<forall>ts. mset (ce_tscan ce ts) = mset ts)"

text \<open>A call at a given time without faults.\<close>

definition calm :: "time \<Rightarrow> (nat \<Rightarrow> uuid) \<Rightarrow> call_env" where
  "calm now us = \<lparr>ce_now = now, ce_fault = (\<lambda>_. NoFault), ce_affected = None, ce_iter = IterOk,
     ce_rows = 0, ce_uuid = us, ce_scan = (\<lambda>xs. xs), ce_tscan = (\<lambda>ts. ts)\<rparr>"

lemma calm_simps [simp]:
  "ce_now (calm now us) = now" "ce_fault (calm now us) i = NoFault" "ce_affected (calm now us) = None"
  "ce_iter (calm now us) = IterOk" "ce_uuid (calm now us) = us" "ce_scan (calm now us) xs = xs"
  "ce_tscan (calm now us) ts = ts"
  "faultless (calm now us)" "scans_all (calm now us)"
  by (simp_all add: calm_def faultless_def scans_all_def)

section \<open>The interfaces\<close>

record 'st NotificationRepository =
  repo_Create :: "call_env \<Rightarrow> Notification \<Rightarrow> 'st \<Rightarrow> (go_error + Notification) \<times> 'st"
  repo_CreateBatch :: "call_env \<Rightarrow> Notification list \<Rightarrow> 'st \<Rightarrow> (go_error + Notification list) \<times> 'st"
  repo_GetByID :: "call_env \<Rightarrow> uuid \<Rightarrow> 'st \<Rightarrow> go_error + Notification"
  repo_GetByBatchID :: "call_env \<Rightarrow> uuid \<Rightarrow> 'st \<Rightarrow> go_error + Notification list"
  repo_List :: "call_env \<Rightarrow> ListFilters \<Rightarrow> Cursor option \<Rightarrow> int \<Rightarrow> 'st \<Rightarrow> go_error + ListResult"
  repo_UpdateStatus :: "call_env \<Rightarrow> uuid \<Rightarrow> string \<Rightarrow> 'st \<Rightarrow> go_error option \<times> 'st"
  repo_UpdateSent :: "call_env \<Rightarrow> uuid \<Rightarrow> string \<Rightarrow> 'st \<Rightarrow> go_error option \<times> 'st"
  repo_UpdateFailed :: "call_env \<Rightarrow> uuid \<Rightarrow> string \<Rightarrow> 'st \<Rightarrow> go_error option \<times> 'st"
  repo_IncrementRetry :: "call_env \<Rightarrow> uuid \<Rightarrow> time \<Rightarrow> 'st \<Rightarrow> go_error option \<times> 'st"
  repo_Cancel :: "call_env \<Rightarrow> uuid \<Rightarrow> 'st \<Rightarrow> go_error option \<times> 'st"
  repo_GetScheduledReady :: "call_env \<Rightarrow> int \<Rightarrow> 'st \<Rightarrow> go_error + Notification list"

record 'st TemplateRepository =
  trepo_Create :: "call_env \<Rightarrow> Template \<Rightarrow> 'st \<Rightarrow> (go_error + Template) \<times> 'st"
  trepo_GetByID :: "call_env \<Rightarrow> uuid \<Rightarrow> 'st \<Rightarrow> go_error + Template"
  trepo_List :: "call_env \<Rightarrow> int \<Rightarrow> 'st \<Rightarrow> go_error + Template list"

section \<open>The contract of the notification store\<close>

text \<open>The columns each write changes; the table's trigger stamps \<open>updated_at\<close> every time.\<close>

definition set_status :: "string \<Rightarrow> time \<Rightarrow> Notification \<Rightarrow> Notification" where
  "set_status st now n = n\<lparr>n_Status := st, n_UpdatedAt := now\<rparr>"

definition set_sent :: "string \<Rightarrow> time \<Rightarrow> Notification \<Rightarrow> Notification" where
  "set_sent msgid now n =
     n\<lparr>n_Status := StatusSent, n_SentAt := Some now, n_ProviderMessageID := Some msgid, n_UpdatedAt := now\<rparr>"

definition set_failed :: "string \<Rightarrow> time \<Rightarrow> Notification \<Rightarrow> Notification" where
  "set_failed msg now n =
     n\<lparr>n_Status := StatusFailed, n_FailedAt := Some now, n_ErrorMessage := Some msg, n_UpdatedAt := now\<rparr>"

definition set_retry :: "time \<Rightarrow> time \<Rightarrow> Notification \<Rightarrow> Notification" where
  "set_retry due now n =
     n\<lparr>n_RetryCount := n_RetryCount n + 1, n_NextRetryAt := Some due, n_UpdatedAt := now\<rparr>"

lemmas row_write_defs = set_status_def set_sent_def set_failed_def set_retry_def

lemma row_writes_keep_ID [simp]:
  "n_ID (set_status st now n) = n_ID n" "n_ID (set_sent m now n) = n_ID n"
  "n_ID (set_failed m now n) = n_ID n" "n_ID (set_retry due now n) = n_ID n"
  by (simp_all add: row_write_defs)

lemma row_writes_keep_retry [simp]:
  "n_RetryCount (set_status st now n) = n_RetryCount n" "n_RetryCount (set_sent m now n) = n_RetryCount n"
  "n_RetryCount (set_failed m now n) = n_RetryCount n"
  by (simp_all add: row_write_defs)

text \<open>
  From \<open>m\<close> to \<open>m'\<close> at most the row \<open>i\<close> has changed, and then by \<open>f\<close>; when \<open>must\<close> holds it
  has.
\<close>

definition row_write ::
    "(uuid \<rightharpoonup> Notification) \<Rightarrow> (uuid \<rightharpoonup> Notification) \<Rightarrow> uuid \<Rightarrow> (Notification \<Rightarrow> Notification) \<Rightarrow> bool \<Rightarrow> bool" where
  "row_write m m' i f must \<longleftrightarrow>
     (m' = m \<and> \<not> must) \<or> (\<exists>n. m i = Some n \<and> m' = m(i \<mapsto> f n))"

text \<open>What a created row keeps of the notification it was created from.\<close>

definition stored_from :: "Notification \<Rightarrow> Notification \<Rightarrow> bool" where
  "stored_from n r \<longleftrightarrow>
     (n_ID n \<noteq> uuid_Nil \<longrightarrow> n_ID r = n_ID n) \<and> n_BatchID r = n_BatchID n \<and>
     n_Content r = n_Content n \<and> n_Channel r = n_Channel n \<and>
     n_Status r = (if n_Status n = [] then StatusPending else n_Status n) \<and>
     n_Priority r = (if n_Priority n = [] then PriorityNormal else n_Priority n) \<and>
     n_RetryCount r = n_RetryCount n \<and> (n_ScheduledAt r = None \<longleftrightarrow> n_ScheduledAt n = None) \<and>
     n_SentAt r = None \<and> n_FailedAt r = None"

text \<open>The rows \<open>rs\<close> are new, and the table is extended by just them.\<close>

definition rows_added :: "(uuid \<rightharpoonup> Notification) \<Rightarrow> (uuid \<rightharpoonup> Notification) \<Rightarrow> Notification list \<Rightarrow> bool" where
  "rows_added m m' rs \<longleftrightarrow> distinct (map n_ID rs) \<and> (\<forall>r \<in> set rs. m (n_ID r) = None \<and> m' (n_ID r) = Some r) \<and>
     (\<forall>i. i \<notin> n_ID ` set rs \<longrightarrow> m' i = m i)"

lemma rows_added_Nil [simp]: "rows_added m m' [] \<longleftrightarrow> m' = m"
  by (auto simp: rows_added_def)

lemma rows_added_Cons:
  "m (n_ID r) = None \<Longrightarrow> rows_added (m(n_ID r \<mapsto> r)) m' rs \<Longrightarrow> rows_added m m' (r # rs)"
  unfolding rows_added_def by (auto simp: fun_upd_def split: if_splits) (metis imageE)+

lemma rows_added_keeps: "rows_added m m' rs \<Longrightarrow> m i = Some n \<Longrightarrow> m' i = Some n"
  by (auto simp: rows_added_def) (metis image_iff option.distinct(1))

lemma row_write_frame: "row_write m m' i f must \<Longrightarrow> j \<noteq> i \<Longrightarrow> m' j = m j"
  by (auto simp: row_write_def)

lemma row_write_at:
  "row_write m m' i f must \<Longrightarrow> m i = Some n \<Longrightarrow> m' i = Some n \<and> \<not> must \<or> m' i = Some (f n)"
  by (auto simp: row_write_def)

lemma row_write_must: "row_write m m' i f True \<Longrightarrow> \<exists>n. m i = Some n \<and> m' = m(i \<mapsto> f n)"
  by (auto simp: row_write_def)

lemma row_write_weaken: "row_write m m' i f must \<Longrightarrow> (must' \<longrightarrow> must) \<Longrightarrow> row_write m m' i f must'"
  by (auto simp: row_write_def)

lemma row_write_dom: "row_write m m' i f must \<Longrightarrow> dom m' = dom m"
  by (auto simp: row_write_def split: if_splits)

text \<open>The seven statuses of package \<open>domain\<close>.\<close>

definition legal_status :: "string \<Rightarrow> bool" where
  "legal_status st \<longleftrightarrow> st \<in> {StatusPending, StatusQueued, StatusProcessing, StatusSent, StatusDelivered,
     StatusFailed, StatusCancelled}"

text \<open>
  \<open>rows\<close> is the table as a map from ids, \<open>stamp\<close> the resolution at which the store keeps instants and
  \<open>txt_of\<close> the form in which it keeps a provider's message id.
\<close>

locale notification_store =
  fixes R :: "'st NotificationRepository"
    and wf :: "'st \<Rightarrow> bool"
    and rows :: "'st \<Rightarrow> uuid \<Rightarrow> Notification option"
    and stamp :: "time \<Rightarrow> time"
    and txt_of :: "string \<Rightarrow> string"
  assumes row_id: "wf s \<Longrightarrow> rows s i = Some n \<Longrightarrow> n_ID n = i"
    and get_sound: "wf s \<Longrightarrow> repo_GetByID R ce i s = Inr n \<Longrightarrow> rows s i = Some n"
    and get_complete: "wf s \<Longrightarrow> faultless ce \<Longrightarrow> rows s i = Some n \<Longrightarrow> repo_GetByID R ce i s = Inr n"
    and create_inserts: "wf s \<Longrightarrow> repo_Create R ce n s = (Inr n', s') \<Longrightarrow>
          wf s' \<and> stored_from n n' \<and> rows_added (rows s) (rows s') [n']"
    and create_keeps: "wf s \<Longrightarrow> repo_Create R ce n s = (Inl ge, s') \<Longrightarrow>
          wf s' \<and> (s' = s \<or> (\<exists>n'. stored_from n n' \<and> rows_added (rows s) (rows s') [n']))"
    and batch_inserts: "wf s \<Longrightarrow> repo_CreateBatch R ce ns s = (Inr ns', s') \<Longrightarrow>
          wf s' \<and> list_all2 stored_from ns ns' \<and> rows_added (rows s) (rows s') ns'"
    and batch_keeps: "wf s \<Longrightarrow> repo_CreateBatch R ce ns s = (Inl ge, s') \<Longrightarrow>
          wf s' \<and> (s' = s \<or> (\<exists>ns'. list_all2 stored_from ns ns' \<and> rows_added (rows s) (rows s') ns'))"
    and status_writes: "wf s \<Longrightarrow> repo_UpdateStatus R ce i st s = (e, s') \<Longrightarrow>
          wf s' \<and> row_write (rows s) (rows s') i (set_status st (ce_now ce)) (e = None)"
    and sent_writes: "wf s \<Longrightarrow> repo_UpdateSent R ce i m s = (e, s') \<Longrightarrow>
          wf s' \<and> row_write (rows s) (rows s') i (set_sent (txt_of m) (ce_now ce)) (e = None)"
    and failed_writes: "wf s \<Longrightarrow> repo_UpdateFailed R ce i m s = (e, s') \<Longrightarrow>
          wf s' \<and> row_write (rows s) (rows s') i (set_failed m (ce_now ce)) (e = None)"
    and retry_writes: "wf s \<Longrightarrow> repo_IncrementRetry R ce i t s = (e, s') \<Longrightarrow>
          wf s' \<and> row_write (rows s) (rows s') i (set_retry (stamp t) (ce_now ce)) (e = None)"
    and cancel_writes: "wf s \<Longrightarrow> repo_Cancel R ce i s = (e, s') \<Longrightarrow>
          wf s' \<and> row_write (rows s) (rows s') i (set_status StatusCancelled (ce_now ce)) (e = None) \<and>
          (rows s' \<noteq> rows s \<longrightarrow> (\<exists>n. rows s i = Some n \<and> n_Status n \<in> {StatusPending, StatusQueued}))"
    and cancel_guard: "wf s \<Longrightarrow> repo_Cancel R ce i s = (None, s') \<Longrightarrow>
          \<exists>n. rows s i = Some n \<and> n_Status n \<in> {StatusPending, StatusQueued}"
    and scheduled_sound: "wf s \<Longrightarrow> scans_all ce \<Longrightarrow> repo_GetScheduledReady R ce k s = Inr ns \<Longrightarrow>
          n \<in> set ns \<Longrightarrow> rows s (n_ID n) = Some n \<and> n_Status n = StatusPending \<and>
            (\<exists>t. n_ScheduledAt n = Some t \<and> t \<le> ce_now ce)"
    and scheduled_distinct: "wf s \<Longrightarrow> scans_all ce \<Longrightarrow> repo_GetScheduledReady R ce k s = Inr ns \<Longrightarrow>
          distinct (map n_ID ns) \<and> int (length ns) \<le> max 0 k"
    and scheduled_complete: "wf s \<Longrightarrow> faultless ce \<Longrightarrow> scans_all ce \<Longrightarrow> 0 \<le> k \<Longrightarrow>
          \<exists>ns. repo_GetScheduledReady R ce k s = Inr ns \<and> (int (length ns) < k \<longrightarrow>
            (\<forall>i n t. rows s i = Some n \<longrightarrow> n_Status n = StatusPending \<longrightarrow> n_ScheduledAt n = Some t \<longrightarrow>
               t \<le> ce_now ce \<longrightarrow> n \<in> set ns))"
    and status_complete: "wf s \<Longrightarrow> faultless ce \<Longrightarrow> rows s i = Some n \<Longrightarrow> legal_status st \<Longrightarrow>
          fst (repo_UpdateStatus R ce i st s) = None"
    and sent_complete: "wf s \<Longrightarrow> faultless ce \<Longrightarrow> rows s i = Some n \<Longrightarrow> utf8_length m \<le> 255 \<Longrightarrow>
          fst (repo_UpdateSent R ce i m s) = None"
    and failed_complete: "wf s \<Longrightarrow> faultless ce \<Longrightarrow> rows s i = Some n \<Longrightarrow>
          fst (repo_UpdateFailed R ce i m s) = None"
    and retry_complete: "wf s \<Longrightarrow> faultless ce \<Longrightarrow> rows s i = Some n \<Longrightarrow> n_RetryCount n < 2 ^ 31 - 1 \<Longrightarrow>
          fst (repo_IncrementRetry R ce i t s) = None"
begin

lemma status_written:
  "wf s \<Longrightarrow> repo_UpdateStatus R ce i st s = (None, s') \<Longrightarrow>
   \<exists>n. rows s i = Some n \<and> rows s' = (rows s)(i \<mapsto> set_status st (ce_now ce) n)"
  using status_writes [of s ce i st None s'] by (auto dest: row_write_must)

end

section \<open>The contract of the template store\<close>

locale template_store =
  fixes TR :: "'st TemplateRepository"
    and twf :: "'st \<Rightarrow> bool"
    and templates :: "'st \<Rightarrow> uuid \<Rightarrow> Template option"
  assumes template_get_sound: "twf s \<Longrightarrow> trepo_GetByID TR ce i s = Inr t \<Longrightarrow> templates s i = Some t"
    and template_create: "twf s \<Longrightarrow> trepo_Create TR ce t s = (Inr t', s') \<Longrightarrow>
          twf s' \<and> templates s (t_ID t') = None \<and> templates s' = (templates s)(t_ID t' \<mapsto> t') \<and>
          t_Content t' = t_Content t"

end
