(* ===== verification/Postgres.thy ===== *)
theory Postgres
  imports Repository
begin

text \<open>
  Package \<open>internal/repository/postgres\<close>, notifications. The store is the two tables of
  \<open>migrations/\<close>, as lists of rows; a row of \<open>notifications\<close> has one column per field of
  \<open>Notification\<close>, \<open>NULL\<close> being \<open>None\<close>. The SQL statements of the sources are modelled by
  their meaning on the tables, with the constraints and the trigger the migrations declare: the
  primary key, the unique idempotency key, the three \<open>CHECK\<close>s, the column types, and
  \<open>updated_at = NOW()\<close> on every update. What the server itself does to a value (cutting a
  \<open>varchar\<close>, normalising \<open>jsonb\<close>, the resolution of \<open>timestamptz\<close>, the text of an error)
  is the record \<open>pg_server\<close>, an argument; \<open>server_ok\<close> states what is documented of it.

  A statement can fail in the driver before or after it took effect, or be refused by the server
  with an SQLSTATE and no effect; every operation is modelled on all of these branches.
\<close>

section \<open>The database\<close>

record pg_state =
  pg_notifications :: "Notification list"
  pg_templates :: "Template list"

record pg_server =
  srv_varchar :: "nat \<Rightarrow> string \<Rightarrow> string option"
  srv_jsonb :: "string \<Rightarrow> string option"
  srv_timestamptz :: "time \<Rightarrow> time"
  srv_errtext :: "string \<Rightarrow> string"

text \<open>A \<open>varchar(k)\<close> takes any text of at most \<open>k\<close> characters as it is, and what it makes shorter it cuts to \<open>k\<close>.\<close>

definition server_ok :: "pg_server \<Rightarrow> bool" where
  "server_ok srv \<longleftrightarrow>
     (\<forall>k s. utf8_length s \<le> k \<longrightarrow> srv_varchar srv k s = Some s) \<and>
     (\<forall>k s s'. srv_varchar srv k s = Some s' \<longrightarrow> s' = s \<or> utf8_length s' = k)"

definition varchar_null :: "pg_server \<Rightarrow> nat \<Rightarrow> string option \<Rightarrow> string option option" where
  "varchar_null srv k v = (case v of None \<Rightarrow> Some None | Some s \<Rightarrow> map_option Some (srv_varchar srv k s))"

definition int4 :: "int \<Rightarrow> bool" where
  "int4 i \<longleftrightarrow> - (2 ^ 31) \<le> i \<and> i < 2 ^ 31"

definition chk_channel :: "string \<Rightarrow> bool" where
  "chk_channel ch \<longleftrightarrow> ch \<in> {''sms'', ''email'', ''push''}"

definition chk_status :: "string \<Rightarrow> bool" where
  "chk_status st \<longleftrightarrow>
     st \<in> {''pending'', ''queued'', ''processing'', ''sent'', ''delivered'', ''failed'', ''cancelled''}"

definition chk_priority :: "string \<Rightarrow> bool" where
  "chk_priority p \<longleftrightarrow> p \<in> {''high'', ''normal'', ''low''}"

definition row_checks :: "Notification \<Rightarrow> bool" where
  "row_checks r \<longleftrightarrow> int4 (n_RetryCount r) \<and> int4 (n_MaxRetries r) \<and>
     chk_channel (n_Channel r) \<and> chk_status (n_Status r) \<and> chk_priority (n_Priority r)"

text \<open>The row, or the SQLSTATE with which it is refused: out of range, or a violated \<open>CHECK\<close>.\<close>

definition check_row :: "Notification \<Rightarrow> string + Notification" where
  "check_row r =
     (if \<not> int4 (n_RetryCount r) \<or> \<not> int4 (n_MaxRetries r) then Inl ''22003''
      else if \<not> chk_channel (n_Channel r) \<or> \<not> chk_status (n_Status r) \<or> \<not> chk_priority (n_Priority r)
        then Inl ''23514''
      else Inr r)"

definition trigger_set_updated_at :: "time \<Rightarrow> Notification \<Rightarrow> Notification" where
  "trigger_set_updated_at now r = r\<lparr>n_UpdatedAt := now\<rparr>"

definition unique_violation :: "Notification list \<Rightarrow> Notification \<Rightarrow> bool" where
  "unique_violation rs r \<longleftrightarrow>
     list_ex (\<lambda>q. n_ID q = n_ID r \<or> n_IdempotencyKey r \<noteq> None \<and> n_IdempotencyKey q = n_IdempotencyKey r) rs"

text \<open>
  \<open>INSERT INTO notifications (id, batch_id, ..., metadata) VALUES ... RETURNING ...\<close>: the columns
  that are not listed take their defaults.
\<close>

definition insert_row :: "pg_server \<Rightarrow> time \<Rightarrow> Notification list \<Rightarrow> Notification \<Rightarrow> string + Notification" where
  "insert_row srv now rs n =
     (case (case n_Metadata n of None \<Rightarrow> Some None | Some m \<Rightarrow> map_option Some (srv_jsonb srv m)) of
        None \<Rightarrow> Inl ''22P02''
      | Some metadata \<Rightarrow>
          (case (varchar_null srv 255 (n_IdempotencyKey n), srv_varchar srv 255 (n_Recipient n),
                 srv_varchar srv 20 (n_Channel n), varchar_null srv 255 (n_Subject n),
                 srv_varchar srv 10 (n_Priority n), srv_varchar srv 20 (n_Status n)) of
             (Some key, Some recipient, Some channel, Some subject, Some priority, Some status) \<Rightarrow>
               (case check_row
                   \<lparr>n_ID = n_ID n, n_BatchID = n_BatchID n, n_IdempotencyKey = key, n_Recipient = recipient,
                    n_Channel = channel, n_Content = n_Content n, n_Subject = subject, n_Priority = priority,
                    n_Status = status, n_ProviderMessageID = None, n_RetryCount = n_RetryCount n,
                    n_MaxRetries = n_MaxRetries n, n_NextRetryAt = None,
                    n_ScheduledAt = map_option (srv_timestamptz srv) (n_ScheduledAt n),
                    n_SentAt = None, n_FailedAt = None, n_ErrorMessage = None, n_Metadata = metadata,
                    n_CreatedAt = now, n_UpdatedAt = now\<rparr> of
                  Inl code \<Rightarrow> Inl code
                | Inr r \<Rightarrow> if unique_violation rs r then Inl ''23505'' else Inr r)
           | _ \<Rightarrow> Inl ''22001''))"

text \<open>\<open>UPDATE ... WHERE\<close>: every matching row through \<open>f\<close>; the first refusal refuses the statement.\<close>

fun update_rows ::
    "(Notification \<Rightarrow> bool) \<Rightarrow> (Notification \<Rightarrow> string + Notification) \<Rightarrow> Notification list \<Rightarrow>
     string + nat \<times> Notification list" where
  "update_rows P f [] = Inr (0, [])"
| "update_rows P f (r # rs) =
     (case (if P r then f r else Inr r) of
        Inl code \<Rightarrow> Inl code
      | Inr r' \<Rightarrow>
          (case update_rows P f rs of
             Inl code \<Rightarrow> Inl code
           | Inr (k, rs') \<Rightarrow> Inr ((if P r then Suc k else k), r' # rs')))"

text \<open>One statement under a fault: the driver's error or the server's refusal, or its result.\<close>

datatype stmt_error = Driver string | Server string

definition run_stmt :: "net_fault \<Rightarrow> string + 'a \<times> 'st \<Rightarrow> 'st \<Rightarrow> (stmt_error + 'a) \<times> 'st" where
  "run_stmt fault outcome s =
     (case fault of
        LostBefore msg \<Rightarrow> (Inl (Driver msg), s)
      | LostAfter msg \<Rightarrow> (Inl (Driver msg), case outcome of Inl _ \<Rightarrow> s | Inr (_, s') \<Rightarrow> s')
      | NoFault \<Rightarrow> (case outcome of Inl code \<Rightarrow> (Inl (Server code), s) | Inr (a, s') \<Rightarrow> (Inr a, s')))"

fun stmt_text :: "pg_server \<Rightarrow> stmt_error \<Rightarrow> string" where
  "stmt_text srv (Driver msg) = msg"
| "stmt_text srv (Server code) = srv_errtext srv code"

section \<open>Reading rows\<close>

definition scanNotification :: "Notification \<Rightarrow> Notification" where
  "scanNotification row =
     \<lparr>n_ID = n_ID row,
      n_BatchID = (case n_BatchID row of None \<Rightarrow> None | Some v \<Rightarrow> Some v),
      n_IdempotencyKey = (case n_IdempotencyKey row of None \<Rightarrow> None | Some v \<Rightarrow> Some v),
      n_Recipient = n_Recipient row, n_Channel = n_Channel row, n_Content = n_Content row,
      n_Subject = (case n_Subject row of None \<Rightarrow> None | Some v \<Rightarrow> Some v),
      n_Priority = n_Priority row, n_Status = n_Status row,
      n_ProviderMessageID = (case n_ProviderMessageID row of None \<Rightarrow> None | Some v \<Rightarrow> Some v),
      n_RetryCount = n_RetryCount row, n_MaxRetries = n_MaxRetries row,
      n_NextRetryAt = (case n_NextRetryAt row of None \<Rightarrow> None | Some v \<Rightarrow> Some v),
      n_ScheduledAt = (case n_ScheduledAt row of None \<Rightarrow> None | Some v \<Rightarrow> Some v),
      n_SentAt = (case n_SentAt row of None \<Rightarrow> None | Some v \<Rightarrow> Some v),
      n_FailedAt = (case n_FailedAt row of None \<Rightarrow> None | Some v \<Rightarrow> Some v),
      n_ErrorMessage = (case n_ErrorMessage row of None \<Rightarrow> None | Some v \<Rightarrow> Some v),
      n_Metadata = (case n_Metadata row of None \<Rightarrow> None | Some v \<Rightarrow> Some v),
      n_CreatedAt = n_CreatedAt row, n_UpdatedAt = n_UpdatedAt row\<rparr>"

lemma case_option_id: "(case v of None \<Rightarrow> None | Some x \<Rightarrow> Some x) = v"
  by (cases v) simp_all

lemma scanNotification_id [simp]: "scanNotification row = row"
  by (simp add: scanNotification_def case_option_id)

text \<open>The loop over \<open>rows.Next()\<close> of a query whose result is \<open>rs\<close>.\<close>

definition read_rows :: "pg_server \<Rightarrow> call_env \<Rightarrow> string \<Rightarrow> string + Notification list \<Rightarrow> go_error + Notification list" where
  "read_rows srv ce what outcome =
     (case run_stmt (ce_fault ce 0) (map_sum id (\<lambda>rs. (rs, ())) outcome) () of
        (Inl e, _) \<Rightarrow> Inl (ErrOther (what @ stmt_text srv e))
      | (Inr rs, _) \<Rightarrow>
          (case ce_iter ce of
             ScanErr msg \<Rightarrow> if rs = [] then Inr [] else Inl (ErrOther (''scanning notification: '' @ msg))
           | RowsErr msg \<Rightarrow> Inl (ErrOther (''iterating rows: '' @ msg))
           | IterOk \<Rightarrow> Inr (map scanNotification rs)))"

text \<open>\<open>LIMIT\<close>; a negative one is an error of the server.\<close>

definition sql_limit :: "int \<Rightarrow> 'a list \<Rightarrow> string + 'a list" where
  "sql_limit k rs = (if k < 0 then Inl ''2201W'' else Inr (take (nat k) rs))"

section \<open>Operations\<close>

definition with_defaults :: "call_env \<Rightarrow> nat \<Rightarrow> Notification \<Rightarrow> Notification" where
  "with_defaults ce k n =
     (let n = (if n_ID n = uuid_Nil then n\<lparr>n_ID := ce_uuid ce k\<rparr> else n);
          n = (if n_Status n = [] then n\<lparr>n_Status := StatusPending\<rparr> else n);
          n = (if n_Priority n = [] then n\<lparr>n_Priority := PriorityNormal\<rparr> else n);
          n = (if n_MaxRetries n = 0 then n\<lparr>n_MaxRetries := 3\<rparr> else n)
      in n)"

definition insert_outcome :: "pg_server \<Rightarrow> time \<Rightarrow> pg_state \<Rightarrow> Notification \<Rightarrow> string + Notification \<times> pg_state" where
  "insert_outcome srv now s n =
     (case insert_row srv now (pg_notifications s) n of
        Inl code \<Rightarrow> Inl code
      | Inr r \<Rightarrow> Inr (r, s\<lparr>pg_notifications := pg_notifications s @ [r]\<rparr>))"

definition pg_Create :: "pg_server \<Rightarrow> call_env \<Rightarrow> Notification \<Rightarrow> pg_state \<Rightarrow> (go_error + Notification) \<times> pg_state" where
  "pg_Create srv ce n s =
     (case run_stmt (ce_fault ce 0) (insert_outcome srv (ce_now ce) s (with_defaults ce 0 n)) s of
        (Inl e, s') \<Rightarrow>
          (Inl (if e = Server ''23505'' then ErrConflict ''notification with this idempotency key already exists''
                else ErrOther (''creating notification: '' @ stmt_text srv e)), s')
      | (Inr r, s') \<Rightarrow>
          (case ce_iter ce of
             ScanErr msg \<Rightarrow> (Inl (ErrOther (''creating notification: '' @ msg)), s')
           | RowsErr msg \<Rightarrow> (Inl (ErrOther (''creating notification: '' @ msg)), s')
           | IterOk \<Rightarrow> (Inr (scanNotification r), s')))"

text \<open>
  The loop of \<open>CreateBatch\<close> inside its transaction, at item \<open>i\<close>; the statement faults are numbered
  from 1, the beginning of the transaction being 0. A transaction that is not committed leaves no
  trace, so an error returns no state.
\<close>

fun batch_inserts :: "pg_server \<Rightarrow> call_env \<Rightarrow> nat \<Rightarrow> Notification list \<Rightarrow> pg_state \<Rightarrow>
    go_error + Notification list \<times> pg_state" where
  "batch_inserts srv ce i [] s = Inr ([], s)"
| "batch_inserts srv ce i (n # ns) s =
     (case run_stmt (ce_fault ce (Suc i)) (insert_outcome srv (ce_now ce) s (with_defaults ce i n)) s of
        (Inl e, _) \<Rightarrow>
          Inl (if e = Server ''23505''
               then ErrConflict (''notification['' @ itoa (int i) @ ''] has a duplicate idempotency key'')
               else ErrOther (''creating notification['' @ itoa (int i) @ '']: '' @ stmt_text srv e))
      | (Inr r, s') \<Rightarrow>
          (case batch_inserts srv ce (Suc i) ns s' of
             Inl e \<Rightarrow> Inl e
           | Inr (rs, s'') \<Rightarrow> Inr (scanNotification r # rs, s'')))"

definition pg_CreateBatch ::
    "pg_server \<Rightarrow> call_env \<Rightarrow> Notification list \<Rightarrow> pg_state \<Rightarrow> (go_error + Notification list) \<times> pg_state" where
  "pg_CreateBatch srv ce ns s =
     (case run_stmt (ce_fault ce 0) (Inr ((), s)) s of
        (Inl e, _) \<Rightarrow> (Inl (ErrOther (''beginning transaction: '' @ stmt_text srv e)), s)
      | (Inr _, _) \<Rightarrow>
          (case batch_inserts srv ce 0 ns s of
             Inl e \<Rightarrow> (Inl e, s)
           | Inr (rs, s') \<Rightarrow>
               (case run_stmt (ce_fault ce (Suc (length ns))) (Inr ((), s')) s of
                  (Inl e, s'') \<Rightarrow> (Inl (ErrOther (''committing transaction: '' @ stmt_text srv e)), s'')
                | (Inr _, s'') \<Rightarrow> (Inr rs, s''))))"

definition pg_GetByID :: "uuid_pkg \<Rightarrow> pg_server \<Rightarrow> call_env \<Rightarrow> uuid \<Rightarrow> pg_state \<Rightarrow> go_error + Notification" where
  "pg_GetByID up srv ce i s =
     (case run_stmt (ce_fault ce 0) (Inr (filter (\<lambda>r. n_ID r = i) (pg_notifications s), s)) s of
        (Inl e, _) \<Rightarrow> Inl (ErrOther (''getting notification: '' @ stmt_text srv e))
      | (Inr [], _) \<Rightarrow> Inl (ErrNotFound ''notification'' (uuid_String up i))
      | (Inr (r # _), _) \<Rightarrow>
          (case ce_iter ce of
             ScanErr msg \<Rightarrow> Inl (ErrOther (''getting notification: '' @ msg))
           | RowsErr msg \<Rightarrow> Inl (ErrOther (''getting notification: '' @ msg))
           | IterOk \<Rightarrow> Inr (scanNotification r)))"

text \<open>\<open>ORDER BY created_at ASC\<close>: rows with equal times stay in the order the server scanned them.\<close>

definition pg_GetByBatchID :: "pg_server \<Rightarrow> call_env \<Rightarrow> uuid \<Rightarrow> pg_state \<Rightarrow> go_error + Notification list" where
  "pg_GetByBatchID srv ce b s =
     read_rows srv ce ''querying batch notifications: ''
       (Inr (sort_key n_CreatedAt (ce_scan ce (filter (\<lambda>r. n_BatchID r = Some b) (pg_notifications s)))))"

text \<open>
  An update that has run: the error it is reported with, or that no row matched.
\<close>

definition affected_rows :: "uuid_pkg \<Rightarrow> pg_server \<Rightarrow> call_env \<Rightarrow> string \<Rightarrow> uuid \<Rightarrow> (stmt_error + nat) \<times> pg_state \<Rightarrow>
    go_error option \<times> pg_state" where
  "affected_rows up srv ce what i out =
     (case out of
        (Inl e, s') \<Rightarrow> (Some (ErrOther (what @ stmt_text srv e)), s')
      | (Inr k, s') \<Rightarrow>
          (case ce_affected ce of
             Some msg \<Rightarrow> (Some (ErrOther (''checking rows affected: '' @ msg)), s')
           | None \<Rightarrow> if k = 0 then (Some (ErrNotFound ''notification'' (uuid_String up i)), s') else (None, s')))"

definition exec_update ::
    "net_fault \<Rightarrow> (Notification \<Rightarrow> bool) \<Rightarrow> (Notification \<Rightarrow> string + Notification) \<Rightarrow> pg_state \<Rightarrow>
     (stmt_error + nat) \<times> pg_state" where
  "exec_update fault P f s =
     run_stmt fault (map_sum id (\<lambda>(k, rs). (k, s\<lparr>pg_notifications := rs\<rparr>)) (update_rows P f (pg_notifications s))) s"

definition update_status_row :: "pg_server \<Rightarrow> time \<Rightarrow> string \<Rightarrow> Notification \<Rightarrow> string + Notification" where
  "update_status_row srv now st r =
     (case srv_varchar srv 20 st of
        None \<Rightarrow> Inl ''22001''
      | Some st' \<Rightarrow> check_row (trigger_set_updated_at now (r\<lparr>n_Status := st', n_UpdatedAt := now\<rparr>)))"

definition pg_UpdateStatus :: "uuid_pkg \<Rightarrow> pg_server \<Rightarrow> call_env \<Rightarrow> uuid \<Rightarrow> string \<Rightarrow> pg_state \<Rightarrow> go_error option \<times> pg_state" where
  "pg_UpdateStatus up srv ce i st s =
     affected_rows up srv ce ''updating status: '' i
       (exec_update (ce_fault ce 0) (\<lambda>r. n_ID r = i) (update_status_row srv (ce_now ce) st) s)"

definition pg_UpdateSent :: "uuid_pkg \<Rightarrow> pg_server \<Rightarrow> call_env \<Rightarrow> uuid \<Rightarrow> string \<Rightarrow> pg_state \<Rightarrow> go_error option \<times> pg_state" where
  "pg_UpdateSent up srv ce i providerMessageID s =
     affected_rows up srv ce ''updating to sent: '' i
       (exec_update (ce_fault ce 0) (\<lambda>r. n_ID r = i)
          (\<lambda>r. case srv_varchar srv 255 providerMessageID of
             None \<Rightarrow> Inl ''22001''
           | Some m \<Rightarrow> check_row (trigger_set_updated_at (ce_now ce)
               (r\<lparr>n_Status := ''sent'', n_SentAt := Some (ce_now ce), n_ProviderMessageID := Some m\<rparr>))) s)"

definition pg_UpdateFailed :: "uuid_pkg \<Rightarrow> pg_server \<Rightarrow> call_env \<Rightarrow> uuid \<Rightarrow> string \<Rightarrow> pg_state \<Rightarrow> go_error option \<times> pg_state" where
  "pg_UpdateFailed up srv ce i errorMessage s =
     affected_rows up srv ce ''updating to failed: '' i
       (exec_update (ce_fault ce 0) (\<lambda>r. n_ID r = i)
          (\<lambda>r. check_row (trigger_set_updated_at (ce_now ce)
             (r\<lparr>n_Status := ''failed'', n_FailedAt := Some (ce_now ce), n_ErrorMessage := Some errorMessage\<rparr>))) s)"

definition pg_IncrementRetry :: "uuid_pkg \<Rightarrow> pg_server \<Rightarrow> call_env \<Rightarrow> uuid \<Rightarrow> time \<Rightarrow> pg_state \<Rightarrow> go_error option \<times> pg_state" where
  "pg_IncrementRetry up srv ce i nextRetryAt s =
     affected_rows up srv ce ''incrementing retry: '' i
       (exec_update (ce_fault ce 0) (\<lambda>r. n_ID r = i)
          (\<lambda>r. check_row (trigger_set_updated_at (ce_now ce)
             (r\<lparr>n_RetryCount := n_RetryCount r + 1, n_NextRetryAt := Some (srv_timestamptz srv nextRetryAt)\<rparr>))) s)"

text \<open>\<open>Cancel\<close> asks a second question, whether the row exists, when its update matched nothing.\<close>

definition cancellable :: "Notification \<Rightarrow> bool" where
  "cancellable r \<longleftrightarrow> n_Status r \<in> {''pending'', ''queued''}"

definition pg_Cancel :: "uuid_pkg \<Rightarrow> pg_server \<Rightarrow> call_env \<Rightarrow> uuid \<Rightarrow> pg_state \<Rightarrow> go_error option \<times> pg_state" where
  "pg_Cancel up srv ce i s =
     (case exec_update (ce_fault ce 0) (\<lambda>r. n_ID r = i \<and> cancellable r)
             (\<lambda>r. check_row (trigger_set_updated_at (ce_now ce)
                (r\<lparr>n_Status := ''cancelled'', n_UpdatedAt := ce_now ce\<rparr>))) s of
        (Inl e, s') \<Rightarrow> (Some (ErrOther (''cancelling notification: '' @ stmt_text srv e)), s')
      | (Inr k, s') \<Rightarrow>
          (case ce_affected ce of
             Some msg \<Rightarrow> (Some (ErrOther (''checking rows affected: '' @ msg)), s')
           | None \<Rightarrow>
               if k = 0 then
                 (case run_stmt (ce_fault ce 1) (Inr (list_ex (\<lambda>r. n_ID r = i) (pg_notifications s'), s')) s' of
                    (Inl e, _) \<Rightarrow> (Some (ErrOther (''checking notification existence: '' @ stmt_text srv e)), s')
                  | (Inr ex, _) \<Rightarrow>
                      if \<not> ex then (Some (ErrNotFound ''notification'' (uuid_String up i)), s')
                      else (Some (ErrConflict ''notification cannot be cancelled in its current status''), s'))
               else (None, s')))"

definition scheduled_ready :: "time \<Rightarrow> Notification \<Rightarrow> bool" where
  "scheduled_ready now r \<longleftrightarrow>
     n_Status r = ''pending'' \<and> (case n_ScheduledAt r of None \<Rightarrow> False | Some t \<Rightarrow> t \<le> now)"

definition pg_GetScheduledReady :: "pg_server \<Rightarrow> call_env \<Rightarrow> int \<Rightarrow> pg_state \<Rightarrow> go_error + Notification list" where
  "pg_GetScheduledReady srv ce limit s =
     read_rows srv ce ''querying scheduled notifications: ''
       (sql_limit limit (sort_key (\<lambda>r. the (n_ScheduledAt r))
          (ce_scan ce (filter (scheduled_ready (ce_now ce)) (pg_notifications s)))))"

section \<open>Invariant and contract\<close>

definition pg_rows :: "pg_state \<Rightarrow> uuid \<Rightarrow> Notification option" where
  "pg_rows s i = find (\<lambda>r. n_ID r = i) (pg_notifications s)"

definition idempotency_keys :: "Notification list \<Rightarrow> string list" where
  "idempotency_keys rs = concat (map (\<lambda>r. case n_IdempotencyKey r of None \<Rightarrow> [] | Some key \<Rightarrow> [key]) rs)"

definition pg_wf :: "pg_server \<Rightarrow> pg_state \<Rightarrow> bool" where
  "pg_wf srv s \<longleftrightarrow> server_ok srv \<and> distinct (map n_ID (pg_notifications s)) \<and>
     distinct (idempotency_keys (pg_notifications s)) \<and> list_all row_checks (pg_notifications s)"

lemma pg_rows_iff:
  "distinct (map n_ID (pg_notifications s)) \<Longrightarrow>
   pg_rows s i = Some n \<longleftrightarrow> n \<in> set (pg_notifications s) \<and> n_ID n = i"
  by (auto simp: pg_rows_def dest: find_Some_set find_distinct_key)

lemma check_row_Inr: "check_row r = Inr r' \<longleftrightarrow> r' = r \<and> row_checks r"
  by (auto simp: check_row_def row_checks_def)

lemma check_row_Inl: "check_row r = Inl code \<Longrightarrow> \<not> row_checks r \<and> code \<in> {''22003'', ''23514''}"
  by (auto simp: check_row_def row_checks_def split: if_splits)

lemma idempotency_keys_map:
  "map n_IdempotencyKey rs = map n_IdempotencyKey rs' \<Longrightarrow> idempotency_keys rs = idempotency_keys rs'"
proof -
  have "idempotency_keys rs = concat (map (\<lambda>k. case k of None \<Rightarrow> [] | Some key \<Rightarrow> [key]) (map n_IdempotencyKey rs))"
    for rs by (simp add: idempotency_keys_def o_def)
  then show "map n_IdempotencyKey rs = map n_IdempotencyKey rs' \<Longrightarrow> idempotency_keys rs = idempotency_keys rs'"
    by metis
qed

subsection \<open>Updates\<close>

text \<open>\<open>f\<close> either refuses a row or turns it into \<open>g\<close> of it, a row that satisfies the constraints.\<close>

definition row_update :: "(Notification \<Rightarrow> string + Notification) \<Rightarrow> (Notification \<Rightarrow> Notification) \<Rightarrow> bool" where
  "row_update f g \<longleftrightarrow> (\<forall>r r'. f r = Inr r' \<longrightarrow> r' = g r \<and> row_checks r') \<and>
     (\<forall>r. n_ID (g r) = n_ID r \<and> n_IdempotencyKey (g r) = n_IdempotencyKey r)"

lemma update_rows_none: "(\<forall>r \<in> set rs. \<not> P r) \<Longrightarrow> update_rows P f rs = Inr (0, rs)"
  by (induction rs) auto

lemma update_rows_keeps:
  "row_update f g \<Longrightarrow> update_rows P f rs = Inr (k, rs') \<Longrightarrow>
   map n_ID rs' = map n_ID rs \<and> map n_IdempotencyKey rs' = map n_IdempotencyKey rs \<and>
   (list_all row_checks rs \<longrightarrow> list_all row_checks rs')"
proof (induction rs arbitrary: k rs')
  case Nil
  then show ?case by simp
next
  case (Cons r rs)
  then show ?case
    by (fastforce simp: row_update_def split: sum.splits prod.splits if_splits)
qed

lemma update_rows_one:
  assumes "row_update f g" and "\<And>r. P r \<Longrightarrow> n_ID r = i"
  shows "update_rows P f rs = Inr (k, rs') \<Longrightarrow> distinct (map n_ID rs) \<Longrightarrow>
    (k = 0 \<and> rs' = rs \<and> (\<forall>r \<in> set rs. \<not> P r)) \<or>
    (0 < k \<and> (\<exists>r. find (\<lambda>r. n_ID r = i) rs = Some r \<and> P r \<and>
       (\<lambda>j. find (\<lambda>r. n_ID r = j) rs') = (\<lambda>j. find (\<lambda>r. n_ID r = j) rs)(i \<mapsto> g r)))"
proof (induction rs arbitrary: k rs')
  case Nil
  then show ?case by simp
next
  case (Cons r rs)
  show ?case
  proof (cases "P r")
    case True
    then have others: "\<forall>q \<in> set rs. \<not> P q"
      using Cons.prems(2) assms(2) by (auto simp: rev_image_eqI)
    with True Cons.prems(1) have "k = 1" and rs': "rs' = g r # rs"
      using assms(1) by (auto simp: update_rows_none row_update_def split: sum.splits)
    have "n_ID (g r) = n_ID r" "n_ID r = i" using assms True by (auto simp: row_update_def)
    with True \<open>k = 1\<close> rs' show ?thesis by (auto simp: fun_eq_iff)
  next
    case False
    then obtain rs2 where rs2: "update_rows P f rs = Inr (k, rs2)" "rs' = r # rs2"
      using Cons.prems(1) by (auto split: sum.splits)
    have ids: "map n_ID rs2 = map n_ID rs"
      using update_rows_keeps [OF assms(1) rs2(1)] by simp
    from Cons.IH [OF rs2(1)] Cons.prems(2) consider
        "k = 0" "rs2 = rs" "\<forall>r \<in> set rs. \<not> P r"
      | q where "0 < k" "find (\<lambda>r. n_ID r = i) rs = Some q" "P q"
          "(\<lambda>j. find (\<lambda>r. n_ID r = j) rs2) = (\<lambda>j. find (\<lambda>r. n_ID r = j) rs)(i \<mapsto> g q)"
      unfolding list.map distinct.simps by blast
    then show ?thesis
    proof cases
      case 1
      with False rs2 show ?thesis by simp
    next
      case 2
      have "n_ID r \<noteq> i"
        using 2(2) Cons.prems(2) by (auto dest!: find_Some_set simp: rev_image_eqI)
      with 2 rs2 show ?thesis by (auto simp: fun_eq_iff)
    qed
  qed
qed

lemma pg_rows_update: "pg_rows (s\<lparr>pg_notifications := rs\<rparr>) = (\<lambda>j. find (\<lambda>r. n_ID r = j) rs)"
  by (rule ext) (simp add: pg_rows_def)

text \<open>What one \<open>UPDATE\<close> of the row \<open>i\<close> does to the table, whatever happens to the statement.\<close>

lemma exec_update_writes:
  assumes wf: "pg_wf srv s" and f: "row_update f g" and P: "\<And>r. P r \<Longrightarrow> n_ID r = i"
    and exec: "exec_update fault P f s = (out, s')"
  shows "pg_wf srv s' \<and> row_write (pg_rows s) (pg_rows s') i g (\<exists>k > 0. out = Inr k) \<and>
    (out = Inr 0 \<longrightarrow> s' = s \<and> (\<forall>r \<in> set (pg_notifications s). \<not> P r)) \<and>
    (pg_rows s' \<noteq> pg_rows s \<or> (\<exists>k > 0. out = Inr k) \<longrightarrow> (\<exists>n. pg_rows s i = Some n \<and> P n))"
proof (cases "update_rows P f (pg_notifications s)")
  case (Inl code)
  then have "s' = s" and "\<nexists>k. out = Inr k"
    using exec by (auto simp: exec_update_def run_stmt_def split: net_fault.splits)
  with wf show ?thesis by (auto simp: row_write_def)
next
  case (Inr kr)
  obtain k rs where u: "update_rows P f (pg_notifications s) = Inr (k, rs)"
    using Inr by (cases kr) auto
  let ?s = "s\<lparr>pg_notifications := rs\<rparr>"
  have dist: "distinct (map n_ID (pg_notifications s))" using wf by (simp add: pg_wf_def)
  have wf': "pg_wf srv ?s"
    using update_rows_keeps [OF f u] wf
    by (auto simp: pg_wf_def dest: idempotency_keys_map)
  have cases: "(s' = s \<and> \<not> (\<exists>k. out = Inr k)) \<or> (s' = ?s \<and> (out = Inr k \<or> \<not> (\<exists>k. out = Inr k)))"
    using exec u by (auto simp: exec_update_def run_stmt_def split: net_fault.splits)
  from update_rows_one [OF f P u dist] consider
      "k = 0" "rs = pg_notifications s" "\<forall>r \<in> set (pg_notifications s). \<not> P r"
    | r where "0 < k" "pg_rows s i = Some r" "P r" "pg_rows ?s = (pg_rows s)(i \<mapsto> g r)"
    by (auto simp: pg_rows_update pg_rows_def [abs_def])
  then show ?thesis
  proof cases
    case 1
    with cases have "s' = s" and "out = Inr 0 \<or> \<not> (\<exists>k. out = Inr k)" by auto
    with 1(3) wf show ?thesis by (auto simp: row_write_def)
  next
    case 2
    with cases wf wf' show ?thesis by (auto simp: row_write_def)
  qed
qed

lemma affected_rows_writes:
  assumes "pg_wf srv s" and "row_update f g" and "\<And>r. P r \<Longrightarrow> n_ID r = i"
    and "affected_rows up srv ce what i (exec_update fault P f s) = (e, s')"
  shows "pg_wf srv s' \<and> row_write (pg_rows s) (pg_rows s') i g (e = None)"
proof -
  obtain out s2 where out: "exec_update fault P f s = (out, s2)" by force
  have "s2 = s'" and ok: "e = None \<longrightarrow> (\<exists>k > 0. out = Inr k)"
    using assms(4) out by (auto simp: affected_rows_def split: sum.splits option.splits if_splits)
  with exec_update_writes [OF assms(1-3) out] show ?thesis
    using row_write_weaken [OF _ ok] by blast
qed

text \<open>The row functions of the five updates.\<close>

lemma legal_status_short: "chk_status st \<Longrightarrow> utf8_length st < 20"
  unfolding chk_status_def by (elim insertE emptyE) (simp_all add: utf8_length_def)

lemma update_status_row_update: "server_ok srv \<Longrightarrow> row_update (update_status_row srv now st) (set_status st now)"
  using legal_status_short
  by (fastforce simp: row_update_def update_status_row_def check_row_Inr set_status_def server_ok_def
      trigger_set_updated_at_def row_checks_def split: option.splits)

lemma check_row_update:
  "(\<And>r. n_ID (h r) = n_ID r \<and> n_IdempotencyKey (h r) = n_IdempotencyKey r) \<Longrightarrow>
   row_update (\<lambda>r. check_row (h r)) h"
  by (auto simp: row_update_def check_row_Inr)

definition stored_text :: "pg_server \<Rightarrow> string \<Rightarrow> string" where
  "stored_text srv m = (case srv_varchar srv 255 m of None \<Rightarrow> m | Some m' \<Rightarrow> m')"

lemma pg_UpdateStatus_writes:
  "pg_wf srv s \<Longrightarrow> pg_UpdateStatus up srv ce i st s = (e, s') \<Longrightarrow>
   pg_wf srv s' \<and> row_write (pg_rows s) (pg_rows s') i (set_status st (ce_now ce)) (e = None)"
  unfolding pg_UpdateStatus_def
  by (rule affected_rows_writes) (auto intro: update_status_row_update simp: pg_wf_def)

lemma pg_UpdateSent_writes:
  "pg_wf srv s \<Longrightarrow> pg_UpdateSent up srv ce i m s = (e, s') \<Longrightarrow>
   pg_wf srv s' \<and> row_write (pg_rows s) (pg_rows s') i (set_sent (stored_text srv m) (ce_now ce)) (e = None)"
  unfolding pg_UpdateSent_def
  by (rule affected_rows_writes)
    (auto simp: row_update_def check_row_Inr set_sent_def stored_text_def trigger_set_updated_at_def
      StatusSent_def split: option.splits)

lemma pg_UpdateFailed_writes:
  "pg_wf srv s \<Longrightarrow> pg_UpdateFailed up srv ce i m s = (e, s') \<Longrightarrow>
   pg_wf srv s' \<and> row_write (pg_rows s) (pg_rows s') i (set_failed m (ce_now ce)) (e = None)"
  unfolding pg_UpdateFailed_def
  by (rule affected_rows_writes)
    (auto simp: row_update_def check_row_Inr set_failed_def trigger_set_updated_at_def StatusFailed_def)

lemma pg_IncrementRetry_writes:
  "pg_wf srv s \<Longrightarrow> pg_IncrementRetry up srv ce i t s = (e, s') \<Longrightarrow>
   pg_wf srv s' \<and> row_write (pg_rows s) (pg_rows s') i (set_retry (srv_timestamptz srv t) (ce_now ce)) (e = None)"
  unfolding pg_IncrementRetry_def
  by (rule affected_rows_writes)
    (auto simp: row_update_def check_row_Inr set_retry_def trigger_set_updated_at_def)

lemma cancel_row_update:
  "row_update (\<lambda>r. check_row (trigger_set_updated_at now (r\<lparr>n_Status := ''cancelled'', n_UpdatedAt := now\<rparr>)))
     (set_status StatusCancelled now)"
  by (auto simp: row_update_def check_row_Inr set_status_def trigger_set_updated_at_def StatusCancelled_def)

lemma pg_Cancel_writes:
  assumes "pg_wf srv s" and "pg_Cancel up srv ce i s = (e, s')"
  shows "pg_wf srv s' \<and> row_write (pg_rows s) (pg_rows s') i (set_status StatusCancelled (ce_now ce)) (e = None) \<and>
    (e = None \<or> pg_rows s' \<noteq> pg_rows s \<longrightarrow> (\<exists>n. pg_rows s i = Some n \<and> cancellable n))"
proof -
  let ?P = "\<lambda>r. n_ID r = i \<and> cancellable r"
  let ?f = "\<lambda>r. check_row (trigger_set_updated_at (ce_now ce) (r\<lparr>n_Status := ''cancelled'', n_UpdatedAt := ce_now ce\<rparr>))"
  obtain out s2 where out: "exec_update (ce_fault ce 0) ?P ?f s = (out, s2)" by force
  have "s2 = s'" and ok: "e = None \<longrightarrow> (\<exists>k > 0. out = Inr k)"
    using assms(2) out
    by (auto simp: pg_Cancel_def run_stmt_def split: sum.splits option.splits if_splits net_fault.splits)
  with exec_update_writes [OF assms(1) cancel_row_update _ out, of i] show ?thesis
    using row_write_weaken [OF _ ok] ok by blast
qed

section \<open>A server for examples\<close>

definition any_server :: pg_server where
  "any_server = \<lparr>srv_varchar = (\<lambda>k s. if utf8_length s \<le> k then Some s else None), srv_jsonb = Some,
     srv_timestamptz = (\<lambda>t. t), srv_errtext = (\<lambda>code. ''pq: '' @ code)\<rparr>"

lemma any_server_ok [simp]: "server_ok any_server"
  by (simp add: server_ok_def any_server_def)

end
