(* ===== verification/Listing.thy ===== *)
theory Listing
  imports Postgres
begin

text \<open>
  \<open>List\<close> of \<open>internal/repository/postgres/notification.go\<close>: the query with its numbered placeholders
  and the arguments they refer to, the keyset condition on \<open>(created_at, id)\<close>, the extra row that
  decides \<open>HasMore\<close>, and the cursor of the next page. The lemmas show that every placeholder the
  builder writes names the argument meant, so that the query selects the rows the filters describe,
  and that following the cursors walks the whole listing.
\<close>

section \<open>The query\<close>

datatype sql_arg = SqlText string | SqlTime time | SqlUuid uuid | SqlInt int

datatype sql_cond =
    ColEq string nat
  | CreatedGe nat
  | CreatedLe nat
  | KeyLt nat nat

fun cond_text :: "sql_cond \<Rightarrow> string" where
  "cond_text (ColEq col i) = '' AND '' @ col @ '' = $'' @ itoa (int i)"
| "cond_text (CreatedGe i) = '' AND created_at >= $'' @ itoa (int i)"
| "cond_text (CreatedLe i) = '' AND created_at <= $'' @ itoa (int i)"
| "cond_text (KeyLt i j) = '' AND (created_at, id) < ($'' @ itoa (int i) @ '', $'' @ itoa (int j) @ '')''"

record list_query =
  q_conds :: "sql_cond list"
  q_args :: "sql_arg list"
  q_idx :: nat

definition add_filter :: "(nat \<Rightarrow> sql_cond) \<Rightarrow> ('a \<Rightarrow> sql_arg) \<Rightarrow> 'a option \<Rightarrow> list_query \<Rightarrow> list_query" where
  "add_filter cond arg v q =
     (case v of
        None \<Rightarrow> q
      | Some x \<Rightarrow> \<lparr>q_conds = q_conds q @ [cond (q_idx q)], q_args = q_args q @ [arg x], q_idx = q_idx q + 1\<rparr>)"

definition add_cursor :: "Cursor option \<Rightarrow> list_query \<Rightarrow> list_query" where
  "add_cursor cursor q =
     (case cursor of
        None \<Rightarrow> q
      | Some c \<Rightarrow> \<lparr>q_conds = q_conds q @ [KeyLt (q_idx q) (q_idx q + 1)],
                   q_args = q_args q @ [SqlTime (cu_CreatedAt c), SqlUuid (cu_ID c)], q_idx = q_idx q + 2\<rparr>)"

definition where_query :: "ListFilters \<Rightarrow> Cursor option \<Rightarrow> list_query" where
  "where_query filters cursor =
     (let q = \<lparr>q_conds = [], q_args = [], q_idx = 1\<rparr>;
          q = add_filter (ColEq ''status'') SqlText (lf_Status filters) q;
          q = add_filter (ColEq ''channel'') SqlText (lf_Channel filters) q;
          q = add_filter (ColEq ''priority'') SqlText (lf_Priority filters) q;
          q = add_filter CreatedGe SqlTime (lf_CreatedAfter filters) q;
          q = add_filter CreatedLe SqlTime (lf_CreatedBefore filters) q
      in add_cursor cursor q)"

definition notificationColumns :: string where
  "notificationColumns =
     ''id, batch_id, idempotency_key, recipient, channel, content, subject, '' @
     ''priority, status, provider_message_id, retry_count, max_retries, next_retry_at, '' @
     ''scheduled_at, sent_at, failed_at, error_message, metadata, created_at, updated_at''"

definition query_text :: "list_query \<Rightarrow> string" where
  "query_text q = ''SELECT '' @ notificationColumns @ '' FROM notifications WHERE 1=1'' @
     concat (map cond_text (q_conds q)) @ '' ORDER BY created_at DESC, id DESC'' @
     '' LIMIT $'' @ itoa (int (q_idx q))"

section \<open>What the server makes of it\<close>

text \<open>
  A placeholder reads its argument; a condition on a column of another type, or a placeholder
  without argument, is refused.
\<close>

definition sql_param :: "sql_arg list \<Rightarrow> nat \<Rightarrow> sql_arg option" where
  "sql_param args i = (if 1 \<le> i \<and> i \<le> length args then Some (args ! (i - 1)) else None)"

definition text_column :: "string \<Rightarrow> (Notification \<Rightarrow> string) option" where
  "text_column col =
     (if col = ''status'' then Some n_Status
      else if col = ''channel'' then Some n_Channel
      else if col = ''priority'' then Some n_Priority
      else None)"

fun cond_meaning :: "pg_server \<Rightarrow> sql_arg list \<Rightarrow> sql_cond \<Rightarrow> (Notification \<Rightarrow> bool) option" where
  "cond_meaning srv args (ColEq col i) =
     (case (text_column col, sql_param args i) of
        (Some f, Some (SqlText v)) \<Rightarrow> Some (\<lambda>r. f r = v)
      | _ \<Rightarrow> None)"
| "cond_meaning srv args (CreatedGe i) =
     (case sql_param args i of
        Some (SqlTime t) \<Rightarrow> Some (\<lambda>r. srv_timestamptz srv t \<le> n_CreatedAt r)
      | _ \<Rightarrow> None)"
| "cond_meaning srv args (CreatedLe i) =
     (case sql_param args i of
        Some (SqlTime t) \<Rightarrow> Some (\<lambda>r. n_CreatedAt r \<le> srv_timestamptz srv t)
      | _ \<Rightarrow> None)"
| "cond_meaning srv args (KeyLt i j) =
     (case (sql_param args i, sql_param args j) of
        (Some (SqlTime t), Some (SqlUuid u)) \<Rightarrow> Some (\<lambda>r. (n_CreatedAt r, n_ID r) < (srv_timestamptz srv t, u))
      | _ \<Rightarrow> None)"

fun conds_meaning :: "pg_server \<Rightarrow> sql_arg list \<Rightarrow> sql_cond list \<Rightarrow> (Notification \<Rightarrow> bool) option" where
  "conds_meaning srv args [] = Some (\<lambda>r. True)"
| "conds_meaning srv args (c # cs) =
     (case (cond_meaning srv args c, conds_meaning srv args cs) of
        (Some P, Some Q) \<Rightarrow> Some (\<lambda>r. P r \<and> Q r)
      | _ \<Rightarrow> None)"

definition row_key :: "Notification \<Rightarrow> time \<times> uuid" where
  "row_key r = (n_CreatedAt r, n_ID r)"

definition newest_first :: "Notification list \<Rightarrow> Notification list" where
  "newest_first rs = rev (sort_key row_key rs)"

definition run_query :: "pg_server \<Rightarrow> call_env \<Rightarrow> list_query \<Rightarrow> sql_arg list \<Rightarrow> pg_state \<Rightarrow> string + Notification list" where
  "run_query srv ce q args s =
     (case (conds_meaning srv args (q_conds q), sql_param args (q_idx q)) of
        (Some P, Some (SqlInt k)) \<Rightarrow>
          sql_limit k (newest_first (ce_scan ce (filter P (pg_notifications s))))
      | _ \<Rightarrow> Inl ''42P02'')"

section \<open>The operation\<close>

definition pg_List :: "pg_server \<Rightarrow> cursor_json \<Rightarrow> call_env \<Rightarrow> ListFilters \<Rightarrow> Cursor option \<Rightarrow> int \<Rightarrow> pg_state \<Rightarrow>
    go_error + ListResult" where
  "pg_List srv cj ce filters cursor limit s =
     (let limit = (if limit \<le> 0 then 20 else limit);
          q = where_query filters cursor;
          args = q_args q @ [SqlInt (wrap64 (limit + 1))]
      in case read_rows srv ce ''listing notifications: '' (run_query srv ce q args s) of
           Inl e \<Rightarrow> Inl e
         | Inr notifications \<Rightarrow>
             if limit < int (length notifications) then
               (let page = take (nat limit) notifications;
                    lst = last page
                in Inr \<lparr>lr_Notifications = page,
                        lr_NextCursor = Encode cj \<lparr>cu_CreatedAt = n_CreatedAt lst, cu_ID = n_ID lst\<rparr>,
                        lr_HasMore = True\<rparr>)
             else Inr \<lparr>lr_Notifications = notifications, lr_NextCursor = [], lr_HasMore = False\<rparr>)"

section \<open>The rows selected\<close>

text \<open>What the filters and the cursor ask for, without a query.\<close>

definition opt_holds :: "('a \<Rightarrow> bool) \<Rightarrow> 'a option \<Rightarrow> bool" where
  "opt_holds P v = (case v of None \<Rightarrow> True | Some x \<Rightarrow> P x)"

definition matches :: "pg_server \<Rightarrow> ListFilters \<Rightarrow> Notification \<Rightarrow> bool" where
  "matches srv fl r \<longleftrightarrow>
     opt_holds (\<lambda>v. n_Status r = v) (lf_Status fl) \<and> opt_holds (\<lambda>v. n_Channel r = v) (lf_Channel fl) \<and>
     opt_holds (\<lambda>v. n_Priority r = v) (lf_Priority fl) \<and>
     opt_holds (\<lambda>t. srv_timestamptz srv t \<le> n_CreatedAt r) (lf_CreatedAfter fl) \<and>
     opt_holds (\<lambda>t. n_CreatedAt r \<le> srv_timestamptz srv t) (lf_CreatedBefore fl)"

definition below :: "pg_server \<Rightarrow> Cursor option \<Rightarrow> Notification \<Rightarrow> bool" where
  "below srv c r = opt_holds (\<lambda>c. row_key r < (srv_timestamptz srv (cu_CreatedAt c), cu_ID c)) c"

text \<open>The invariant of the builder: the next index is one past the arguments, and the conditions mean \<open>P\<close>.\<close>

definition query_means :: "pg_server \<Rightarrow> list_query \<Rightarrow> (Notification \<Rightarrow> bool) \<Rightarrow> bool" where
  "query_means srv q P \<longleftrightarrow> q_idx q = length (q_args q) + 1 \<and>
     (\<forall>ext. conds_meaning srv (q_args q @ ext) (q_conds q) = Some P)"

lemma conds_meaning_append:
  "conds_meaning srv args (cs @ [c]) =
     (case (conds_meaning srv args cs, cond_meaning srv args c) of
        (Some P, Some Q) \<Rightarrow> Some (\<lambda>r. P r \<and> Q r) | _ \<Rightarrow> None)"
  by (induction cs) (auto split: option.splits)

lemma sql_param_next [simp]:
  "sql_param (args @ a # ext) (Suc (length args)) = Some a"
  "sql_param (args @ a # b # ext) (Suc (Suc (length args))) = Some b"
  by (simp_all add: sql_param_def nth_append)

lemma add_filter_means:
  assumes "query_means srv q P"
    and "\<And>args x ext. cond_meaning srv (args @ arg x # ext) (cond (length args + 1)) = Some (Q x)"
  shows "query_means srv (add_filter cond arg v q) (\<lambda>r. P r \<and> opt_holds (\<lambda>x. Q x r) v)"
  using assms by (auto simp: query_means_def add_filter_def opt_holds_def conds_meaning_append split: option.splits)

lemma add_cursor_means:
  "query_means srv q P \<Longrightarrow> query_means srv (add_cursor c q) (\<lambda>r. P r \<and> below srv c r)"
  by (auto simp: query_means_def add_cursor_def below_def opt_holds_def conds_meaning_append row_key_def
      split: option.splits)

lemma where_query_means: "query_means srv (where_query fl c) (\<lambda>r. matches srv fl r \<and> below srv c r)"
proof -
  have empty: "query_means srv \<lparr>q_conds = [], q_args = [], q_idx = 1\<rparr> (\<lambda>r. True)"
    by (simp add: query_means_def)
  have eqs: "cond_meaning srv (args @ SqlText x # ext) (ColEq col (length args + 1)) = Some (\<lambda>r. f r = x)"
    if "text_column col = Some f" for args x ext col f
    using that by simp
  show ?thesis
    using add_cursor_means [of srv _ _ c, OF add_filter_means [of srv _ _ SqlTime CreatedLe "\<lambda>t r. n_CreatedAt r \<le> srv_timestamptz srv t" "lf_CreatedBefore fl",
      OF add_filter_means [of srv _ _ SqlTime CreatedGe "\<lambda>t r. srv_timestamptz srv t \<le> n_CreatedAt r" "lf_CreatedAfter fl",
      OF add_filter_means [of srv _ _ SqlText "ColEq ''priority''" "\<lambda>v r. n_Priority r = v" "lf_Priority fl",
      OF add_filter_means [of srv _ _ SqlText "ColEq ''channel''" "\<lambda>v r. n_Channel r = v" "lf_Channel fl",
      OF add_filter_means [of srv _ _ SqlText "ColEq ''status''" "\<lambda>v r. n_Status r = v" "lf_Status fl", OF empty]]]]]]
    by (simp add: where_query_def matches_def eqs text_column_def conj_assoc)
qed

lemma run_query_selects:
  "run_query srv ce (where_query fl c) (q_args (where_query fl c) @ [SqlInt k]) s =
     sql_limit k (newest_first (ce_scan ce (filter (\<lambda>r. matches srv fl r \<and> below srv c r) (pg_notifications s))))"
  using where_query_means [of srv fl c]
  by (simp add: run_query_def query_means_def sql_param_def nth_append)

section \<open>Pages\<close>

definition newer :: "Notification \<Rightarrow> Notification \<Rightarrow> bool" where
  "newer a b \<longleftrightarrow> row_key b < row_key a"

definition listing :: "pg_server \<Rightarrow> ListFilters \<Rightarrow> pg_state \<Rightarrow> Notification list" where
  "listing srv fl s = newest_first (filter (matches srv fl) (pg_notifications s))"

definition page_size :: "int \<Rightarrow> nat" where
  "page_size limit = nat (if limit \<le> 0 then 20 else limit)"

lemma page_size_pos: "0 < page_size limit"
  by (simp add: page_size_def)

lemma distinct_keys:
  "distinct (map n_ID rs) \<Longrightarrow> inj_on row_key (set rs) \<and> distinct rs"
  by (auto simp: row_key_def distinct_map inj_on_def)

lemma newest_first_scan:
  assumes "scans_all ce" "distinct (map n_ID rs)"
  shows "newest_first (ce_scan ce rs) = newest_first rs"
proof -
  have "mset (ce_scan ce rs) = mset (sort_key row_key rs)" using assms(1) by (simp add: scans_all_def)
  moreover from this have "set (ce_scan ce rs) = set rs" by (metis mset_eq_setD set_sort)
  ultimately have "sort_key row_key (ce_scan ce rs) = sort_key row_key rs"
    using distinct_keys [OF assms(2)] by (intro sort_key_inj_key_eq) simp_all
  then show ?thesis by (simp add: newest_first_def)
qed

lemma newest_first_sorted:
  assumes "distinct (map n_ID rs)"
  shows "sorted_wrt newer (newest_first rs)"
proof -
  have "distinct (map row_key (sort_key row_key rs))"
    using distinct_keys [OF assms] by (simp add: distinct_map)
  then have "sorted_wrt (<) (map row_key (sort_key row_key rs))"
    by (simp add: strict_sorted_iff)
  then show ?thesis
    by (simp add: newest_first_def newer_def sorted_wrt_rev sorted_wrt_map)
qed

lemma newest_first_filter: "newest_first (filter P rs) = filter P (newest_first rs)"
  by (simp add: newest_first_def filter_sort flip: rev_filter)

lemma drop_below:
  assumes "sorted_wrt newer D" "k < length D"
  shows "filter (\<lambda>r. row_key r < row_key (D ! k)) D = drop (Suc k) D"
  using assms
proof (induction D arbitrary: k)
  case Nil
  then show ?case by simp
next
  case (Cons d D)
  show ?case
  proof (cases k)
    case 0
    with Cons.prems show ?thesis by (auto simp: newer_def)
  next
    case (Suc j)
    with Cons.prems have "newer d (D ! j)" by simp
    then have "\<not> row_key d < row_key (D ! j)" by (simp add: newer_def)
    with Suc Cons show ?thesis by simp
  qed
qed

lemma read_rows_calm: "faultless ce \<Longrightarrow> read_rows srv ce what (Inr rs) = Inr rs"
  by (simp add: read_rows_def faultless_def run_stmt_def map_idI)

text \<open>One page: the next \<open>page_size\<close> rows of the listing below the cursor.\<close>

lemma pg_List_page:
  assumes "pg_wf srv s" "faultless ce" "scans_all ce" "in_int64 (limit + 1)"
    and D: "filter (below srv c) (listing srv fl s) = D"
  shows "pg_List srv cj ce fl c limit s =
    (if page_size limit < length D
     then Inr \<lparr>lr_Notifications = take (page_size limit) D,
               lr_NextCursor = Encode cj \<lparr>cu_CreatedAt = n_CreatedAt (D ! (page_size limit - 1)),
                                          cu_ID = n_ID (D ! (page_size limit - 1))\<rparr>,
               lr_HasMore = True\<rparr>
     else Inr \<lparr>lr_Notifications = D, lr_NextCursor = [], lr_HasMore = False\<rparr>)"
proof -
  let ?l = "if limit \<le> 0 then 20 else limit"
  have l: "int (page_size limit) = ?l" "wrap64 (?l + 1) = int (Suc (page_size limit))"
    using assms(4) by (auto simp: page_size_def wrap64_id in_int64_def)
  have "newest_first (ce_scan ce (filter (\<lambda>r. matches srv fl r \<and> below srv c r) (pg_notifications s))) = D"
    using assms by (simp add: pg_wf_def newest_first_scan distinct_map_filter listing_def newest_first_filter conj_commute)
  then have "run_query srv ce (where_query fl c) (q_args (where_query fl c) @ [SqlInt (wrap64 (?l + 1))]) s =
      Inr (take (Suc (page_size limit)) D)"
    by (simp add: run_query_selects sql_limit_def l(2) del: of_nat_Suc) 
  then have rows: "read_rows srv ce ''listing notifications: ''
      (run_query srv ce (where_query fl c) (q_args (where_query fl c) @ [SqlInt (wrap64 (?l + 1))]) s) =
      Inr (take (Suc (page_size limit)) D)"
    using assms(2) by (simp add: read_rows_calm)
  have "last (take (page_size limit) D) = D ! (page_size limit - 1)" if "page_size limit < length D"
    using that page_size_pos [of limit] by (subst last_conv_nth) auto
  then show ?thesis
    unfolding pg_List_def Let_def rows sum.case
    by (simp add: l(1) [symmetric] min_def)
qed

text \<open>A client that asks for pages until one says that there are no more.\<close>

fun follow_cursors :: "pg_server \<Rightarrow> cursor_json \<Rightarrow> (string \<Rightarrow> string) \<Rightarrow> ListFilters \<Rightarrow> int \<Rightarrow> pg_state \<Rightarrow>
    call_env list \<Rightarrow> Cursor option \<Rightarrow> (go_error + Notification list list) option" where
  "follow_cursors srv cj err_text fl limit s [] c = None"
| "follow_cursors srv cj err_text fl limit s (ce # ces) c =
     (case pg_List srv cj ce fl c limit s of
        Inl e \<Rightarrow> Some (Inl e)
      | Inr res \<Rightarrow>
          if \<not> lr_HasMore res then Some (Inr [lr_Notifications res])
          else (case DecodeCursor cj err_text (lr_NextCursor res) of
                  Inl e \<Rightarrow> Some (Inl e)
                | Inr c' \<Rightarrow>
                    (case follow_cursors srv cj err_text fl limit s ces (Some c') of
                       Some (Inr pages) \<Rightarrow> Some (Inr (lr_Notifications res # pages))
                     | other \<Rightarrow> other)))"

definition cursors_readable :: "pg_server \<Rightarrow> cursor_json \<Rightarrow> pg_state \<Rightarrow> bool" where
  "cursors_readable srv cj s \<longleftrightarrow>
     list_all (\<lambda>r. srv_timestamptz srv (n_CreatedAt r) = n_CreatedAt r \<and>
        time_readable cj (n_CreatedAt r)) (pg_notifications s)"

lemma listing_sorted: "pg_wf srv s \<Longrightarrow> sorted_wrt newer (listing srv fl s)"
  by (simp add: listing_def newest_first_sorted distinct_map_filter pg_wf_def)

lemma listing_rows: "set (listing srv fl s) = {r \<in> set (pg_notifications s). matches srv fl r}"
  by (auto simp: listing_def newest_first_def)

lemma next_page:
  assumes "pg_wf srv s" "cursors_readable srv cj s" "filter (below srv c) (listing srv fl s) = D" "k < length D"
  shows "filter (below srv (Some \<lparr>cu_CreatedAt = n_CreatedAt (D ! k), cu_ID = n_ID (D ! k)\<rparr>)) (listing srv fl s) =
    drop (Suc k) D"
proof -
  have "D ! k \<in> set (filter (below srv c) (listing srv fl s))" using assms(3,4) by simp
  then have Dk: "D ! k \<in> set (pg_notifications s)" "below srv c (D ! k)" by (auto simp: listing_rows)
  let ?P = "\<lambda>r. row_key r < row_key (D ! k)"
  have P: "below srv (Some \<lparr>cu_CreatedAt = n_CreatedAt (D ! k), cu_ID = n_ID (D ! k)\<rparr>) = ?P"
    using Dk(1) assms(2) by (auto simp: below_def opt_holds_def cursors_readable_def list_all_iff row_key_def)
  have "?P r \<Longrightarrow> below srv c r" for r
    using Dk(2) by (cases c) (auto simp: below_def opt_holds_def dest: less_trans)
  then have "filter ?P (filter (below srv c) (listing srv fl s)) = filter ?P (listing srv fl s)"
    unfolding filter_filter by (intro filter_cong) auto
  then have "filter ?P (listing srv fl s) = filter ?P D" unfolding assms(3) by (rule sym)
  also have "\<dots> = drop (Suc k) D"
    using sorted_wrt_filter [OF listing_sorted [OF assms(1)]] assms(3,4) by (intro drop_below) auto
  finally show ?thesis by (simp add: P)
qed

lemma follow_cursors_from:
  assumes "pg_wf srv s" "cursors_readable srv cj s" "in_int64 (limit + 1)" "uuid_roundtrip (cj_uuid cj)"
  shows "\<lbrakk>list_all (\<lambda>ce. faultless ce \<and> scans_all ce) ces; filter (below srv c) (listing srv fl s) = D;
          length D < length ces\<rbrakk> \<Longrightarrow>
    \<exists>pages. follow_cursors srv cj err_text fl limit s ces c = Some (Inr pages) \<and> concat pages = D \<and>
      (\<forall>p \<in> set pages. length p \<le> page_size limit)"
proof (induction ces arbitrary: c D)
  case Nil
  then show ?case by simp
next
  case (Cons ce ces)
  let ?k = "page_size limit"
  have page: "pg_List srv cj ce fl c limit s = (if ?k < length D
      then Inr \<lparr>lr_Notifications = take ?k D,
               lr_NextCursor = Encode cj \<lparr>cu_CreatedAt = n_CreatedAt (D ! (?k - 1)), cu_ID = n_ID (D ! (?k - 1))\<rparr>,
               lr_HasMore = True\<rparr>
      else Inr \<lparr>lr_Notifications = D, lr_NextCursor = [], lr_HasMore = False\<rparr>)"
    using Cons.prems assms by (intro pg_List_page) simp_all
  show ?case
  proof (cases "?k < length D")
    case False
    then show ?thesis by (simp add: page)
  next
    case True
    let ?c = "\<lparr>cu_CreatedAt = n_CreatedAt (D ! (?k - 1)), cu_ID = n_ID (D ! (?k - 1))\<rparr>"
    have k: "?k - 1 < length D" "Suc (?k - 1) = ?k" using True page_size_pos [of limit] by auto
    have "D ! (?k - 1) \<in> set (filter (below srv c) (listing srv fl s))" using k(1) Cons.prems(2) by simp
    then have dec: "DecodeCursor cj err_text (Encode cj ?c) = Inr ?c"
      using assms(2,4) by (intro Decode_Encode) (auto simp: listing_rows cursors_readable_def list_all_iff)
    have nxt: "filter (below srv (Some ?c)) (listing srv fl s) = drop ?k D"
      using next_page [OF assms(1,2) Cons.prems(2) k(1)] k(2) by simp
    have "length (drop ?k D) < length ces" using Cons.prems(3) page_size_pos [of limit] True by simp
    with Cons.IH [OF _ nxt] Cons.prems(1) obtain pages where
      "follow_cursors srv cj err_text fl limit s ces (Some ?c) = Some (Inr pages)"
      "concat pages = drop ?k D" "\<forall>p \<in> set pages. length p \<le> ?k"
      by (metis list.pred_inject(2))
    then show ?thesis by (simp add: page True dec del: One_nat_def)
  qed
qed

text \<open>
  C19. Following the cursors of \<open>List\<close> from the first page on a table that does not change, with any
  page size and any filters, ends, and the pages put together are all the rows that match the
  filters, each once, newest first (by \<open>created_at\<close>, then by id), whatever the order in which the
  server scans the table. Every page holds at most \<open>limit\<close> rows (20 when the limit is not
  positive). As many calls as there are rows, and one more, are enough.
\<close>

theorem pagination_complete:
  assumes "pg_wf srv s" "cursors_readable srv cj s" "in_int64 (limit + 1)" "uuid_roundtrip (cj_uuid cj)"
    and "list_all (\<lambda>ce. faultless ce \<and> scans_all ce) ces" "length (pg_notifications s) < length ces"
  shows "\<exists>pages. follow_cursors srv cj err_text fl limit s ces None = Some (Inr pages) \<and>
    mset (concat pages) = mset (filter (matches srv fl) (pg_notifications s)) \<and>
    sorted_wrt (\<lambda>a b. (n_CreatedAt b, n_ID b) < (n_CreatedAt a, n_ID a)) (concat pages) \<and>
    (\<forall>p \<in> set pages. int (length p) \<le> (if limit \<le> 0 then 20 else limit))"
proof -
  have all: "filter (below srv None) (listing srv fl s) = listing srv fl s"
    by (simp add: below_def opt_holds_def)
  have mset: "mset (listing srv fl s) = mset (filter (matches srv fl) (pg_notifications s))"
    by (simp add: listing_def newest_first_def)
  have "length (listing srv fl s) \<le> length (pg_notifications s)"
    by (simp add: listing_def newest_first_def)
  with assms(6) have "length (listing srv fl s) < length ces" by linarith
  from follow_cursors_from [OF assms(1-5) all this]
  obtain pages where pages: "follow_cursors srv cj err_text fl limit s ces None = Some (Inr pages)"
    "concat pages = listing srv fl s" "\<forall>p \<in> set pages. length p \<le> page_size limit" by blast
  have "newer = (\<lambda>a b. (n_CreatedAt b, n_ID b) < (n_CreatedAt a, n_ID a))"
    by (simp add: newer_def row_key_def fun_eq_iff)
  then have sorted: "sorted_wrt (\<lambda>a b. (n_CreatedAt b, n_ID b) < (n_CreatedAt a, n_ID a)) (concat pages)"
    using listing_sorted [OF assms(1), of fl] pages(2) by simp
  have size: "\<forall>p \<in> set pages. int (length p) \<le> (if limit \<le> 0 then 20 else limit)"
    using pages(3) by (simp add: page_size_def le_nat_iff)
  show ?thesis
    by (rule exI [of _ pages]) (intro conjI pages(1) sorted size, simp only: pages(2) mset)
qed

text \<open>A table of three notifications, two to a page.\<close>

definition three_rows :: pg_state where
  "three_rows = \<lparr>pg_notifications =
     map (\<lambda>k. sample_notification\<lparr>n_ID := of_nat k, n_Status := StatusPending, n_CreatedAt := int (k div 2)\<rparr>)
       [1, 2, 3], pg_templates = []\<rparr>"

lemma three_rows_wf: "pg_wf any_server three_rows"
  by (simp add: pg_wf_def) (simp add: three_rows_def idempotency_keys_def sample_notification_def row_checks_def
      chk_channel_def chk_status_def chk_priority_def int4_def domain_consts)

lemma three_rows_readable: "cursors_readable any_server utc_json three_rows"
proof -
  have "time_readable utc_json 0" "time_readable utc_json 1" by code_simp+
  then show ?thesis by (simp add: cursors_readable_def three_rows_def any_server_def)
qed

theorem pagination_complete_witness:
  "\<exists>pages. follow_cursors any_server utc_json (\<lambda>s. s) \<lparr>lf_Status = Some StatusPending, lf_Channel = None,
       lf_Priority = None, lf_CreatedAfter = None, lf_CreatedBefore = None\<rparr> 2 three_rows
       (replicate 4 (calm 0 (\<lambda>_. 0))) None = Some (Inr pages) \<and> length (concat pages) = 3"
proof -
  let ?fl = "\<lparr>lf_Status = Some StatusPending, lf_Channel = None, lf_Priority = None,
    lf_CreatedAfter = None, lf_CreatedBefore = None\<rparr>"
  have "in_int64 (2 + 1)" "uuid_roundtrip (cj_uuid utc_json)" "list_all (\<lambda>ce. faultless ce \<and> scans_all ce) (replicate 4 (calm 0 (\<lambda>_. 0)))"
    "length (pg_notifications three_rows) < length (replicate 4 (calm 0 (\<lambda>_. 0)))"
    by (simp_all add: in_int64_def three_rows_def list_all_iff utc_json_def sample_uuid_roundtrip)
  from pagination_complete [OF three_rows_wf three_rows_readable this, of "\<lambda>s. s" ?fl]
  obtain pages where p: "follow_cursors any_server utc_json (\<lambda>s. s) ?fl 2 three_rows
      (replicate 4 (calm 0 (\<lambda>_. 0))) None = Some (Inr pages)"
    "mset (concat pages) = mset (filter (matches any_server ?fl) (pg_notifications three_rows))" by blast
  from arg_cong [OF p(2), of size] have "length (concat pages) = 3"
    by (simp add: three_rows_def matches_def opt_holds_def)
  with p(1) show ?thesis by blast
qed

end
