(* ===== verification/Store.thy ===== *)
theory Store
  imports Listing
begin

text \<open>
  The PostgreSQL repositories as implementations of the interfaces: what \<open>Create\<close> and
  \<open>CreateBatch\<close> insert, the atomicity of a batch, the uniqueness an idempotency key gives, the
  template repository of \<open>internal/repository/postgres/template.go\<close>, and the interpretations of
  the two store contracts.
\<close>

section \<open>Inserts\<close>

lemma short_columns:
  "chk_channel v \<Longrightarrow> utf8_length v < 20" "chk_priority v \<Longrightarrow> utf8_length v < 10"
  unfolding chk_channel_def chk_priority_def by (elim insertE emptyE; simp add: utf8_length_def)+

lemma server_ok_exact: "server_ok srv \<Longrightarrow> srv_varchar srv k v = Some v' \<Longrightarrow> utf8_length v' < k \<Longrightarrow> v' = v"
  unfolding server_ok_def by fastforce

lemma insert_row_Inr:
  assumes "server_ok srv" and ins: "insert_row srv now rs n = Inr r"
  shows "row_checks r" "\<not> unique_violation rs r" "n_ID r = n_ID n" "n_BatchID r = n_BatchID n"
    "n_Content r = n_Content n" "n_Channel r = n_Channel n" "n_Status r = n_Status n" "n_Priority r = n_Priority n"
    "n_RetryCount r = n_RetryCount n" "n_ScheduledAt r = map_option (srv_timestamptz srv) (n_ScheduledAt n)"
    "n_SentAt r = None" "n_FailedAt r = None" "n_CreatedAt r = now"
    "varchar_null srv 255 (n_IdempotencyKey n) = Some (n_IdempotencyKey r)"
proof -
  obtain metadata key recipient channel subject priority status where cols:
    "varchar_null srv 255 (n_IdempotencyKey n) = Some key" "srv_varchar srv 20 (n_Channel n) = Some channel"
    "srv_varchar srv 10 (n_Priority n) = Some priority" "srv_varchar srv 20 (n_Status n) = Some status"
    and r: "r = \<lparr>n_ID = n_ID n, n_BatchID = n_BatchID n, n_IdempotencyKey = key, n_Recipient = recipient,
        n_Channel = channel, n_Content = n_Content n, n_Subject = subject, n_Priority = priority,
        n_Status = status, n_ProviderMessageID = None, n_RetryCount = n_RetryCount n,
        n_MaxRetries = n_MaxRetries n, n_NextRetryAt = None,
        n_ScheduledAt = map_option (srv_timestamptz srv) (n_ScheduledAt n),
        n_SentAt = None, n_FailedAt = None, n_ErrorMessage = None, n_Metadata = metadata,
        n_CreatedAt = now, n_UpdatedAt = now\<rparr>" and ok: "row_checks r" "\<not> unique_violation rs r"
    using ins unfolding insert_row_def
    by (auto simp: check_row_Inr split: option.splits sum.splits if_splits)
  show "row_checks r" "\<not> unique_violation rs r" by (rule ok)+
  have "utf8_length channel < 20" "utf8_length status < 20" "utf8_length priority < 10"
    using ok(1) by (auto simp: r row_checks_def short_columns legal_status_short)
  then have "channel = n_Channel n" "status = n_Status n" "priority = n_Priority n"
    using cols assms(1) by (auto intro: server_ok_exact)
  then show "n_ID r = n_ID n" "n_BatchID r = n_BatchID n"
    "n_Content r = n_Content n" "n_Channel r = n_Channel n" "n_Status r = n_Status n" "n_Priority r = n_Priority n"
    "n_RetryCount r = n_RetryCount n" "n_ScheduledAt r = map_option (srv_timestamptz srv) (n_ScheduledAt n)"
    "n_SentAt r = None" "n_FailedAt r = None" "n_CreatedAt r = now"
    "varchar_null srv 255 (n_IdempotencyKey n) = Some (n_IdempotencyKey r)"
    using cols(1) by (simp_all add: r)
qed

lemma with_defaults_columns:
  "n_BatchID (with_defaults ce k n) = n_BatchID n" "n_Content (with_defaults ce k n) = n_Content n"
  "n_Channel (with_defaults ce k n) = n_Channel n" "n_RetryCount (with_defaults ce k n) = n_RetryCount n"
  "n_ScheduledAt (with_defaults ce k n) = n_ScheduledAt n" "n_IdempotencyKey (with_defaults ce k n) = n_IdempotencyKey n"
  "n_ID n \<noteq> uuid_Nil \<Longrightarrow> n_ID (with_defaults ce k n) = n_ID n"
  "n_Status (with_defaults ce k n) = (if n_Status n = [] then StatusPending else n_Status n)"
  "n_Priority (with_defaults ce k n) = (if n_Priority n = [] then PriorityNormal else n_Priority n)"
  by (simp_all add: with_defaults_def Let_def)

lemma idempotency_keys_append: "idempotency_keys (rs @ [r]) = idempotency_keys rs @ (case n_IdempotencyKey r of None \<Rightarrow> [] | Some key \<Rightarrow> [key])"
  by (simp add: idempotency_keys_def)

lemma idempotency_keys_set: "key \<in> set (idempotency_keys rs) \<longleftrightarrow> (\<exists>r \<in> set rs. n_IdempotencyKey r = Some key)"
  by (auto simp: idempotency_keys_def split: option.splits intro: sym)

lemma insert_outcome_adds:
  assumes "pg_wf srv s" and "insert_outcome srv now s (with_defaults ce k n) = Inr (r, s')"
  shows "pg_wf srv s'" "rows_added (pg_rows s) (pg_rows s') [r]" "stored_from n r"
    "s' = s\<lparr>pg_notifications := pg_notifications s @ [r]\<rparr>"
proof -
  have ok: "server_ok srv" using assms(1) by (simp add: pg_wf_def)
  have ins: "insert_row srv now (pg_notifications s) (with_defaults ce k n) = Inr r"
    and s': "s' = s\<lparr>pg_notifications := pg_notifications s @ [r]\<rparr>"
    using assms(2) by (auto simp: insert_outcome_def split: sum.splits)
  note cols = insert_row_Inr [OF ok ins]
  show "s' = s\<lparr>pg_notifications := pg_notifications s @ [r]\<rparr>" by (rule s')
  show "stored_from n r"
    unfolding stored_from_def using cols by (simp add: with_defaults_columns)
  have new: "\<forall>q \<in> set (pg_notifications s). n_ID q \<noteq> n_ID r"
    using cols(2) by (auto simp: unique_violation_def list_ex_iff)
  moreover have "n_IdempotencyKey r = Some key \<Longrightarrow> key \<notin> set (idempotency_keys (pg_notifications s))" for key
    using cols(2) by (auto simp: unique_violation_def list_ex_iff idempotency_keys_set)
  ultimately show "pg_wf srv s'"
    using assms(1) cols(1)
    by (auto simp: pg_wf_def s' idempotency_keys_append split: option.splits)
  show "rows_added (pg_rows s) (pg_rows s') [r]"
    using new iffD2 [OF find_None_all, of "pg_notifications s" "\<lambda>q. n_ID q = n_ID r"]
    by (auto simp: rows_added_def pg_rows_def s' find_append split: option.splits)
qed

lemma pg_Create_cases:
  assumes "pg_wf srv s" and "pg_Create srv ce n s = (out, s')"
  shows "(s' = s \<and> (\<exists>e. out = Inl e)) \<or>
    (\<exists>r. insert_outcome srv (ce_now ce) s (with_defaults ce 0 n) = Inr (r, s') \<and> (out = Inr r \<or> (\<exists>e. out = Inl e)))"
  using assms(2)
  by (auto simp: pg_Create_def run_stmt_def split: net_fault.splits sum.splits iter_fault.splits prod.splits)

lemma pg_Create_inserts:
  "pg_wf srv s \<Longrightarrow> pg_Create srv ce n s = (Inr n', s') \<Longrightarrow>
   pg_wf srv s' \<and> stored_from n n' \<and> rows_added (pg_rows s) (pg_rows s') [n']"
  using pg_Create_cases [of srv s ce n "Inr n'" s'] by (auto intro: insert_outcome_adds)

lemma pg_Create_keeps:
  "pg_wf srv s \<Longrightarrow> pg_Create srv ce n s = (Inl e, s') \<Longrightarrow>
   pg_wf srv s' \<and> (s' = s \<or> (\<exists>n'. stored_from n n' \<and> rows_added (pg_rows s) (pg_rows s') [n']))"
  using pg_Create_cases [of srv s ce n "Inl e" s'] by (blast intro: insert_outcome_adds)

lemma batch_inserts_adds:
  "pg_wf srv s \<Longrightarrow> Postgres.batch_inserts srv ce i ns s = Inr (rs, s') \<Longrightarrow>
   pg_wf srv s' \<and> list_all2 stored_from ns rs \<and> rows_added (pg_rows s) (pg_rows s') rs \<and>
   s' = s\<lparr>pg_notifications := pg_notifications s @ rs\<rparr>"
proof (induction ns arbitrary: i s rs)
  case Nil
  then show ?case by simp
next
  case (Cons n ns)
  from Cons.prems(2) obtain r s1 rs1 where
    one: "insert_outcome srv (ce_now ce) s (with_defaults ce i n) = Inr (r, s1)"
    and rest: "Postgres.batch_inserts srv ce (Suc i) ns s1 = Inr (rs1, s')" and rs: "rs = r # rs1"
    by (auto simp: run_stmt_def split: net_fault.splits sum.splits prod.splits)
  note step = insert_outcome_adds [OF Cons.prems(1) one]
  have upd: "pg_rows s1 = (pg_rows s)(n_ID r \<mapsto> r)" and new: "pg_rows s (n_ID r) = None"
    using step(2) by (auto simp: rows_added_def fun_eq_iff)
  note IH = Cons.IH [OF step(1) rest]
  then have "rows_added (pg_rows s) (pg_rows s') rs"
    unfolding upd rs using new by (blast intro: rows_added_Cons)
  then show ?case using IH step(3,4) rs by auto
qed

lemma pg_CreateBatch_cases:
  assumes "pg_wf srv s" and "pg_CreateBatch srv ce ns s = (out, s')"
  shows "(s' = s \<and> (\<exists>e. out = Inl e)) \<or>
    (\<exists>rs. Postgres.batch_inserts srv ce 0 ns s = Inr (rs, s') \<and> (out = Inr rs \<or> (\<exists>e. out = Inl e)))"
  using assms(2)
  by (auto simp: pg_CreateBatch_def run_stmt_def split: net_fault.splits sum.splits prod.splits)

section \<open>Reads\<close>

lemma pg_GetByID_sound: "pg_GetByID up srv ce i s = Inr n \<Longrightarrow> pg_wf srv s \<Longrightarrow> pg_rows s i = Some n"
proof -
  assume get: "pg_GetByID up srv ce i s = Inr n" and wf: "pg_wf srv s"
  then obtain rest where "filter (\<lambda>r. n_ID r = i) (pg_notifications s) = n # rest"
    by (auto simp: pg_GetByID_def run_stmt_def split: net_fault.splits list.splits iter_fault.splits)
  then have "n \<in> set (filter (\<lambda>r. n_ID r = i) (pg_notifications s))" by simp
  with wf show ?thesis by (simp add: pg_rows_iff pg_wf_def)
qed

lemma pg_GetByID_complete:
  "pg_wf srv s \<Longrightarrow> faultless ce \<Longrightarrow> pg_rows s i = Some n \<Longrightarrow> pg_GetByID up srv ce i s = Inr n"
  using count_filter_distinct_key [of n_ID "pg_notifications s" n]
  by (auto simp: pg_rows_iff pg_wf_def pg_GetByID_def run_stmt_def faultless_def)

lemma pg_GetScheduledReady_sound:
  assumes "pg_wf srv s" "scans_all ce" "pg_GetScheduledReady srv ce k s = Inr ns" "n \<in> set ns"
  shows "pg_rows s (n_ID n) = Some n \<and> n_Status n = StatusPending \<and> (\<exists>t. n_ScheduledAt n = Some t \<and> t \<le> ce_now ce)"
proof -
  let ?ready = "filter (scheduled_ready (ce_now ce)) (pg_notifications s)"
  have "set (ce_scan ce ?ready) = set ?ready"
    using assms(2) unfolding scans_all_def by (metis mset_eq_setD)
  moreover have "n \<in> set (ce_scan ce ?ready)"
    using assms(3,4)
    by (auto simp: pg_GetScheduledReady_def read_rows_def sql_limit_def run_stmt_def
        split: net_fault.splits if_splits iter_fault.splits dest!: in_set_takeD)
  ultimately show ?thesis
    using assms(1) by (auto simp: pg_rows_iff pg_wf_def scheduled_ready_def StatusPending_def split: option.splits)
qed

lemma ready_scan:
  assumes "pg_wf srv s" "scans_all ce"
  shows "distinct (map n_ID (sort_key f (ce_scan ce (filter P (pg_notifications s)))))"
    "set (sort_key f (ce_scan ce (filter P (pg_notifications s)))) = {r \<in> set (pg_notifications s). P r}"
proof -
  let ?xs = "filter P (pg_notifications s)"
  have m: "mset (sort_key f (ce_scan ce ?xs)) = mset ?xs" using assms(2) by (simp add: scans_all_def)
  then have "mset (map n_ID (sort_key f (ce_scan ce ?xs))) = mset (map n_ID ?xs)" by simp
  then show "distinct (map n_ID (sort_key f (ce_scan ce ?xs)))"
    using assms(1) by (metis distinct_map_filter mset_eq_imp_distinct_iff pg_wf_def)
  show "set (sort_key f (ce_scan ce ?xs)) = {r \<in> set (pg_notifications s). P r}"
    using mset_eq_setD [OF m] by simp
qed

lemma pg_GetScheduledReady_distinct:
  assumes "pg_wf srv s" "scans_all ce" "pg_GetScheduledReady srv ce k s = Inr ns"
  shows "distinct (map n_ID ns) \<and> int (length ns) \<le> max 0 k"
proof -
  let ?xs = "sort_key (\<lambda>r. the (n_ScheduledAt r)) (ce_scan ce (filter (scheduled_ready (ce_now ce)) (pg_notifications s)))"
  have "ns = take (nat k) ?xs \<and> 0 \<le> k \<or> ns = []"
    using assms(3)
    by (auto simp: pg_GetScheduledReady_def read_rows_def sql_limit_def run_stmt_def map_idI
        split: net_fault.splits if_splits iter_fault.splits)
  then show ?thesis
    using distinct_take [OF ready_scan(1) [OF assms(1,2)], of "nat k"] by (auto simp: take_map)
qed

lemma pg_GetScheduledReady_complete:
  assumes "pg_wf srv s" "faultless ce" "scans_all ce" "0 \<le> k"
  shows "\<exists>ns. pg_GetScheduledReady srv ce k s = Inr ns \<and> (int (length ns) < k \<longrightarrow>
    (\<forall>i n t. pg_rows s i = Some n \<longrightarrow> n_Status n = StatusPending \<longrightarrow> n_ScheduledAt n = Some t \<longrightarrow>
       t \<le> ce_now ce \<longrightarrow> n \<in> set ns))"
proof -
  let ?xs = "sort_key (\<lambda>r. the (n_ScheduledAt r)) (ce_scan ce (filter (scheduled_ready (ce_now ce)) (pg_notifications s)))"
  have "pg_GetScheduledReady srv ce k s = Inr (take (nat k) ?xs)"
    using assms(2,4) by (simp add: pg_GetScheduledReady_def sql_limit_def read_rows_calm)
  moreover have "take (nat k) ?xs = ?xs" if "int (length (take (nat k) ?xs)) < k"
    using that assms(4) by (simp add: min_def split: if_splits)
  moreover have "n \<in> set ?xs" if "pg_rows s i = Some n" "n_Status n = StatusPending" "n_ScheduledAt n = Some t"
    "t \<le> ce_now ce" for i n t
    using that assms(1) unfolding ready_scan(2) [OF assms(1,3)]
    by (simp add: pg_rows_iff pg_wf_def scheduled_ready_def StatusPending_def)
  ultimately show ?thesis by auto
qed

section \<open>Updates that succeed\<close>

lemma update_rows_total:
  "(\<forall>r \<in> set rs. P r \<longrightarrow> (\<exists>r'. f r = Inr r')) \<Longrightarrow>
   \<exists>k rs'. update_rows P f rs = Inr (k, rs') \<and> ((\<exists>r \<in> set rs. P r) \<longrightarrow> 0 < k)"
  by (induction rs) fastforce+

lemma update_succeeds:
  assumes "pg_wf srv s" "faultless ce" "pg_rows s i = Some n" "\<And>r. row_checks r \<Longrightarrow> n_ID r = i \<Longrightarrow> r = n \<Longrightarrow> \<exists>r'. f r = Inr r'"
  shows "fst (affected_rows up srv ce what i (exec_update (ce_fault ce 0) (\<lambda>r. n_ID r = i) f s)) = None"
proof -
  have n: "n \<in> set (pg_notifications s)" "n_ID n = i"
    using assms(1,3) by (auto simp: pg_rows_iff pg_wf_def)
  have only: "r \<in> set (pg_notifications s) \<Longrightarrow> n_ID r = i \<Longrightarrow> r = n \<and> row_checks r" for r
    using assms(1,3) pg_rows_iff [of s i r] by (auto simp: pg_wf_def list_all_iff)
  have "\<forall>r \<in> set (pg_notifications s). n_ID r = i \<longrightarrow> (\<exists>r'. f r = Inr r')"
    using only assms(4) by blast
  from update_rows_total [OF this] n obtain k rs' where
    "update_rows (\<lambda>r. n_ID r = i) f (pg_notifications s) = Inr (k, rs')" "0 < k" by blast
  with assms(2) show ?thesis
    by (simp add: exec_update_def run_stmt_def affected_rows_def faultless_def)
qed

lemma legal_status_chk: "legal_status st \<longleftrightarrow> chk_status st"
  by (simp add: legal_status_def chk_status_def domain_consts)

lemma pg_UpdateStatus_succeeds:
  assumes "pg_wf srv s" "faultless ce" "pg_rows s i = Some n" "legal_status st"
  shows "fst (pg_UpdateStatus up srv ce i st s) = None"
proof -
  have "chk_status st" "srv_varchar srv 20 st = Some st"
    using assms(1,4) legal_status_short [of st] by (auto simp: legal_status_chk pg_wf_def server_ok_def)
  then show ?thesis
    unfolding pg_UpdateStatus_def
    by (intro update_succeeds [OF assms(1-3)])
      (auto simp: update_status_row_def check_row_Inr row_checks_def trigger_set_updated_at_def)
qed

lemma pg_UpdateSent_succeeds:
  "pg_wf srv s \<Longrightarrow> faultless ce \<Longrightarrow> pg_rows s i = Some n \<Longrightarrow> utf8_length m \<le> 255 \<Longrightarrow>
   fst (pg_UpdateSent up srv ce i m s) = None"
  unfolding pg_UpdateSent_def
  by (rule update_succeeds)
    (auto simp: pg_wf_def server_ok_def check_row_Inr row_checks_def trigger_set_updated_at_def chk_status_def)

lemma pg_UpdateFailed_succeeds:
  "pg_wf srv s \<Longrightarrow> faultless ce \<Longrightarrow> pg_rows s i = Some n \<Longrightarrow> fst (pg_UpdateFailed up srv ce i m s) = None"
  unfolding pg_UpdateFailed_def
  by (rule update_succeeds) (auto simp: check_row_Inr row_checks_def trigger_set_updated_at_def chk_status_def)

lemma pg_IncrementRetry_succeeds:
  "pg_wf srv s \<Longrightarrow> faultless ce \<Longrightarrow> pg_rows s i = Some n \<Longrightarrow> n_RetryCount n < 2 ^ 31 - 1 \<Longrightarrow>
   fst (pg_IncrementRetry up srv ce i t s) = None"
  unfolding pg_IncrementRetry_def
  by (rule update_succeeds) (auto simp: check_row_Inr row_checks_def trigger_set_updated_at_def int4_def)

section \<open>The notification repository\<close>

definition postgres_repository :: "uuid_pkg \<Rightarrow> pg_server \<Rightarrow> cursor_json \<Rightarrow> pg_state NotificationRepository" where
  "postgres_repository up srv cj =
     \<lparr>repo_Create = pg_Create srv, repo_CreateBatch = pg_CreateBatch srv, repo_GetByID = pg_GetByID up srv,
      repo_GetByBatchID = pg_GetByBatchID srv, repo_List = pg_List srv cj,
      repo_UpdateStatus = pg_UpdateStatus up srv, repo_UpdateSent = pg_UpdateSent up srv,
      repo_UpdateFailed = pg_UpdateFailed up srv, repo_IncrementRetry = pg_IncrementRetry up srv,
      repo_Cancel = pg_Cancel up srv, repo_GetScheduledReady = pg_GetScheduledReady srv\<rparr>"

lemma postgres_repository_simps [simp]:
  "repo_Create (postgres_repository up srv cj) = pg_Create srv"
  "repo_CreateBatch (postgres_repository up srv cj) = pg_CreateBatch srv"
  "repo_GetByID (postgres_repository up srv cj) = pg_GetByID up srv"
  "repo_GetByBatchID (postgres_repository up srv cj) = pg_GetByBatchID srv"
  "repo_List (postgres_repository up srv cj) = pg_List srv cj"
  "repo_UpdateStatus (postgres_repository up srv cj) = pg_UpdateStatus up srv"
  "repo_UpdateSent (postgres_repository up srv cj) = pg_UpdateSent up srv"
  "repo_UpdateFailed (postgres_repository up srv cj) = pg_UpdateFailed up srv"
  "repo_IncrementRetry (postgres_repository up srv cj) = pg_IncrementRetry up srv"
  "repo_Cancel (postgres_repository up srv cj) = pg_Cancel up srv"
  "repo_GetScheduledReady (postgres_repository up srv cj) = pg_GetScheduledReady srv"
  by (simp_all add: postgres_repository_def)

lemma cancellable_iff: "cancellable n \<longleftrightarrow> n_Status n \<in> {StatusPending, StatusQueued}"
  by (simp add: cancellable_def StatusPending_def StatusQueued_def)

lemmas pg_contract = pg_GetByID_sound pg_GetByID_complete pg_Create_inserts pg_Create_keeps
  pg_UpdateStatus_writes pg_UpdateSent_writes pg_UpdateFailed_writes pg_IncrementRetry_writes
  pg_GetScheduledReady_sound pg_UpdateStatus_succeeds pg_UpdateSent_succeeds pg_UpdateFailed_succeeds
  pg_IncrementRetry_succeeds pg_GetScheduledReady_distinct pg_GetScheduledReady_complete

interpretation pg: notification_store "postgres_repository up srv cj" "pg_wf srv" pg_rows "srv_timestamptz srv"
    "stored_text srv" for up srv cj
proof (unfold_locales, unfold postgres_repository_simps)
  fix s i n assume "pg_wf srv s" "pg_rows s i = Some n"
  then show "n_ID n = i" by (simp add: pg_wf_def pg_rows_iff)
next
  fix s ce i e s' assume "pg_wf srv s" "pg_Cancel up srv ce i s = (e, s')"
  from pg_Cancel_writes [OF this]
  show "pg_wf srv s' \<and> row_write (pg_rows s) (pg_rows s') i (set_status StatusCancelled (ce_now ce)) (e = None) \<and>
      (pg_rows s' \<noteq> pg_rows s \<longrightarrow> (\<exists>n. pg_rows s i = Some n \<and> n_Status n \<in> {StatusPending, StatusQueued}))"
    unfolding cancellable_iff by blast
next
  fix s ce i s' assume "pg_wf srv s" "pg_Cancel up srv ce i s = (None, s')"
  from pg_Cancel_writes [OF this]
  show "\<exists>n. pg_rows s i = Some n \<and> n_Status n \<in> {StatusPending, StatusQueued}"
    unfolding cancellable_iff by blast
next
  fix s ce ns ns' s' assume "pg_wf srv s" "pg_CreateBatch srv ce ns s = (Inr ns', s')"
  from pg_CreateBatch_cases [OF this] batch_inserts_adds [OF this(1)]
  show "pg_wf srv s' \<and> list_all2 stored_from ns ns' \<and> rows_added (pg_rows s) (pg_rows s') ns'" by blast
next
  fix s ce ns ge s' assume "pg_wf srv s" "pg_CreateBatch srv ce ns s = (Inl ge, s')"
  from pg_CreateBatch_cases [OF this] batch_inserts_adds [OF this(1)] this(1)
  show "pg_wf srv s' \<and> (s' = s \<or> (\<exists>ns'. list_all2 stored_from ns ns' \<and> rows_added (pg_rows s) (pg_rows s') ns'))"
    by blast
qed (rule pg_contract; assumption)+

section \<open>The template repository\<close>

definition scanTemplate :: "Template \<Rightarrow> Template" where
  "scanTemplate row =
     \<lparr>t_ID = t_ID row, t_Name = t_Name row, t_Channel = t_Channel row, t_Content = t_Content row,
      t_Subject = (case t_Subject row of None \<Rightarrow> None | Some v \<Rightarrow> Some v),
      t_CreatedAt = t_CreatedAt row, t_UpdatedAt = t_UpdatedAt row\<rparr>"

lemma scanTemplate_id [simp]: "scanTemplate row = row"
  by (simp add: scanTemplate_def case_option_id)

definition insert_template :: "pg_server \<Rightarrow> time \<Rightarrow> Template list \<Rightarrow> Template \<Rightarrow> string + Template" where
  "insert_template srv now ts t =
     (case (srv_varchar srv 255 (t_Name t), srv_varchar srv 20 (t_Channel t), varchar_null srv 255 (t_Subject t)) of
        (Some name, Some channel, Some subject) \<Rightarrow>
          if \<not> chk_channel channel then Inl ''23514''
          else if list_ex (\<lambda>q. t_ID q = t_ID t \<or> t_Name q = name) ts then Inl ''23505''
          else Inr \<lparr>t_ID = t_ID t, t_Name = name, t_Channel = channel, t_Content = t_Content t,
                    t_Subject = subject, t_CreatedAt = now, t_UpdatedAt = now\<rparr>
      | _ \<Rightarrow> Inl ''22001'')"

definition pg_template_Create :: "pg_server \<Rightarrow> call_env \<Rightarrow> Template \<Rightarrow> pg_state \<Rightarrow> (go_error + Template) \<times> pg_state" where
  "pg_template_Create srv ce t s =
     (let t = (if t_ID t = uuid_Nil then t\<lparr>t_ID := ce_uuid ce 0\<rparr> else t);
          outcome = (case insert_template srv (ce_now ce) (pg_templates s) t of
             Inl code \<Rightarrow> Inl code
           | Inr r \<Rightarrow> Inr (r, s\<lparr>pg_templates := pg_templates s @ [r]\<rparr>))
      in case run_stmt (ce_fault ce 0) outcome s of
           (Inl e, s') \<Rightarrow>
             (Inl (if e = Server ''23505'' then ErrConflict ''template with this name already exists''
                   else ErrOther (''creating template: '' @ stmt_text srv e)), s')
         | (Inr r, s') \<Rightarrow>
             (case ce_iter ce of
                ScanErr msg \<Rightarrow> (Inl (ErrOther (''creating template: '' @ msg)), s')
              | RowsErr msg \<Rightarrow> (Inl (ErrOther (''creating template: '' @ msg)), s')
              | IterOk \<Rightarrow> (Inr (scanTemplate r), s')))"

definition pg_template_GetByID :: "uuid_pkg \<Rightarrow> pg_server \<Rightarrow> call_env \<Rightarrow> uuid \<Rightarrow> pg_state \<Rightarrow> go_error + Template" where
  "pg_template_GetByID up srv ce i s =
     (case run_stmt (ce_fault ce 0) (Inr (filter (\<lambda>r. t_ID r = i) (pg_templates s), s)) s of
        (Inl e, _) \<Rightarrow> Inl (ErrOther (''getting template: '' @ stmt_text srv e))
      | (Inr [], _) \<Rightarrow> Inl (ErrNotFound ''template'' (uuid_String up i))
      | (Inr (r # _), _) \<Rightarrow>
          (case ce_iter ce of
             ScanErr msg \<Rightarrow> Inl (ErrOther (''getting template: '' @ msg))
           | RowsErr msg \<Rightarrow> Inl (ErrOther (''getting template: '' @ msg))
           | IterOk \<Rightarrow> Inr (scanTemplate r)))"

text \<open>
  \<open>List\<close> does not look at \<open>rows.Err()\<close>: an iteration that breaks off after \<open>ce_rows\<close> rows
  returns those rows as if they were all.
\<close>

definition pg_template_List :: "pg_server \<Rightarrow> call_env \<Rightarrow> int \<Rightarrow> pg_state \<Rightarrow> go_error + Template list" where
  "pg_template_List srv ce limit s =
     (let limit = (if limit \<le> 0 then 50 else limit);
          ts = ce_tscan ce (pg_templates s);
          outcome = map_sum id (\<lambda>rs. (rs, ())) (sql_limit limit (sort_key (\<lambda>t. - t_CreatedAt t) ts))
      in case run_stmt (ce_fault ce 0) outcome () of
           (Inl e, _) \<Rightarrow> Inl (ErrOther (''listing templates: '' @ stmt_text srv e))
         | (Inr rs, _) \<Rightarrow>
             (case ce_iter ce of
                ScanErr msg \<Rightarrow> if rs = [] then Inr [] else Inl (ErrOther (''scanning template: '' @ msg))
              | RowsErr _ \<Rightarrow> Inr (map scanTemplate (take (ce_rows ce) rs))
              | IterOk \<Rightarrow> Inr (map scanTemplate rs)))"

definition template_repository :: "uuid_pkg \<Rightarrow> pg_server \<Rightarrow> pg_state TemplateRepository" where
  "template_repository up srv =
     \<lparr>trepo_Create = pg_template_Create srv, trepo_GetByID = pg_template_GetByID up srv,
      trepo_List = pg_template_List srv\<rparr>"

definition pg_template_rows :: "pg_state \<Rightarrow> uuid \<Rightarrow> Template option" where
  "pg_template_rows s i = find (\<lambda>t. t_ID t = i) (pg_templates s)"

definition pg_template_wf :: "pg_server \<Rightarrow> pg_state \<Rightarrow> bool" where
  "pg_template_wf srv s \<longleftrightarrow> server_ok srv \<and> distinct (map t_ID (pg_templates s)) \<and>
     distinct (map t_Name (pg_templates s)) \<and> list_all (\<lambda>t. chk_channel (t_Channel t)) (pg_templates s)"

lemma find_filter: "find P xs = Some x \<longleftrightarrow> (\<exists>rest. filter P xs = x # rest)"
  by (induction xs) auto

lemma insert_template_Inr:
  assumes "insert_template srv now ts t = Inr r"
  shows "t_ID r = t_ID t" "t_Content r = t_Content t" "chk_channel (t_Channel r)"
    "\<forall>q \<in> set ts. t_ID q \<noteq> t_ID r \<and> t_Name q \<noteq> t_Name r" "srv_varchar srv 255 (t_Name t) = Some (t_Name r)"
  using assms by (auto simp: insert_template_def list_ex_iff split: option.splits if_splits)

lemma pg_template_Create_ok:
  assumes "pg_template_wf srv s" "pg_template_Create srv ce t s = (Inr r, s')"
  shows "pg_template_wf srv s' \<and> pg_template_rows s (t_ID r) = None \<and>
    pg_template_rows s' = (pg_template_rows s)(t_ID r \<mapsto> r) \<and> t_Content r = t_Content t"
proof -
  let ?t = "if t_ID t = uuid_Nil then t\<lparr>t_ID := ce_uuid ce 0\<rparr> else t"
  have ins: "insert_template srv (ce_now ce) (pg_templates s) ?t = Inr r"
    and s': "s' = s\<lparr>pg_templates := pg_templates s @ [r]\<rparr>"
    using assms(2) unfolding pg_template_Create_def Let_def
    by (auto simp: run_stmt_def split: net_fault.splits iter_fault.splits sum.splits)
  note cols = insert_template_Inr [OF ins]
  have new: "pg_template_rows s (t_ID r) = None"
    using cols(4) by (simp add: pg_template_rows_def find_None_all)
  moreover have "pg_template_rows s' = (pg_template_rows s)(t_ID r \<mapsto> r)"
    using new by (auto simp: pg_template_rows_def s' find_append fun_eq_iff split: option.splits)
  moreover have "pg_template_wf srv s'"
    using assms(1) cols(3,4) by (auto simp: pg_template_wf_def s')
  moreover have "t_Content r = t_Content t" using cols(2) by (simp split: if_splits)
  ultimately show ?thesis by blast
qed

interpretation pg_templates: template_store "template_repository up srv" "pg_template_wf srv" pg_template_rows for up srv
proof (unfold_locales, unfold template_repository_def TemplateRepository.simps)
  fix s ce i t assume "pg_template_GetByID up srv ce i s = Inr t"
  then show "pg_template_rows s i = Some t"
    by (auto simp: pg_template_GetByID_def run_stmt_def pg_template_rows_def find_filter
        split: net_fault.splits list.splits iter_fault.splits)
qed (rule pg_template_Create_ok)

section \<open>Batches and idempotency keys\<close>

text \<open>A notification with an idempotency key, and the table that holds just given rows.\<close>

definition keyed_row :: Notification where
  "keyed_row = sample_notification\<lparr>n_IdempotencyKey := Some ''k'', n_Status := ''pending''\<rparr>"

definition keyed_db :: "Notification list \<Rightarrow> pg_state" where
  "keyed_db rs = \<lparr>pg_notifications = rs, pg_templates = []\<rparr>"

lemma keyed_db_wf: "pg_wf any_server (keyed_db [])"
  by (simp add: pg_wf_def) (simp add: keyed_db_def idempotency_keys_def)

lemmas insert_eval = insert_outcome_def insert_row_def with_defaults_def Let_def run_stmt_def varchar_null_def
  any_server_def utf8_length_def check_row_def int4_def chk_channel_def chk_status_def chk_priority_def
  unique_violation_def

lemma keyed_create: "pg_Create any_server (calm 0 (\<lambda>_. 7)) keyed_row (keyed_db []) = (Inr keyed_row, keyed_db [keyed_row])"
  by (simp add: pg_Create_def insert_eval keyed_row_def keyed_db_def sample_notification_def)

lemma keyed_batch:
  "pg_CreateBatch any_server (calm 0 (\<lambda>_. 7)) [keyed_row] (keyed_db []) = (Inr [keyed_row], keyed_db [keyed_row])"
  by (simp add: pg_CreateBatch_def insert_eval keyed_row_def keyed_db_def sample_notification_def)

text \<open>
  C20. \<open>CreateBatch\<close> is atomic, whatever goes wrong during it: either the table is as it was, or every
  notification of the batch has become one new row, in order, and nothing else has changed. When it
  reports success the rows are there and are the ones it returns; when it reports an error they are
  there only if the reply to the commit was lost.
\<close>

theorem create_batch_atomic:
  assumes "pg_wf srv s" "pg_CreateBatch srv ce ns s = (out, s')"
  shows "pg_wf srv s' \<and>
    (case out of
       Inr rs \<Rightarrow> list_all2 stored_from ns rs \<and> s' = s\<lparr>pg_notifications := pg_notifications s @ rs\<rparr>
     | Inl e \<Rightarrow> s' = s \<or>
         (\<exists>rs msg. ce_fault ce (length ns + 1) = LostAfter msg \<and> list_all2 stored_from ns rs \<and>
            s' = s\<lparr>pg_notifications := pg_notifications s @ rs\<rparr>))"
proof -
  have lost: "s' = s \<or> (\<exists>msg. ce_fault ce (Suc (length ns)) = LostAfter msg)" if "out = Inl e" for e
    using assms(2) that
    by (auto simp: pg_CreateBatch_def run_stmt_def split: net_fault.splits sum.splits prod.splits)
  from pg_CreateBatch_cases [OF assms] show ?thesis
  proof (elim disjE exE conjE)
    fix rs assume "Postgres.batch_inserts srv ce 0 ns s = Inr (rs, s')" and out: "out = Inr rs"
    from batch_inserts_adds [OF assms(1) this(1)] show ?thesis by (auto simp: out)
  next
    fix rs e assume "Postgres.batch_inserts srv ce 0 ns s = Inr (rs, s')" and out: "out = Inl e"
    from batch_inserts_adds [OF assms(1) this(1)] lost [OF this(2)] show ?thesis
      unfolding out sum.case Suc_eq_plus1 [symmetric] by blast
  qed (use assms(1) in simp)
qed

theorem create_batch_atomic_witness:
  "pg_wf any_server (keyed_db [keyed_row]) \<and> list_all2 stored_from [keyed_row] [keyed_row]"
  using create_batch_atomic [OF keyed_db_wf keyed_batch] unfolding sum.case by blast

lemma same_key_same_row:
  "distinct (idempotency_keys rs) \<Longrightarrow> r \<in> set rs \<Longrightarrow> q \<in> set rs \<Longrightarrow>
   n_IdempotencyKey r = Some key \<Longrightarrow> n_IdempotencyKey q = Some key \<Longrightarrow> r = q"
proof (induction rs)
  case Nil
  then show ?case by simp
next
  case (Cons x rs)
  have split: "idempotency_keys (x # rs) = (case n_IdempotencyKey x of None \<Rightarrow> [] | Some k \<Rightarrow> [k]) @ idempotency_keys rs"
    by (simp add: idempotency_keys_def)
  from Cons show ?case
    using idempotency_keys_set [of key rs] by (auto simp: split split: option.splits)
qed

lemma key_taken_refused:
  assumes "server_ok srv" "\<exists>q \<in> set (pg_notifications s). n_IdempotencyKey q = Some key"
    and "n_IdempotencyKey m = Some key" "utf8_length key \<le> 255"
  shows "insert_outcome srv now s m \<noteq> Inr (r, s2)"
proof
  assume "insert_outcome srv now s m = Inr (r, s2)"
  then have ins: "insert_row srv now (pg_notifications s) m = Inr r"
    by (auto simp: insert_outcome_def split: sum.splits)
  have "n_IdempotencyKey r = Some key"
    using insert_row_Inr(14) [OF assms(1) ins] assms by (simp add: varchar_null_def server_ok_def)
  then show False
    using insert_row_Inr(2) [OF assms(1) ins] assms(2) by (auto simp: unique_violation_def list_ex_iff)
qed

text \<open>
  C21. An idempotency key is taken once: after a \<open>Create\<close> with the key succeeded, another with the
  same key, whatever else it carries and whatever faults it meets, returns an error and leaves the
  table as it is; and in every well-formed table no two rows share a key.
\<close>

theorem idempotency_key_once:
  assumes "pg_wf srv s" "pg_Create srv ce n s = (Inr n', s1)"
    and "n_IdempotencyKey n = Some key" "utf8_length key \<le> 255" "n_IdempotencyKey m = Some key"
  shows "(\<exists>e. pg_Create srv ce' m s1 = (Inl e, s1)) \<and>
    (\<forall>r q. r \<in> set (pg_notifications s1) \<longrightarrow> q \<in> set (pg_notifications s1) \<longrightarrow>
       n_IdempotencyKey r = Some key \<longrightarrow> n_IdempotencyKey q = Some key \<longrightarrow> r = q)"
proof -
  have ok: "server_ok srv" using assms(1) by (simp add: pg_wf_def)
  from pg_Create_cases [OF assms(1,2)]
  have ins: "insert_outcome srv (ce_now ce) s (with_defaults ce 0 n) = Inr (n', s1)" by auto
  note adds = insert_outcome_adds [OF assms(1) ins]
  have "insert_row srv (ce_now ce) (pg_notifications s) (with_defaults ce 0 n) = Inr n'"
    using ins by (auto simp: insert_outcome_def split: sum.splits)
  from insert_row_Inr(14) [OF ok this] have "n_IdempotencyKey n' = Some key"
    using ok assms(3,4) by (simp add: with_defaults_columns varchar_null_def server_ok_def)
  then have taken: "\<exists>q \<in> set (pg_notifications s1). n_IdempotencyKey q = Some key"
    using adds(4) by simp
  have "insert_outcome srv now s1 (with_defaults ce' 0 m) \<noteq> Inr (r, s2)" for now r s2
    using key_taken_refused [OF ok taken] assms(4,5) by (simp add: with_defaults_columns)
  with pg_Create_cases [OF adds(1), of ce' m] have "\<exists>e. pg_Create srv ce' m s1 = (Inl e, s1)"
    by (metis surj_pair)
  moreover have "distinct (idempotency_keys (pg_notifications s1))" using adds(1) by (simp add: pg_wf_def)
  ultimately show ?thesis using same_key_same_row by blast
qed

theorem idempotency_key_once_witness:
  "\<exists>e. pg_Create any_server (calm 1 (\<lambda>_. 8)) (keyed_row\<lparr>n_ID := 0, n_Content := ''other''\<rparr>)
     (keyed_db [keyed_row]) = (Inl e, keyed_db [keyed_row])"
  using idempotency_key_once [OF keyed_db_wf keyed_create, of "''k''" "keyed_row\<lparr>n_ID := 0, n_Content := ''other''\<rparr>"]
  by (simp add: keyed_row_def utf8_length_def)

end
