(* ===== verification/Queue.thy ===== *)
theory Queue
  imports Domain Json
begin

text \<open>
  Package \<open>internal/queue\<close>: the names and bindings RabbitMQ is given (\<open>rabbitmq.go\<close>) and the
  producer (\<open>producer.go\<close>). The broker itself is outside the repository: \<open>DeclareInfrastructure\<close>
  is modelled by the AMQP calls it makes, in order, up to the first that fails, and \<open>Publish\<close> by
  the message it hands to the channel, its body encoded as \<open>json.Marshal\<close> does. The lemmas read the declared topology: every channel has
  exactly one queue, whose rejected messages have exactly one dead-letter queue, and everything a
  call mentions was declared before it.
\<close>

section \<open>Names\<close>

definition ExchangeName :: string where "ExchangeName = ''notifications''"
definition DLXExchangeName :: string where "DLXExchangeName = ''notifications.dlx''"
definition QueueSMS :: string where "QueueSMS = ''notifications.sms''"
definition QueueEmail :: string where "QueueEmail = ''notifications.email''"
definition QueuePush :: string where "QueuePush = ''notifications.push''"
definition DLQueueSMS :: string where "DLQueueSMS = ''notifications.sms.dlq''"
definition DLQueueEmail :: string where "DLQueueEmail = ''notifications.email.dlq''"
definition DLQueuePush :: string where "DLQueuePush = ''notifications.push.dlq''"
definition RoutingKeySMS :: string where "RoutingKeySMS = ''sms''"
definition RoutingKeyEmail :: string where "RoutingKeyEmail = ''email''"
definition RoutingKeyPush :: string where "RoutingKeyPush = ''push''"
definition MaxPriority :: int where "MaxPriority = 10"

lemmas queue_names = ExchangeName_def DLXExchangeName_def QueueSMS_def QueueEmail_def QueuePush_def
  DLQueueSMS_def DLQueueEmail_def DLQueuePush_def RoutingKeySMS_def RoutingKeyEmail_def RoutingKeyPush_def
  MaxPriority_def

section \<open>Connecting\<close>

text \<open>
  \<open>dial i\<close> is the outcome of the \<open>i\<close>-th \<open>amqp.Dial\<close>. The loop makes up to five attempts and
  sleeps two seconds after each failure; the model returns the connection or the error together
  with the number of attempts made.
\<close>

fun dial_loop :: "(nat \<Rightarrow> string + 'conn) \<Rightarrow> nat \<Rightarrow> nat \<Rightarrow> string \<Rightarrow> (go_error + 'conn) \<times> nat" where
  "dial_loop dial 0 i err =
     (Inl (ErrOther (''connecting to rabbitmq after 5 attempts: '' @ err)), i)"
| "dial_loop dial (Suc left) i err =
     (case dial i of
        Inr conn \<Rightarrow> (Inr conn, Suc i)
      | Inl err' \<Rightarrow> dial_loop dial left (Suc i) err')"

definition NewConnection :: "(nat \<Rightarrow> string + 'conn) \<Rightarrow> (go_error + 'conn) \<times> nat" where
  "NewConnection dial = dial_loop dial 5 0 []"

text \<open>\<open>Connection.Channel\<close> wraps the library's error.\<close>

definition Connection_Channel :: "string option \<Rightarrow> go_error option" where
  "Connection_Channel e = map_option (\<lambda>msg. ErrOther (''opening channel: '' @ msg)) e"

text \<open>The error of \<open>NewProducer\<close>, which opens the channel it publishes on.\<close>

definition NewProducer :: "string option \<Rightarrow> go_error option" where
  "NewProducer e = map_option (\<lambda>err. ErrOther (''creating producer channel: '' @ Error err)) (Connection_Channel e)"

section \<open>Declarations\<close>

record queue_args =
  qa_maxPriority :: int
  qa_dlx :: string
  qa_dlRoutingKey :: string

text \<open>The AMQP calls; every exchange is declared durable and of kind \<open>direct\<close>, every queue durable.\<close>

datatype amqp_call =
    ExchangeDeclare string string bool
  | QueueDeclare string bool "queue_args option"
  | QueueBind string string string

text \<open>How the error of each call is wrapped.\<close>

fun call_error :: "amqp_call \<Rightarrow> string \<Rightarrow> go_error" where
  "call_error (ExchangeDeclare name _ _) err = ErrOther (''declaring exchange '' @ name @ '': '' @ err)"
| "call_error (QueueDeclare name _ (Some _)) err = ErrOther (''declaring queue '' @ name @ '': '' @ err)"
| "call_error (QueueDeclare name _ None) err = ErrOther (''declaring DLQ '' @ name @ '': '' @ err)"
| "call_error (QueueBind name _ exchange) err =
     ErrOther ((if exchange = ExchangeName then ''binding queue '' else ''binding DLQ '') @ name @ '': '' @ err)"

definition queue_table :: "(string \<times> string \<times> string) list" where
  "queue_table = [(QueueSMS, RoutingKeySMS, ''sms.dlq''), (QueueEmail, RoutingKeyEmail, ''email.dlq''),
     (QueuePush, RoutingKeyPush, ''push.dlq'')]"

definition dlq_table :: "(string \<times> string) list" where
  "dlq_table = [(DLQueueSMS, ''sms.dlq''), (DLQueueEmail, ''email.dlq''), (DLQueuePush, ''push.dlq'')]"

definition infrastructure :: "amqp_call list" where
  "infrastructure =
     [ExchangeDeclare ExchangeName ''direct'' True, ExchangeDeclare DLXExchangeName ''direct'' True] @
     concat (map (\<lambda>(name, routingKey, dlqRoutingKey).
       [QueueDeclare name True (Some \<lparr>qa_maxPriority = MaxPriority, qa_dlx = DLXExchangeName,
            qa_dlRoutingKey = dlqRoutingKey\<rparr>),
        QueueBind name routingKey ExchangeName]) queue_table) @
     concat (map (\<lambda>(name, routingKey).
       [QueueDeclare name True None, QueueBind name routingKey DLXExchangeName]) dlq_table)"

text \<open>The calls are made in order; the first to fail ends the function with its error.\<close>

fun declare_all :: "(nat \<Rightarrow> string option) \<Rightarrow> nat \<Rightarrow> amqp_call list \<Rightarrow> go_error option \<times> amqp_call list" where
  "declare_all fault i [] = (None, [])"
| "declare_all fault i (c # cs) =
     (case fault i of
        Some err \<Rightarrow> (Some (call_error c err), [])
      | None \<Rightarrow> (let (res, done) = declare_all fault (Suc i) cs in (res, c # done)))"

text \<open>\<open>channel_err\<close> is the failure of opening the AMQP channel.\<close>

definition DeclareInfrastructure ::
    "string option \<Rightarrow> (nat \<Rightarrow> string option) \<Rightarrow> go_error option \<times> amqp_call list" where
  "DeclareInfrastructure channel_err fault =
     (case Connection_Channel channel_err of
        Some err \<Rightarrow> (Some err, [])
      | None \<Rightarrow> declare_all fault 0 infrastructure)"

section \<open>Publishing\<close>

record message =
  m_ID :: string
  m_Recipient :: string
  m_Channel :: string
  m_Content :: string
  m_Subject :: "string option"
  m_Priority :: string
  m_Metadata :: "string option"

record Publishing =
  pub_Exchange :: string
  pub_RoutingKey :: string
  pub_ContentType :: string
  pub_Persistent :: bool
  pub_Priority :: "8 word"
  pub_MessageId :: string
  pub_CorrelationId :: string
  pub_Body :: string

definition mapPriority :: "string \<Rightarrow> 8 word" where
  "mapPriority p =
     (if p = PriorityHigh then 10 else if p = PriorityNormal then 5 else if p = PriorityLow then 1 else 5)"

definition message_of :: "uuid_pkg \<Rightarrow> Notification \<Rightarrow> message" where
  "message_of up n = \<lparr>m_ID = uuid_String up (n_ID n), m_Recipient = n_Recipient n, m_Channel = n_Channel n,
     m_Content = n_Content n, m_Subject = n_Subject n, m_Priority = n_Priority n, m_Metadata = n_Metadata n\<rparr>"

text \<open>
  \<open>json.Marshal\<close> of a message: its fields in order, an absent subject and empty metadata left out
  (\<open>omitempty\<close>), the metadata checked and compacted. It fails only if the metadata are no JSON.
\<close>

definition metadata_member :: "string option \<Rightarrow> (string \<times> string) list option" where
  "metadata_member metadata =
     (case metadata of
        None \<Rightarrow> Some []
      | Some raw \<Rightarrow> if raw = [] then Some [] else map_option (\<lambda>t. [(''metadata'', t)]) (json_compact raw))"

definition message_members :: "message \<Rightarrow> (string \<times> string) list \<Rightarrow> (string \<times> string) list" where
  "message_members m metadata =
     [(''id'', json_string (m_ID m)), (''recipient'', json_string (m_Recipient m)),
      (''channel'', json_string (m_Channel m)), (''content'', json_string (m_Content m))] @
     (case m_Subject m of None \<Rightarrow> [] | Some subject \<Rightarrow> [(''subject'', json_string subject)]) @
     [(''priority'', json_string (m_Priority m))] @ metadata"

definition marshal_message :: "message \<Rightarrow> string option" where
  "marshal_message m = map_option (\<lambda>metadata. object_text (message_members m metadata)) (metadata_member (m_Metadata m))"

lemma marshal_plain: "m_Metadata m = None \<Longrightarrow> marshal_message m = Some (object_text (message_members m []))"
  by (simp add: marshal_message_def metadata_member_def)

text \<open>
  The surroundings of a call of \<open>Publish\<close>: the text of an encoding error, the correlation id of the
  context, and what happens to the hand-over to the broker.
\<close>

record publish_env =
  pe_json_err :: string
  pe_correlation :: string
  pe_fault :: net_fault

text \<open>The error, and the message that reached the broker, if one did.\<close>

definition Publish :: "uuid_pkg \<Rightarrow> publish_env \<Rightarrow> Notification \<Rightarrow> go_error option \<times> Publishing option" where
  "Publish up env n =
     (case marshal_message (message_of up n) of
        None \<Rightarrow> (Some (ErrOther (''marshaling message: '' @ pe_json_err env)), None)
      | Some body \<Rightarrow>
          (let pub = \<lparr>pub_Exchange = ExchangeName, pub_RoutingKey = n_Channel n,
                 pub_ContentType = ''application/json'', pub_Persistent = True,
                 pub_Priority = mapPriority (n_Priority n), pub_MessageId = uuid_String up (n_ID n),
                 pub_CorrelationId = pe_correlation env, pub_Body = body\<rparr>
           in (case pe_fault env of
                 NoFault \<Rightarrow> (None, Some pub)
               | LostBefore err \<Rightarrow> (Some (ErrOther (''publishing to queue: '' @ err)), None)
               | LostAfter err \<Rightarrow> (Some (ErrOther (''publishing to queue: '' @ err)), Some pub))))"

section \<open>Lemmas\<close>

lemma dial_loop_calls: "i \<le> snd (dial_loop dial left i err) \<and> snd (dial_loop dial left i err) \<le> i + left"
  by (induction dial left i err rule: dial_loop.induct) (auto split: sum.splits)

lemma dial_loop_success:
  "dial_loop dial left i err = (Inr c, k) \<longleftrightarrow>
     (\<exists>j < left. dial (i + j) = Inr c \<and> k = i + Suc j \<and> (\<forall>l < j. \<exists>e. dial (i + l) = Inl e))"
proof (induction dial left i err rule: dial_loop.induct)
  case (1 dial i err)
  then show ?case by simp
next
  case (2 dial left i err)
  show ?case
  proof (cases "dial i")
    case (Inr c')
    then have "(\<forall>l < j. \<exists>e. dial (i + l) = Inl e) \<longleftrightarrow> j = 0" for j
      by (metis Inl_Inr_False add.right_neutral neq0_conv less_zeroE)
    with Inr show ?thesis by auto
  next
    case (Inl e)
    have "(\<exists>j < Suc left. dial (i + j) = Inr c \<and> k = i + Suc j \<and> (\<forall>l < j. \<exists>e. dial (i + l) = Inl e))
        \<longleftrightarrow> (\<exists>j < left. dial (Suc i + j) = Inr c \<and> k = Suc i + Suc j \<and> (\<forall>l < j. \<exists>e. dial (Suc i + l) = Inl e))"
      using Inl by (auto simp: Ex_less_Suc2 All_less_Suc2)
    with Inl "2.IH" [OF Inl] show ?thesis by simp
  qed
qed

text \<open>Bindings of an exchange under a routing key, and a queue's arguments, as declared by a list of calls.\<close>

definition bound_queues :: "amqp_call list \<Rightarrow> string \<Rightarrow> string \<Rightarrow> string list" where
  "bound_queues calls exchange key =
     concat (map (\<lambda>c. case c of QueueBind q k e \<Rightarrow> if e = exchange \<and> k = key then [q] else [] | _ \<Rightarrow> []) calls)"

definition declared_args :: "amqp_call list \<Rightarrow> string \<Rightarrow> queue_args option list" where
  "declared_args calls queue =
     concat (map (\<lambda>c. case c of QueueDeclare q _ a \<Rightarrow> if q = queue then [a] else [] | _ \<Rightarrow> []) calls)"

text \<open>Every call only mentions what earlier calls declared.\<close>

fun declared_before_use :: "string set \<Rightarrow> string set \<Rightarrow> amqp_call list \<Rightarrow> bool" where
  "declared_before_use exchanges queues [] = True"
| "declared_before_use exchanges queues (ExchangeDeclare e _ _ # cs) = declared_before_use (insert e exchanges) queues cs"
| "declared_before_use exchanges queues (QueueDeclare q _ a # cs) =
     ((case a of None \<Rightarrow> True | Some args \<Rightarrow> qa_dlx args \<in> exchanges) \<and>
      declared_before_use exchanges (insert q queues) cs)"
| "declared_before_use exchanges queues (QueueBind q k e # cs) =
     (q \<in> queues \<and> e \<in> exchanges \<and> declared_before_use exchanges queues cs)"

text \<open>The queue that serves a channel.\<close>

definition channel_queue :: "string \<Rightarrow> string" where
  "channel_queue ch = ''notifications.'' @ ch"

lemma declare_all_ok: "(\<And>j. fault j = None) \<Longrightarrow> declare_all fault i cs = (None, cs)"
  by (induction cs arbitrary: i) auto

lemma declare_all_prefix: "prefix (snd (declare_all fault i cs)) cs"
  by (induction cs arbitrary: i) (auto simp: split_beta Let_def split: option.splits)

lemma declared_before_use_prefix:
  "declared_before_use es qs (cs @ cs') \<Longrightarrow> declared_before_use es qs cs"
  by (induction es qs cs rule: declared_before_use.induct) auto

lemma infrastructure_order: "declared_before_use {} {} infrastructure"
  by (simp add: infrastructure_def queue_table_def dlq_table_def)

lemma infrastructure_complete:
  "isValidChannel ch \<Longrightarrow>
   bound_queues infrastructure ExchangeName ch = [channel_queue ch] \<and>
   declared_args infrastructure (channel_queue ch) =
     [Some \<lparr>qa_maxPriority = 10, qa_dlx = DLXExchangeName, qa_dlRoutingKey = ch @ ''.dlq''\<rparr>] \<and>
   bound_queues infrastructure DLXExchangeName (ch @ ''.dlq'') = [channel_queue ch @ ''.dlq''] \<and>
   declared_args infrastructure (channel_queue ch @ ''.dlq'') = [None]"
  unfolding isValidChannel_iff
  by (elim insertE emptyE)
    (simp_all add: bound_queues_def declared_args_def infrastructure_def queue_table_def dlq_table_def
      queue_names channel_queue_def)



lemma mapPriority_order:
  "isValidPriority p \<Longrightarrow> unat (mapPriority p) \<le> nat MaxPriority"
  by (auto simp: isValidPriority_def mapPriority_def MaxPriority_def domain_consts)

end
