(* ===== verification/Service.thy ===== *)
theory Service
  imports Store Queue
begin

text \<open>
  Package \<open>internal/service\<close>, the notification service, over any implementation of the two
  repository interfaces. The state is the store and the messages the broker has taken, in order.
  A notification is published to the queue and then marked \<open>queued\<close>; each of the two can fail on
  its own, and the service then goes on with what it has.

  What is shown for every implementation of \<open>notification_store\<close> is proved inside that locale and
  stated for PostgreSQL at the end.
\<close>

section \<open>Operations\<close>

record service_env =
  sv_repo :: "nat \<Rightarrow> call_env"
  sv_template :: call_env
  sv_pub :: "nat \<Rightarrow> publish_env"
  sv_now :: "nat \<Rightarrow> time"
  sv_batch :: uuid
  sv_order1 :: "(string \<times> string) list"
  sv_order2 :: "(string \<times> string) list"

text \<open>
  \<open>sv_repo 0\<close> is the environment of the insertion and \<open>sv_repo (i + 1)\<close> that of marking the
  \<open>i\<close>-th notification; \<open>sv_order1\<close> and \<open>sv_order2\<close> are the orders in which \<open>Render\<close> ranges over
  the variables.
\<close>

definition notification_of_request :: "uuid option \<Rightarrow> CreateNotificationRequest \<Rightarrow> Notification" where
  "notification_of_request batch r =
     \<lparr>n_ID = uuid_Nil, n_BatchID = batch, n_IdempotencyKey = r_IdempotencyKey r, n_Recipient = r_Recipient r,
      n_Channel = r_Channel r, n_Content = r_Content r, n_Subject = r_Subject r, n_Priority = r_Priority r,
      n_Status = [], n_ProviderMessageID = None, n_RetryCount = 0, n_MaxRetries = 0, n_NextRetryAt = None,
      n_ScheduledAt = r_ScheduledAt r, n_SentAt = None, n_FailedAt = None, n_ErrorMessage = None,
      n_Metadata = r_Metadata r, n_CreatedAt = zero_time, n_UpdatedAt = zero_time\<rparr>"

definition future :: "time \<Rightarrow> Notification \<Rightarrow> bool" where
  "future now n = (case n_ScheduledAt n of None \<Rightarrow> False | Some t \<Rightarrow> now < t)"

text \<open>\<open>Publish\<close>, then \<open>UpdateStatus(queued)\<close>: the notification as the caller holds it afterwards, and the state.\<close>

definition publish_and_mark :: "uuid_pkg \<Rightarrow> 'st NotificationRepository \<Rightarrow> publish_env \<Rightarrow> call_env \<Rightarrow>
    Notification \<Rightarrow> 'st \<times> Publishing list \<Rightarrow> Notification \<times> 'st \<times> Publishing list" where
  "publish_and_mark up R pe ce n w =
     (let (s, out) = w;
          (err, pub) = Publish up pe n;
          out = out @ (case pub of None \<Rightarrow> [] | Some p \<Rightarrow> [p])
      in case err of
           Some _ \<Rightarrow> (n, s, out)
         | None \<Rightarrow>
             (case repo_UpdateStatus R ce (n_ID n) StatusQueued s of
                (Some _, s') \<Rightarrow> (n, s', out)
              | (None, s') \<Rightarrow> (n\<lparr>n_Status := StatusQueued\<rparr>, s', out)))"

definition resolve_template :: "'st TemplateRepository \<Rightarrow> service_env \<Rightarrow> CreateNotificationRequest \<Rightarrow> 'st \<Rightarrow>
    go_error + CreateNotificationRequest" where
  "resolve_template TR env r s =
     (case r_TemplateID r of
        None \<Rightarrow> Inr r
      | Some i \<Rightarrow>
          (case trepo_GetByID TR (sv_template env) i s of
             Inl e \<Rightarrow> Inl e
           | Inr t \<Rightarrow>
               (let (content, subject) = Render t (sv_order1 env) (sv_order2 env);
                    r = r\<lparr>r_Content := content\<rparr>
                in Inr (case subject of None \<Rightarrow> r | Some _ \<Rightarrow> r\<lparr>r_Subject := subject\<rparr>))))"

definition Service_Create :: "uuid_pkg \<Rightarrow> 'st NotificationRepository \<Rightarrow> 'st TemplateRepository \<Rightarrow> service_env \<Rightarrow>
    CreateNotificationRequest \<Rightarrow> 'st \<times> Publishing list \<Rightarrow> (go_error + Notification) \<times> 'st \<times> Publishing list" where
  "Service_Create up R TR env req w =
     (let (s, out) = w;
          (req, err) = CreateNotificationRequest_Validate req
      in case err of
           Some e \<Rightarrow> (Inl e, s, out)
         | None \<Rightarrow>
             (case resolve_template TR env req s of
                Inl e \<Rightarrow> (Inl e, s, out)
              | Inr req \<Rightarrow>
                  (case repo_Create R (sv_repo env 0) (notification_of_request None req) s of
                     (Inl e, s) \<Rightarrow> (Inl e, s, out)
                   | (Inr n, s) \<Rightarrow>
                       if future (sv_now env 0) n then (Inr n, s, out)
                       else (let (n, w) = publish_and_mark up R (sv_pub env 0) (sv_repo env 1) n (s, out)
                             in (Inr n, w)))))"

fun publish_batch :: "uuid_pkg \<Rightarrow> 'st NotificationRepository \<Rightarrow> service_env \<Rightarrow> nat \<Rightarrow> Notification list \<Rightarrow>
    'st \<times> Publishing list \<Rightarrow> Notification list \<times> 'st \<times> Publishing list" where
  "publish_batch up R env i [] w = ([], w)"
| "publish_batch up R env i (n # ns) w =
     (let (n, w) = (if future (sv_now env i) n then (n, w)
                    else publish_and_mark up R (sv_pub env i) (sv_repo env (Suc i)) n w);
          (ns, w) = publish_batch up R env (Suc i) ns w
      in (n # ns, w))"

definition Service_CreateBatch :: "uuid_pkg \<Rightarrow> 'st NotificationRepository \<Rightarrow> service_env \<Rightarrow>
    BatchCreateRequest \<Rightarrow> 'st \<times> Publishing list \<Rightarrow> (go_error + uuid \<times> Notification list) \<times> 'st \<times> Publishing list" where
  "Service_CreateBatch up R env req w =
     (let (s, out) = w;
          (req, err) = BatchCreateRequest_Validate req
      in case err of
           Some e \<Rightarrow> (Inl e, s, out)
         | None \<Rightarrow>
             (let batchID = sv_batch env;
                  notifications = map (notification_of_request (Some batchID)) (b_Notifications req)
              in case repo_CreateBatch R (sv_repo env 0) notifications s of
                   (Inl e, s) \<Rightarrow> (Inl e, s, out)
                 | (Inr ns, s) \<Rightarrow>
                     (let (ns, w) = publish_batch up R env 0 ns (s, out)
                      in (Inr (batchID, ns), w))))"

definition Service_GetByID :: "'st NotificationRepository \<Rightarrow> call_env \<Rightarrow> uuid \<Rightarrow> 'st \<Rightarrow> go_error + Notification" where
  "Service_GetByID R ce i s = repo_GetByID R ce i s"

definition Service_GetByBatchID :: "'st NotificationRepository \<Rightarrow> call_env \<Rightarrow> uuid \<Rightarrow> 'st \<Rightarrow> go_error + Notification list" where
  "Service_GetByBatchID R ce b s = repo_GetByBatchID R ce b s"

definition Service_Cancel :: "'st NotificationRepository \<Rightarrow> call_env \<Rightarrow> call_env \<Rightarrow> uuid \<Rightarrow> 'st \<Rightarrow>
    (go_error + Notification) \<times> 'st" where
  "Service_Cancel R ce ce' i s =
     (case repo_Cancel R ce i s of
        (Some e, s) \<Rightarrow> (Inl e, s)
      | (None, s) \<Rightarrow> (repo_GetByID R ce' i s, s))"

definition Service_List :: "'st NotificationRepository \<Rightarrow> call_env \<Rightarrow> ListFilters \<Rightarrow> Cursor option \<Rightarrow> int \<Rightarrow> 'st \<Rightarrow>
    go_error + ListResult" where
  "Service_List R ce filters cursor limit s = repo_List R ce filters cursor limit s"

section \<open>Publishing\<close>

lemma Publish_message:
  "Publish up pe n = (err, Some p) \<Longrightarrow>
   pub_MessageId p = uuid_String up (n_ID n) \<and> pub_RoutingKey p = n_Channel n \<and>
   pub_Priority p = mapPriority (n_Priority n) \<and> pub_Persistent p \<and> marshal_message (message_of up n) = Some (pub_Body p)"
  by (auto simp: Publish_def Let_def split: option.splits net_fault.splits)

lemma Publish_ok: "Publish up pe n = (None, pub) \<Longrightarrow> \<exists>p. pub = Some p"
  by (auto simp: Publish_def Let_def split: option.splits net_fault.splits)

text \<open>\<open>p\<close> is the message of the row \<open>n\<close>.\<close>

definition message_for :: "uuid_pkg \<Rightarrow> Notification \<Rightarrow> Publishing \<Rightarrow> bool" where
  "message_for up n p \<longleftrightarrow> pub_MessageId p = uuid_String up (n_ID n) \<and> pub_RoutingKey p = n_Channel n \<and>
     pub_Priority p = mapPriority (n_Priority n) \<and> pub_Persistent p \<and> marshal_message (message_of up n) = Some (pub_Body p)"

text \<open>
  How a stored notification \<open>n\<close> fares when it is handed to the queue: \<open>m'\<close> is the table afterwards,
  \<open>pubs\<close> the messages the broker has taken for it and \<open>n'\<close> the caller's copy. At most the row's status
  has changed, to \<open>queued\<close>, and then the message is out; \<open>queued\<close> in the caller's copy means that
  the row says so too; and nothing is published before its time.
\<close>

definition handed_over :: "uuid_pkg \<Rightarrow> time \<Rightarrow> Notification \<Rightarrow> (uuid \<rightharpoonup> Notification) \<Rightarrow> Publishing list \<Rightarrow>
    Notification \<Rightarrow> bool" where
  "handed_over up now n m' pubs n' \<longleftrightarrow>
     (\<exists>r. m' (n_ID n) = Some r \<and>
        (r = n \<or> pubs \<noteq> [] \<and> (\<exists>t. r = set_status StatusQueued t n)) \<and>
        (n' = n \<or> n' = n\<lparr>n_Status := StatusQueued\<rparr> \<and> n_Status r = StatusQueued \<and> pubs \<noteq> [])) \<and>
     length pubs \<le> 1 \<and> list_all (message_for up n) pubs \<and> (future now n \<longrightarrow> pubs = [])"

text \<open>A row as it is when it has just been created by the service.\<close>

definition fresh :: "Notification \<Rightarrow> bool" where
  "fresh n \<longleftrightarrow> n_Status n = StatusPending \<and> n_RetryCount n = 0 \<and> n_SentAt n = None \<and> n_FailedAt n = None"

lemma stored_fresh: "stored_from (notification_of_request b r) n \<Longrightarrow> fresh n"
  by (simp add: stored_from_def notification_of_request_def fresh_def)

definition frame :: "uuid set \<Rightarrow> (uuid \<rightharpoonup> Notification) \<Rightarrow> (uuid \<rightharpoonup> Notification) \<Rightarrow> bool" where
  "frame I m m' \<longleftrightarrow> (\<forall>i. i \<notin> I \<longrightarrow> m' i = m i)"

lemma handed_over_frame:
  "handed_over up now n m pubs n' \<Longrightarrow> frame I m m' \<Longrightarrow> n_ID n \<notin> I \<Longrightarrow> handed_over up now n m' pubs n'"
  by (auto simp: handed_over_def frame_def)

context notification_store
begin

lemma publish_and_mark_hands_over:
  assumes "wf s" and "rows s (n_ID n) = Some n" and "\<not> future now n"
    and "publish_and_mark up R pe ce n (s, out) = (n', s', out')"
  shows "wf s' \<and> frame {n_ID n} (rows s) (rows s') \<and> (\<exists>pubs. out' = out @ pubs \<and> handed_over up now n (rows s') pubs n')"
proof -
  obtain err pub where pub: "Publish up pe n = (err, pub)" by force
  let ?pubs = "case pub of None \<Rightarrow> [] | Some p \<Rightarrow> [p]"
  have msgs: "list_all (message_for up n) ?pubs" "length ?pubs \<le> 1"
    using Publish_message [of up pe n err] pub by (auto simp: message_for_def split: option.splits)
  show ?thesis
  proof (cases err)
    case (Some e)
    with assms pub have "n' = n" "s' = s" "out' = out @ ?pubs" by (auto simp: publish_and_mark_def)
    with assms msgs show ?thesis by (auto simp: handed_over_def frame_def)
  next
    case None
    then have pubs: "?pubs \<noteq> []" using Publish_ok pub by fastforce
    obtain e where upd: "repo_UpdateStatus R ce (n_ID n) StatusQueued s = (e, s')" and out': "out' = out @ ?pubs"
      and n': "n' = (if e = None then n\<lparr>n_Status := StatusQueued\<rparr> else n)"
      using assms(4) pub None by (auto simp: publish_and_mark_def Let_def split: prod.splits option.splits)
    from status_writes [OF assms(1) upd]
    have w: "wf s'" "row_write (rows s) (rows s') (n_ID n) (set_status StatusQueued (ce_now ce)) (e = None)" by auto
    from row_write_at [OF w(2) assms(2)]
    have "handed_over up now n (rows s') ?pubs n'"
      unfolding handed_over_def using msgs pubs n' assms(3) by (cases e) (auto simp: set_status_def)
    with w row_write_frame [OF w(2)] out' show ?thesis unfolding frame_def by blast
  qed
qed

lemma publish_batch_hands_over:
  "\<lbrakk>wf s; distinct (map n_ID ns); \<forall>n \<in> set ns. rows s (n_ID n) = Some n;
    publish_batch up R env i ns (s, out) = (ns', s', out')\<rbrakk> \<Longrightarrow>
   wf s' \<and> frame (n_ID ` set ns) (rows s) (rows s') \<and>
   (\<exists>pubss. out' = out @ concat pubss \<and> length pubss = length ns \<and> length ns' = length ns \<and>
      (\<forall>k < length ns. handed_over up (sv_now env (i + k)) (ns ! k) (rows s') (pubss ! k) (ns' ! k)))"
proof (induction ns arbitrary: i s out ns')
  case Nil
  then show ?case by (auto simp: frame_def)
next
  case (Cons n ns)
  let ?step = "if future (sv_now env i) n then (n, (s, out))
    else publish_and_mark up R (sv_pub env i) (sv_repo env (Suc i)) n (s, out)"
  obtain n1 s1 out1 where one: "?step = (n1, s1, out1)" by (metis prod_cases3)
  obtain ns1 where rest: "publish_batch up R env (Suc i) ns (s1, out1) = (ns1, s', out')" and ns': "ns' = n1 # ns1"
    using Cons.prems(4) one by (auto simp: Let_def split: prod.splits)
  have "wf s1 \<and> frame {n_ID n} (rows s) (rows s1) \<and>
      (\<exists>pubs. out1 = out @ pubs \<and> handed_over up (sv_now env i) n (rows s1) pubs n1)"
  proof (cases "future (sv_now env i) n")
    case True
    with one Cons.prems(1,3) show ?thesis by (auto simp: handed_over_def frame_def)
  next
    case False
    with one Cons.prems show ?thesis
      by (intro publish_and_mark_hands_over [where pe = "sv_pub env i"]) auto
  qed
  then obtain pubs where s1: "wf s1" "frame {n_ID n} (rows s) (rows s1)" "out1 = out @ pubs"
    "handed_over up (sv_now env i) n (rows s1) pubs n1" by blast
  have new: "n_ID n \<notin> n_ID ` set ns" using Cons.prems(2) by simp
  have "\<forall>q \<in> set ns. rows s1 (n_ID q) = Some q"
    using Cons.prems(3) s1(2) new by (auto simp: frame_def image_iff)
  from Cons.IH [OF s1(1) _ this rest] Cons.prems(2) obtain pubss where
    fin: "wf s'" "frame (n_ID ` set ns) (rows s1) (rows s')" "out' = out1 @ concat pubss"
      "length pubss = length ns" "length ns1 = length ns"
      "\<forall>k < length ns. handed_over up (sv_now env (Suc i + k)) (ns ! k) (rows s') (pubss ! k) (ns1 ! k)"
    by auto
  have "handed_over up (sv_now env i) n (rows s') pubs n1"
    by (rule handed_over_frame [OF s1(4) fin(2) new])
  with fin(6) have "\<forall>k < length (n # ns). handed_over up (sv_now env (i + k)) ((n # ns) ! k) (rows s')
      ((pubs # pubss) ! k) (ns' ! k)"
    by (auto simp: ns' less_Suc_eq_0_disj)
  moreover have "frame (n_ID ` set (n # ns)) (rows s) (rows s')"
    using s1(2) fin(2) by (auto simp: frame_def)
  ultimately show ?case
    using fin(1,3,4,5) s1(3) ns' by (auto intro!: exI [of _ "pubs # pubss"])
qed

end

context notification_store
begin

lemma Service_Create_stores:
  assumes "wf s" "Service_Create up R TR env req (s, out) = (Inr n', s', out')"
  shows "wf s' \<and> valid_request req \<and> (\<exists>n pubs req'. out' = out @ pubs \<and>
    handed_over up (sv_now env 0) n (rows s') pubs n' \<and> rows s (n_ID n) = None \<and>
    frame {n_ID n} (rows s) (rows s') \<and> fresh n \<and>
    resolve_template TR env (with_default_priority req) s = Inr req' \<and>
    n_Channel n = r_Channel req' \<and> n_Content n = r_Content req')"
proof -
  obtain req1 where val: "CreateNotificationRequest_Validate req = (req1, None)"
    using assms(2) by (auto simp: Service_Create_def split: prod.splits option.splits)
  obtain req2 where res: "resolve_template TR env req1 s = Inr req2"
    using assms(2) val by (cases "resolve_template TR env req1 s") (auto simp: Service_Create_def)
  obtain n s1 where cr: "repo_Create R (sv_repo env 0) (notification_of_request None req2) s = (Inr n, s1)"
    using assms(2) val res by (auto simp: Service_Create_def split: sum.splits prod.splits)
  have fin: "(if future (sv_now env 0) n then (n, s1, out)
      else publish_and_mark up R (sv_pub env 0) (sv_repo env 1) n (s1, out)) = (n', s', out')"
    using assms(2) val res cr by (auto simp: Service_Create_def split: if_splits prod.splits)
  from create_inserts [OF assms(1) cr]
  have s1: "wf s1" "stored_from (notification_of_request None req2) n" "rows_added (rows s) (rows s1) [n]" by auto
  then have stored: "rows s1 (n_ID n) = Some n" "rows s (n_ID n) = None" "frame {n_ID n} (rows s) (rows s1)"
    by (auto simp: rows_added_def frame_def)
  have "wf s' \<and> frame {n_ID n} (rows s1) (rows s') \<and> (\<exists>pubs. out' = out @ pubs \<and> handed_over up (sv_now env 0) n (rows s') pubs n')"
  proof (cases "future (sv_now env 0) n")
    case True
    with fin stored s1(1) show ?thesis by (auto simp: handed_over_def frame_def)
  next
    case False
    with fin have "publish_and_mark up R (sv_pub env 0) (sv_repo env 1) n (s1, out) = (n', s', out')" by simp
    from publish_and_mark_hands_over [OF s1(1) stored(1) False this] show ?thesis .
  qed
  then obtain pubs where fr: "frame {n_ID n} (rows s1) (rows s')" and
    h: "wf s'" "out' = out @ pubs" "handed_over up (sv_now env 0) n (rows s') pubs n'" by blast
  have req: "valid_request req" "req1 = with_default_priority req"
    using Validate_ok_iff [of req] Validate_request [of req] val by simp_all
  have "n_Channel n = r_Channel req2" "n_Content n = r_Content req2"
    using s1(2) by (simp_all add: stored_from_def notification_of_request_def)
  moreover have "frame {n_ID n} (rows s) (rows s')" using fr stored(3) by (simp add: frame_def)
  ultimately show ?thesis using h req stored(2) stored_fresh [OF s1(2)] res by blast
qed

lemma Service_Create_error:
  assumes "wf s" "Service_Create up R TR env req (s, out) = (Inl e, s', out')"
  shows "wf s' \<and> out' = out \<and> (s' = s \<or> (\<exists>n. fresh n \<and> rows_added (rows s) (rows s') [n]))"
proof -
  have "(s', out') = (s, out) \<or> (\<exists>req2 e. repo_Create R (sv_repo env 0) (notification_of_request None req2) s = (Inl e, s') \<and> out' = out)"
    using assms(2)
    by (auto simp: Service_Create_def Let_def split: sum.splits prod.splits option.splits if_splits)
  then show ?thesis
    using create_keeps [OF assms(1)] assms(1) stored_fresh by fastforce
qed

lemma Service_CreateBatch_ok:
  assumes "wf s" "Service_CreateBatch up R env req (s, out) = (Inr (b, ns'), s', out')"
  shows "wf s' \<and> b = sv_batch env \<and> batch_size_ok req \<and> list_all valid_request (b_Notifications req) \<and>
    (\<exists>ns pubss. length ns = length (b_Notifications req) \<and> length ns' = length ns \<and> length pubss = length ns \<and>
       distinct (map n_ID ns) \<and> frame (n_ID ` set ns) (rows s) (rows s') \<and> out' = out @ concat pubss \<and>
       (\<forall>k < length ns. rows s (n_ID (ns ! k)) = None \<and> n_BatchID (ns ! k) = Some b \<and>
          fresh (ns ! k) \<and> n_Content (ns ! k) = r_Content (b_Notifications req ! k) \<and>
          handed_over up (sv_now env k) (ns ! k) (rows s') (pubss ! k) (ns' ! k)))"
proof -
  obtain req1 where val: "BatchCreateRequest_Validate req = (req1, None)"
    using assms(2) by (auto simp: Service_CreateBatch_def split: prod.splits option.splits)
  then have ok: "batch_size_ok req" "list_all valid_request (b_Notifications req)"
    using Batch_Validate_ok_iff [of req] by simp_all
  have req1: "b_Notifications req1 = map with_default_priority (b_Notifications req)"
    using Batch_Validate_requests [of req] ok val by simp
  let ?ns = "map (notification_of_request (Some (sv_batch env))) (b_Notifications req1)"
  obtain ns s1 where cr: "repo_CreateBatch R (sv_repo env 0) ?ns s = (Inr ns, s1)"
    using assms(2) val by (auto simp: Service_CreateBatch_def Let_def split: sum.splits prod.splits)
  have pub: "publish_batch up R env 0 ns (s1, out) = (ns', s', out')" and b: "b = sv_batch env"
    using assms(2) val cr by (auto simp: Service_CreateBatch_def Let_def split: prod.splits)
  from batch_inserts [OF assms(1) cr]
  have s1: "wf s1" "list_all2 stored_from ?ns ns" "rows_added (rows s) (rows s1) ns" by auto
  then have added: "distinct (map n_ID ns)" "\<forall>n \<in> set ns. rows s1 (n_ID n) = Some n"
    "\<forall>n \<in> set ns. rows s (n_ID n) = None" "frame (n_ID ` set ns) (rows s) (rows s1)"
    by (auto simp: rows_added_def frame_def)
  have len: "length ns = length (b_Notifications req)"
    using list_all2_lengthD [OF s1(2)] by (simp add: req1)
  have cols: "n_BatchID (ns ! k) = Some b" "fresh (ns ! k)"
    "n_Content (ns ! k) = r_Content (b_Notifications req ! k)" if "k < length ns" for k
    using list_all2_nthD [OF s1(2), of k] that len
    by (simp_all add: stored_from_def notification_of_request_def req1 b fresh_def)
  from publish_batch_hands_over [OF s1(1) added(1,2) pub] obtain pubss where
    fin: "wf s'" "frame (n_ID ` set ns) (rows s1) (rows s')" "out' = out @ concat pubss" "length pubss = length ns"
      "length ns' = length ns" "\<forall>k < length ns. handed_over up (sv_now env k) (ns ! k) (rows s') (pubss ! k) (ns' ! k)"
    by auto
  have "frame (n_ID ` set ns) (rows s) (rows s')" using added(4) fin(2) by (auto simp: frame_def)
  with fin ok b len cols added(1,3) show ?thesis
    by (intro conjI exI [of _ ns] exI [of _ pubss]) auto
qed

lemma Service_CreateBatch_error:
  assumes "wf s" "Service_CreateBatch up R env req (s, out) = (Inl e, s', out')"
  shows "wf s' \<and> out' = out \<and> (s' = s \<or> (\<exists>ns. length ns = length (b_Notifications req) \<and>
    list_all fresh ns \<and> rows_added (rows s) (rows s') ns))"
proof (cases "snd (BatchCreateRequest_Validate req)")
  case (Some e)
  with assms show ?thesis by (auto simp: Service_CreateBatch_def split: prod.splits)
next
  case None
  then have ok: "batch_size_ok req" "list_all valid_request (b_Notifications req)"
    using Batch_Validate_ok_iff [of req] by simp_all
  let ?ns = "map (notification_of_request (Some (sv_batch env))) (map with_default_priority (b_Notifications req))"
  have "repo_CreateBatch R (sv_repo env 0) ?ns s = (Inl e, s')" and out: "out' = out"
    using assms(2) None Batch_Validate_requests [of req] ok
    by (auto simp: Service_CreateBatch_def Let_def split: sum.splits prod.splits)
  from batch_keeps [OF assms(1) this(1)] obtain
    "wf s'" "s' = s \<or> (\<exists>ns. list_all2 stored_from ?ns ns \<and> rows_added (rows s) (rows s') ns)" by blast
  moreover have "length ns = length (b_Notifications req) \<and> list_all fresh ns"
    if "list_all2 stored_from ?ns ns" for ns
    using that by (auto simp: list_all2_conv_all_nth list_all_length intro: stored_fresh)
  ultimately show ?thesis using out by blast
qed

end

text \<open>The service stands on both stores at once.\<close>

locale service_stores = notification_store R wf rows stamp txt_of + template_store TR twf templates
  for R :: "'st NotificationRepository" and wf rows stamp txt_of and TR :: "'st TemplateRepository" and twf templates
begin

text \<open>What the content of a new notification is: that of the request, or the template's, rendered.\<close>

lemma resolve_template_content:
  assumes "twf s" "resolve_template TR env r s = Inr r'"
  shows "r_Channel r' = r_Channel r \<and> r_ScheduledAt r' = r_ScheduledAt r \<and>
    (case r_TemplateID r of
       None \<Rightarrow> r_Content r' = r_Content r
     | Some i \<Rightarrow> \<exists>t. templates s i = Some t \<and> r_Content r' = fst (Render t (sv_order1 env) (sv_order2 env)))"
proof (cases "r_TemplateID r")
  case None
  then show ?thesis using assms(2) by (simp add: resolve_template_def)
next
  case (Some i)
  then obtain t where get: "trepo_GetByID TR (sv_template env) i s = Inr t"
    using assms(2) by (auto simp: resolve_template_def split: sum.splits)
  show ?thesis
    using template_get_sound [OF assms(1) get] assms(2) Some get
    by (auto simp: resolve_template_def Let_def split: option.splits prod.splits)
qed

lemma Service_Create_ok:
  assumes "wf s" "twf s" "Service_Create up R TR env req (s, out) = (Inr n', s', out')"
  shows "wf s' \<and> valid_request req \<and> (\<exists>n pubs. out' = out @ pubs \<and> handed_over up (sv_now env 0) n (rows s') pubs n' \<and>
    rows s (n_ID n) = None \<and> frame {n_ID n} (rows s) (rows s') \<and> fresh n \<and>
    n_Channel n = r_Channel req \<and>
    (case r_TemplateID req of
       None \<Rightarrow> n_Content n = r_Content req
     | Some i \<Rightarrow> \<exists>t. templates s i = Some t \<and> n_Content n = fst (Render t (sv_order1 env) (sv_order2 env))))"
proof -
  from Service_Create_stores [OF assms(1,3)] obtain n pubs req' where
    h: "wf s'" "valid_request req" "out' = out @ pubs" "handed_over up (sv_now env 0) n (rows s') pubs n'"
      "rows s (n_ID n) = None" "frame {n_ID n} (rows s) (rows s')" "fresh n" and
    res: "resolve_template TR env (with_default_priority req) s = Inr req'" and
    cols: "n_Channel n = r_Channel req'" "n_Content n = r_Content req'" by blast
  from resolve_template_content [OF assms(2) res] have "n_Channel n = r_Channel req"
    and "case r_TemplateID req of None \<Rightarrow> n_Content n = r_Content req
      | Some i \<Rightarrow> \<exists>t. templates s i = Some t \<and> n_Content n = fst (Render t (sv_order1 env) (sv_order2 env))"
    by (auto simp: cols split: option.splits)
  with h show ?thesis by blast
qed

end

interpretation pg_service: service_stores "postgres_repository up srv cj" "pg_wf srv" pg_rows "srv_timestamptz srv"
    "stored_text srv" "template_repository up srv" "pg_template_wf srv" pg_template_rows for up srv cj
  by unfold_locales

section \<open>Properties\<close>

text \<open>A request for an SMS and surroundings in which nothing fails, for examples.\<close>

definition sample_request :: CreateNotificationRequest where
  "sample_request = \<lparr>r_IdempotencyKey = None, r_Recipient = ''+90555'', r_Channel = ''sms'', r_Content = ''hi'',
     r_Subject = None, r_Priority = [], r_ScheduledAt = None, r_Metadata = None, r_TemplateID = None,
     r_Variables = Map.empty\<rparr>"

definition sample_publish_env :: publish_env where
  "sample_publish_env = \<lparr>pe_json_err = [], pe_correlation = [], pe_fault = NoFault\<rparr>"

definition sample_service_env :: service_env where
  "sample_service_env = \<lparr>sv_repo = (\<lambda>_. calm 5 (\<lambda>i. of_nat (7 + i))), sv_template = calm 5 (\<lambda>_. 0),
     sv_pub = (\<lambda>_. sample_publish_env), sv_now = (\<lambda>_. 5), sv_batch = 9, sv_order1 = [], sv_order2 = []\<rparr>"

lemma sample_template_wf: "pg_template_wf any_server (keyed_db [])"
  by (simp add: pg_template_wf_def) (simp add: keyed_db_def)

lemmas update_eval = pg_UpdateStatus_def affected_rows_def exec_update_def update_status_row_def
  trigger_set_updated_at_def

lemmas service_eval = sample_service_env_def sample_request_def CreateNotificationRequest_Validate_def
  validateContentLength_def isValidChannel_def isValidPriority_def domain_consts
  notification_of_request_def insert_eval keyed_db_def future_def publish_and_mark_def Publish_def
  sample_publish_env_def message_of_def marshal_plain update_eval





end
