(* ===== verification/CircuitBreaker.thy ===== *)
theory CircuitBreaker
  imports Prelude
begin

text \<open>
  Package \<open>internal/circuitbreaker\<close>: the three-state breaker each channel's workers share. Every
  method runs under the breaker's mutex, so a method is one step of the state; each reading of
  the clock inside a method is an argument of its model. The failure rate is compared exactly:
  for totals below \<open>2 ^ 53\<close> the rounding of the two \<open>float64\<close> conversions and of the
  division cannot move a quotient of integers across the threshold one half, so a rational
  number stands for the \<open>float64\<close>.

  The lemmas give a refinement: the counters implement a breaker that keeps the samples of the
  current window and trips on the documented policy; the transitions between the three states;
  and what a half-open breaker does until an outcome is recorded.
\<close>

section \<open>State and operations\<close>

datatype State = Closed | Open | HalfOpen

fun State_String :: "State \<Rightarrow> string" where
  "State_String Closed = ''closed''"
| "State_String Open = ''open''"
| "State_String HalfOpen = ''half-open''"

record CircuitBreaker =
  cb_state :: State
  cb_failures :: int
  cb_successes :: int
  cb_total :: int
  cb_lastFailure :: time
  cb_threshold :: rat
  cb_minSamples :: int
  cb_timeout :: int
  cb_windowStart :: time
  cb_window :: int

definition New :: "time \<Rightarrow> CircuitBreaker" where
  "New now = \<lparr>cb_state = Closed, cb_failures = 0, cb_successes = 0, cb_total = 0,
     cb_lastFailure = zero_time, cb_threshold = 1 / 2, cb_minSamples = 10,
     cb_timeout = 30 * second, cb_windowStart = now, cb_window = 60 * second\<rparr>"

definition reset :: "time \<Rightarrow> CircuitBreaker \<Rightarrow> CircuitBreaker" where
  "reset now cb = cb\<lparr>cb_failures := 0, cb_successes := 0, cb_total := 0, cb_windowStart := now\<rparr>"

text \<open>\<open>t0\<close> is read by \<open>time.Since\<close>, \<open>t1\<close> by \<open>reset\<close>.\<close>

definition resetWindowIfExpired :: "time \<Rightarrow> time \<Rightarrow> CircuitBreaker \<Rightarrow> CircuitBreaker" where
  "resetWindowIfExpired t0 t1 cb =
     (if t0 - cb_windowStart cb > cb_window cb then reset t1 cb else cb)"

definition Allow :: "time \<Rightarrow> time \<Rightarrow> time \<Rightarrow> CircuitBreaker \<Rightarrow> bool \<times> CircuitBreaker" where
  "Allow t0 t1 t2 cb =
     (let cb = resetWindowIfExpired t0 t1 cb
      in case cb_state cb of
           Closed \<Rightarrow> (True, cb)
         | Open \<Rightarrow> (if t2 - cb_lastFailure cb > cb_timeout cb
                    then (True, cb\<lparr>cb_state := HalfOpen\<rparr>) else (False, cb))
         | HalfOpen \<Rightarrow> (False, cb))"

definition RecordSuccess :: "time \<Rightarrow> CircuitBreaker \<Rightarrow> CircuitBreaker" where
  "RecordSuccess t cb =
     (let cb = cb\<lparr>cb_successes := cb_successes cb + 1, cb_total := cb_total cb + 1\<rparr>
      in if cb_state cb = HalfOpen then reset t (cb\<lparr>cb_state := Closed\<rparr>) else cb)"

definition RecordFailure :: "time \<Rightarrow> CircuitBreaker \<Rightarrow> CircuitBreaker" where
  "RecordFailure t cb =
     (let cb = cb\<lparr>cb_failures := cb_failures cb + 1, cb_total := cb_total cb + 1, cb_lastFailure := t\<rparr>
      in if cb_state cb = HalfOpen then cb\<lparr>cb_state := Open\<rparr>
         else if cb_state cb = Closed \<and> cb_total cb \<ge> cb_minSamples cb then
           (let failureRate = rat_of_int (cb_failures cb) / rat_of_int (cb_total cb)
            in if failureRate > cb_threshold cb then cb\<lparr>cb_state := Open\<rparr> else cb)
         else cb)"

text \<open>The method \<open>State()\<close>.\<close>

definition breaker_State :: "CircuitBreaker \<Rightarrow> State" where
  "breaker_State cb = cb_state cb"

section \<open>The breaker as a machine\<close>

datatype cb_event = EvAllow time time time | EvSuccess time | EvFailure time

fun cb_step :: "CircuitBreaker \<Rightarrow> cb_event \<Rightarrow> CircuitBreaker" where
  "cb_step cb (EvAllow t0 t1 t2) = snd (Allow t0 t1 t2 cb)"
| "cb_step cb (EvSuccess t) = RecordSuccess t cb"
| "cb_step cb (EvFailure t) = RecordFailure t cb"

text \<open>The answer a caller sees; recording has none.\<close>

fun cb_answer :: "CircuitBreaker \<Rightarrow> cb_event \<Rightarrow> bool option" where
  "cb_answer cb (EvAllow t0 t1 t2) = Some (fst (Allow t0 t1 t2 cb))"
| "cb_answer cb _ = None"

fun cb_answers :: "CircuitBreaker \<Rightarrow> cb_event list \<Rightarrow> bool option list" where
  "cb_answers cb [] = []"
| "cb_answers cb (e # es) = cb_answer cb e # cb_answers (cb_step cb e) es"

definition cb_wf :: "CircuitBreaker \<Rightarrow> bool" where
  "cb_wf cb \<longleftrightarrow> 0 \<le> cb_failures cb \<and> 0 \<le> cb_successes cb \<and>
     cb_total cb = cb_failures cb + cb_successes cb \<and>
     cb_threshold cb = 1 / 2 \<and> cb_minSamples cb = 10 \<and>
     cb_timeout cb = 30 * second \<and> cb_window cb = 60 * second"

lemmas cb_op_defs = Allow_def RecordSuccess_def RecordFailure_def resetWindowIfExpired_def reset_def Let_def

lemma New_wf: "cb_wf (New now)"
  by (simp add: cb_wf_def New_def)

lemma cb_step_wf: "cb_wf cb \<Longrightarrow> cb_wf (cb_step cb e)"
  by (cases e; cases "cb_state cb") (auto simp: cb_op_defs cb_wf_def)

interpretation breaker: invariant_machine cb_step cb_wf
  by unfold_locales (rule cb_step_wf)

lemma rate_above_half:
  "0 < b \<Longrightarrow> rat_of_int a / rat_of_int b > 1 / 2 \<longleftrightarrow> 2 * a > b"
proof -
  assume b: "0 < b"
  have "rat_of_int a / rat_of_int b > 1 / 2 \<longleftrightarrow> rat_of_int b < 2 * rat_of_int a"
    using b by (simp add: field_simps)
  also have "\<dots> \<longleftrightarrow> rat_of_int b < rat_of_int (2 * a)" by simp
  also have "\<dots> \<longleftrightarrow> 2 * a > b" by (simp only: of_int_less_iff)
  finally show ?thesis .
qed

lemma RecordFailure_closed:
  assumes "cb_wf cb" and "cb_state cb = Closed"
  shows "cb_state (RecordFailure t cb) =
    (if 10 \<le> cb_total cb + 1 \<and> 2 * (cb_failures cb + 1) > cb_total cb + 1 then Open else Closed)"
proof -
  have "cb_threshold cb = 1 / 2" and ms: "cb_minSamples cb = 10" and pos: "0 < cb_total cb + 1"
    using assms(1) unfolding cb_wf_def by auto
  then have "cb_threshold cb < rat_of_int (cb_failures cb + 1) / rat_of_int (cb_total cb + 1)
      \<longleftrightarrow> 2 * (cb_failures cb + 1) > cb_total cb + 1"
    by (simp only: rate_above_half [OF pos])
  then show ?thesis
    using assms(2) ms by (simp add: cb_op_defs del: of_int_add)
qed

section \<open>Refinement of the documented policy\<close>

text \<open>
  The policy, with the window's samples kept as a list (True for a failure): trip when at least
  ten samples are in and more than half of them failed, stay open for 30 seconds after the last
  failure, then let one request through and decide by its outcome; forget the samples when the
  60-second window has passed or the breaker closes again.
\<close>

record policy =
  po_state :: State
  po_samples :: "bool list"
  po_lastFailure :: time
  po_windowStart :: time

definition failed_samples :: "bool list \<Rightarrow> nat" where
  "failed_samples xs = length (filter id xs)"

definition trips :: "bool list \<Rightarrow> bool" where
  "trips xs \<longleftrightarrow> 10 \<le> length xs \<and> 2 * failed_samples xs > length xs"

definition roll_window :: "time \<Rightarrow> time \<Rightarrow> policy \<Rightarrow> policy" where
  "roll_window t0 t1 p =
     (if t0 > po_windowStart p + 60 * second then p\<lparr>po_samples := [], po_windowStart := t1\<rparr> else p)"

fun policy_step :: "policy \<Rightarrow> cb_event \<Rightarrow> policy" where
  "policy_step p (EvAllow t0 t1 t2) =
     (let p = roll_window t0 t1 p
      in if po_state p = Open \<and> t2 > po_lastFailure p + 30 * second then p\<lparr>po_state := HalfOpen\<rparr> else p)"
| "policy_step p (EvSuccess t) =
     (if po_state p = HalfOpen then p\<lparr>po_state := Closed, po_samples := [], po_windowStart := t\<rparr>
      else p\<lparr>po_samples := False # po_samples p\<rparr>)"
| "policy_step p (EvFailure t) =
     (let xs = True # po_samples p
      in p\<lparr>po_samples := xs, po_lastFailure := t,
           po_state := (case po_state p of HalfOpen \<Rightarrow> Open | Open \<Rightarrow> Open
                        | Closed \<Rightarrow> if trips xs then Open else Closed)\<rparr>)"

fun policy_answer :: "policy \<Rightarrow> cb_event \<Rightarrow> bool option" where
  "policy_answer p (EvAllow t0 t1 t2) =
     Some (po_state p = Closed \<or> po_state p = Open \<and> t2 > po_lastFailure p + 30 * second)"
| "policy_answer p _ = None"

fun policy_answers :: "policy \<Rightarrow> cb_event list \<Rightarrow> bool option list" where
  "policy_answers p [] = []"
| "policy_answers p (e # es) = policy_answer p e # policy_answers (policy_step p e) es"

definition policy_init :: "time \<Rightarrow> policy" where
  "policy_init now = \<lparr>po_state = Closed, po_samples = [], po_lastFailure = zero_time, po_windowStart = now\<rparr>"

definition implements :: "policy \<Rightarrow> CircuitBreaker \<Rightarrow> bool" where
  "implements p cb \<longleftrightarrow> cb_wf cb \<and> cb_state cb = po_state p \<and>
     cb_total cb = int (length (po_samples p)) \<and>
     cb_failures cb = int (failed_samples (po_samples p)) \<and>
     cb_lastFailure cb = po_lastFailure p \<and> cb_windowStart cb = po_windowStart p"

lemma failed_samples_simps [simp]:
  "failed_samples [] = 0" "failed_samples (b # xs) = (if b then 1 else 0) + failed_samples xs"
  by (simp_all add: failed_samples_def)

lemma implements_New: "implements (policy_init now) (New now)"
  using New_wf [of now] by (simp add: implements_def policy_init_def) (simp add: New_def)

lemma implements_Allow:
  "implements p cb \<Longrightarrow> implements (policy_step p (EvAllow t0 t1 t2)) (cb_step cb (EvAllow t0 t1 t2))"
  by (cases "po_state p") (auto simp: implements_def cb_wf_def roll_window_def cb_op_defs)

lemma implements_Success:
  "implements p cb \<Longrightarrow> implements (policy_step p (EvSuccess t)) (cb_step cb (EvSuccess t))"
  by (cases "po_state p") (auto simp: implements_def cb_wf_def cb_op_defs)

lemma RecordFailure_counters:
  "cb_failures (RecordFailure t cb) = cb_failures cb + 1"
  "cb_total (RecordFailure t cb) = cb_total cb + 1"
  "cb_lastFailure (RecordFailure t cb) = t"
  "cb_windowStart (RecordFailure t cb) = cb_windowStart cb"
  by (simp_all add: cb_op_defs)

lemma RecordFailure_tripped:
  "cb_state cb \<noteq> Closed \<Longrightarrow> cb_state (RecordFailure t cb) = Open"
  by (cases "cb_state cb") (simp_all add: cb_op_defs)

lemma implements_Failure:
  assumes "implements p cb"
  shows "implements (policy_step p (EvFailure t)) (cb_step cb (EvFailure t))"
proof -
  have wf: "cb_wf (RecordFailure t cb)"
    using assms cb_step_wf [of cb "EvFailure t"] by (simp add: implements_def)
  have "cb_state (RecordFailure t cb) = po_state (policy_step p (EvFailure t))"
  proof (cases "cb_state cb = Closed")
    case True
    have "10 \<le> cb_total cb + 1 \<and> 2 * (cb_failures cb + 1) > cb_total cb + 1
        \<longleftrightarrow> trips (True # po_samples p)"
      using assms by (simp add: implements_def trips_def) linarith
    then show ?thesis
      using assms True RecordFailure_closed [of cb t] by (simp add: implements_def Let_def)
  next
    case False
    then show ?thesis
      using assms RecordFailure_tripped [of cb t]
      by (cases "cb_state cb") (auto simp: implements_def Let_def)
  qed
  then show ?thesis
    using assms wf by (simp add: implements_def RecordFailure_counters Let_def)
qed

lemma implements_step: "implements p cb \<Longrightarrow> implements (policy_step p e) (cb_step cb e)"
  by (cases e) (use implements_Allow implements_Success implements_Failure in blast)+

lemma implements_answer: "implements p cb \<Longrightarrow> cb_answer cb e = policy_answer p e"
  by (cases e; cases "po_state p") (auto simp: implements_def cb_wf_def cb_op_defs)

lemma implements_answers: "implements p cb \<Longrightarrow> cb_answers cb es = policy_answers p es"
  by (induction es arbitrary: p cb) (auto simp: implements_answer implements_step)

text \<open>
  C14. The circuit breaker refines its documented policy: after any sequence of \<open>Allow\<close>,
  \<open>RecordSuccess\<close> and \<open>RecordFailure\<close> calls on a fresh breaker, at any clock readings, every
  \<open>Allow\<close> has answered what the policy answers, and the state and the counters are those of
  the policy's window of samples (it trips at ten samples of which more than half failed,
  re-admits one request 30 seconds after the last failure, and forgets samples after 60 seconds).
\<close>

theorem breaker_refines_policy:
  "cb_answers (New now) es = policy_answers (policy_init now) es \<and>
   implements (foldl policy_step (policy_init now) es) (foldl cb_step (New now) es)"
proof
  show "cb_answers (New now) es = policy_answers (policy_init now) es"
    by (rule implements_answers [OF implements_New])
  have "implements p cb \<Longrightarrow> implements (foldl policy_step p es) (foldl cb_step cb es)" for p cb
    by (induction es arbitrary: p cb) (auto simp: implements_step)
  then show "implements (foldl policy_step (policy_init now) es) (foldl cb_step (New now) es)"
    using implements_New by blast
qed

section \<open>Transitions\<close>

text \<open>The arrows of the state diagram, with the call that takes them.\<close>

inductive cb_arrow :: "State \<Rightarrow> cb_event \<Rightarrow> State \<Rightarrow> bool" where
  stay: "cb_arrow s e s"
| trip: "cb_arrow Closed (EvFailure t) Open"
| probe: "cb_arrow Open (EvAllow t0 t1 t2) HalfOpen"
| recover: "cb_arrow HalfOpen (EvSuccess t) Closed"
| reopen: "cb_arrow HalfOpen (EvFailure t) Open"

inductive_cases cb_arrow_from_HalfOpen: "cb_arrow HalfOpen e s"

lemma cb_step_arrow: "cb_arrow (cb_state cb) e (cb_state (cb_step cb e))"
proof (cases e)
  case (EvAllow t0 t1 t2)
  then show ?thesis
    by (cases "cb_state cb") (auto simp: cb_op_defs intro: cb_arrow.intros)
next
  case (EvSuccess t)
  then show ?thesis
    by (cases "cb_state cb") (auto simp: cb_op_defs intro: cb_arrow.intros)
next
  case (EvFailure t)
  then show ?thesis
    by (cases "cb_state cb") (auto simp: cb_op_defs intro: cb_arrow.intros)
qed

text \<open>A call that only asks.\<close>

fun is_allow :: "cb_event \<Rightarrow> bool" where
  "is_allow (EvAllow _ _ _) = True"
| "is_allow _ = False"

lemma halfopen_allow:
  "cb_state cb = HalfOpen \<Longrightarrow> is_allow e \<Longrightarrow> cb_answer cb e = Some False \<and> cb_state (cb_step cb e) = HalfOpen"
  by (cases e) (auto simp: cb_op_defs)

lemma halfopen_allows:
  "cb_state cb = HalfOpen \<Longrightarrow> list_all is_allow es \<Longrightarrow>
   cb_answers cb es = replicate (length es) (Some False) \<and> cb_state (foldl cb_step cb es) = HalfOpen"
  by (induction es arbitrary: cb) (auto simp: halfopen_allow)

lemma open_probe:
  "cb_state cb = Open \<Longrightarrow> fst (Allow t0 t1 t2 cb) \<Longrightarrow> cb_state (snd (Allow t0 t1 t2 cb)) = HalfOpen"
  by (auto simp: cb_op_defs split: if_splits)

text \<open>
  One probe at a time: when an open breaker lets a request through it becomes half-open, and
  from then on every \<open>Allow\<close>, however many and however late, answers false and leaves the breaker
  half-open until an outcome is recorded.
\<close>

theorem half_open_single_probe:
  assumes "cb_state cb = Open" and "fst (Allow t0 t1 t2 cb)" and "list_all is_allow es"
  shows "cb_answers (snd (Allow t0 t1 t2 cb)) es = replicate (length es) (Some False) \<and>
         cb_state (foldl cb_step (snd (Allow t0 t1 t2 cb)) es) = HalfOpen"
  using halfopen_allows [OF open_probe [OF assms(1,2)] assms(3)] .

lemma half_open_single_probe_witness:
  "cb_answers (snd (Allow (31 * second) (31 * second) (31 * second)
       (foldl cb_step (New 0) (replicate 10 (EvFailure 0))))) [EvAllow (10 ^ 15) (10 ^ 15) (10 ^ 15)] = [Some False]"
proof -
  let ?cb = "foldl cb_step (New 0) (replicate 10 (EvFailure 0))"
  have cb: "?cb = (New 0)\<lparr>cb_state := Open, cb_failures := 10, cb_total := 10, cb_lastFailure := 0\<rparr>"
    by (simp add: numeral_eq_Suc New_def cb_op_defs)
  have "cb_state ?cb = Open" and "fst (Allow (31 * second) (31 * second) (31 * second) ?cb)"
    by (simp_all only: cb) (simp_all add: New_def cb_op_defs)
  from half_open_single_probe [OF this, of "[EvAllow (10 ^ 15) (10 ^ 15) (10 ^ 15)]"]
  show ?thesis by simp
qed

end
