(* ===== verification/RateLimiter.thy ===== *)
theory RateLimiter
  imports Domain
begin

text \<open>
  Package \<open>internal/ratelimiter\<close>: the token bucket kept in Redis by a Lua script and the polling
  loop \<open>Wait\<close>. Redis runs the script atomically; the hash under the limiter's key, with the time
  at which \<open>EXPIRE\<close> lets it vanish, is the state. The script's \<open>now\<close> comes from the
  application's clock and expiry from the server's, so the two readings are separate arguments.
  Lua's and Go's floating-point numbers are modelled by rationals: the bounds below are those of
  exact arithmetic. A network fault of a script call is an argument too; it may strike before or
  after the script has run.

  The lemmas bound the number of requests the bucket admits, show that the expiry of the key is
  invisible when both clocks agree, that \<open>Wait\<close> returns after at most 501 script calls, and what
  a clock that runs backwards does to the bucket.
\<close>

section \<open>The script\<close>

record bucket =
  bk_tokens :: rat
  bk_last :: rat
  bk_expires :: rat

text \<open>What \<open>HMGET\<close> sees: nothing when the key is absent or has expired.\<close>

definition live_bucket :: "rat \<Rightarrow> bucket option \<Rightarrow> bucket option" where
  "live_bucket rnow st =
     (case st of None \<Rightarrow> None | Some b \<Rightarrow> if rnow < bk_expires b then Some b else None)"

definition tokenBucketScript :: "rat \<Rightarrow> rat \<Rightarrow> rat \<Rightarrow> bucket option \<Rightarrow> int \<times> bucket option" where
  "tokenBucketScript rate now rnow st =
     (let (tokens, last) =
            (case live_bucket rnow st of None \<Rightarrow> (rate, now) | Some b \<Rightarrow> (bk_tokens b, bk_last b));
          elapsed = now - last;
          refill = elapsed * rate;
          tokens = min rate (tokens + refill)
      in if tokens \<ge> 1
         then (1, Some \<lparr>bk_tokens = tokens - 1, bk_last = now, bk_expires = rnow + 2\<rparr>)
         else (0, Some \<lparr>bk_tokens = tokens, bk_last = now, bk_expires = rnow + 2\<rparr>))"

section \<open>The limiter\<close>

record RateLimiter =
  rl_key :: string
  rl_rate :: int

definition NewRateLimiter :: "string \<Rightarrow> int \<Rightarrow> RateLimiter" where
  "NewRateLimiter channel rate = \<lparr>rl_key = ''ratelimit:'' @ channel, rl_rate = rate\<rparr>"

text \<open>Seconds, with the microsecond resolution \<open>UnixMicro\<close> leaves.\<close>

definition unix_seconds :: "time \<Rightarrow> rat" where
  "unix_seconds t = rat_of_int (t div 1000) / 1000000"

definition limiter_error :: "string \<Rightarrow> go_error" where
  "limiter_error msg = ErrOther (''rate limiter script: '' @ msg)"

definition RateLimiter_Allow ::
    "net_fault \<Rightarrow> time \<Rightarrow> rat \<Rightarrow> RateLimiter \<Rightarrow> bucket option \<Rightarrow> (go_error + bool) \<times> bucket option" where
  "RateLimiter_Allow fault t rnow r st =
     (let (result, st') = tokenBucketScript (rat_of_int (rl_rate r)) (unix_seconds t) rnow st
      in case fault of
           NoFault \<Rightarrow> (Inr (result = 1), st')
         | LostBefore msg \<Rightarrow> (Inl (limiter_error msg), st)
         | LostAfter msg \<Rightarrow> (Inl (limiter_error msg), st'))"

text \<open>
  \<open>Wait\<close>: the surroundings of one call. The \<open>i\<close>-th script call meets \<open>we_fault i\<close> and takes
  \<open>we_latency i\<close> nanoseconds; \<open>we_redis\<close> is the server's clock, \<open>we_done\<close> the instant at which
  the context is cancelled, if it is, with the error it then reports, and \<open>we_pick i\<close> resolves
  the \<open>select\<close> when several of its cases become ready together.
\<close>

datatype select_case = SelTimer | SelDeadline | SelDone

record wait_env =
  we_fault :: "nat \<Rightarrow> net_fault"
  we_latency :: "nat \<Rightarrow> nat"
  we_redis :: "time \<Rightarrow> rat"
  we_done :: "(time \<times> string) option"
  we_pick :: "nat \<Rightarrow> select_case"

text \<open>The instant at which each case of the \<open>select\<close> entered at time \<open>t\<close> is ready, if ever.\<close>

fun ready_at :: "wait_env \<Rightarrow> time \<Rightarrow> time \<Rightarrow> select_case \<Rightarrow> time option" where
  "ready_at env deadline t SelTimer = Some (t + 10 * millisecond)"
| "ready_at env deadline t SelDeadline = Some (max t deadline)"
| "ready_at env deadline t SelDone = map_option (\<lambda>(d, _). max t d) (we_done env)"

definition first_ready :: "wait_env \<Rightarrow> time \<Rightarrow> time \<Rightarrow> time" where
  "first_ready env deadline t =
     (let m = min (t + 10 * millisecond) (max t deadline)
      in case we_done env of None \<Rightarrow> m | Some (d, _) \<Rightarrow> min m (max t d))"

definition select_next :: "wait_env \<Rightarrow> time \<Rightarrow> nat \<Rightarrow> time \<Rightarrow> select_case" where
  "select_next env deadline i t =
     (let ready = (\<lambda>c. ready_at env deadline t c = Some (first_ready env deadline t))
      in if ready (we_pick env i) then we_pick env i
         else if ready SelTimer then SelTimer
         else if ready SelDeadline then SelDeadline
         else SelDone)"

text \<open>
  The loop from its \<open>i\<close>-th iteration, entered at time \<open>t\<close>. Besides the error (None is
  \<open>nil\<close>) and the state it returns the number of script calls made and the time of return.
\<close>

lemma select_timer: "select_next env deadline i t = SelTimer \<Longrightarrow> t + 10 * millisecond \<le> deadline"
  by (auto simp: select_next_def first_ready_def Let_def split: if_splits option.splits)

function wait_loop :: "RateLimiter \<Rightarrow> wait_env \<Rightarrow> time \<Rightarrow> nat \<Rightarrow> time \<Rightarrow> bucket option \<Rightarrow>
    go_error option \<times> bucket option \<times> nat \<times> time" where
  "wait_loop r env deadline i t st =
     (let (allowed, st') = RateLimiter_Allow (we_fault env i) t (we_redis env t) r st;
          t' = t + int (we_latency env i)
      in case allowed of
           Inl err \<Rightarrow> (None, st', Suc i, t')
         | Inr True \<Rightarrow> (None, st', Suc i, t')
         | Inr False \<Rightarrow>
             (case select_next env deadline i t' of
                SelTimer \<Rightarrow> wait_loop r env deadline (Suc i) (t' + 10 * millisecond) st'
              | SelDeadline \<Rightarrow>
                  (Some (ErrOther (''rate limiter wait timeout for '' @ rl_key r)), st', Suc i, max t' deadline)
              | SelDone \<Rightarrow>
                  (case we_done env of
                     Some (d, msg) \<Rightarrow> (Some (ErrOther msg), st', Suc i, max t' d)
                   | None \<Rightarrow> (None, st', Suc i, t'))))"
  by pat_completeness auto
termination
  by (relation "measure (\<lambda>(r, env, deadline, i, t, st). nat (deadline - t))")
    (auto dest!: select_timer)

declare wait_loop.simps [simp del]

definition Wait :: "RateLimiter \<Rightarrow> wait_env \<Rightarrow> time \<Rightarrow> bucket option \<Rightarrow>
    go_error option \<times> bucket option \<times> nat \<times> time" where
  "Wait r env t st = wait_loop r env (t + 5 * second) 0 t st"

section \<open>The bucket never overfills\<close>

text \<open>The tokens a call at time \<open>now\<close> finds, both clocks showing \<open>now\<close>.\<close>

definition available :: "rat \<Rightarrow> rat \<Rightarrow> bucket option \<Rightarrow> rat" where
  "available rate now st =
     (case live_bucket now st of None \<Rightarrow> rate | Some b \<Rightarrow> min rate (bk_tokens b + (now - bk_last b) * rate))"

definition bucket_ok :: "rat \<Rightarrow> rat \<Rightarrow> bucket option \<Rightarrow> bool" where
  "bucket_ok rate now st \<longleftrightarrow>
     (case st of None \<Rightarrow> True
      | Some b \<Rightarrow> 0 \<le> bk_tokens b \<and> bk_tokens b \<le> rate \<and> bk_last b \<le> now \<and> bk_expires b = bk_last b + 2)"

definition admitted :: "int \<Rightarrow> rat" where
  "admitted result = (if result = 1 then 1 else 0)"

lemma script_spends:
  assumes "0 \<le> rate" and "bucket_ok rate now st"
  defines "out \<equiv> tokenBucketScript rate now now st"
  shows "\<exists>b. snd out = Some b \<and> bk_tokens b = available rate now st - admitted (fst out) \<and>
           bk_last b = now \<and> bucket_ok rate now (snd out) \<and>
           (fst out = 1 \<longleftrightarrow> 1 \<le> available rate now st)"
proof -
  have av: "0 \<le> available rate now st" "available rate now st \<le> rate"
    using assms(1,2) by (auto simp: available_def bucket_ok_def live_bucket_def split: option.splits)
  have "out = (if 1 \<le> available rate now st
      then (1, Some \<lparr>bk_tokens = available rate now st - 1, bk_last = now, bk_expires = now + 2\<rparr>)
      else (0, Some \<lparr>bk_tokens = available rate now st, bk_last = now, bk_expires = now + 2\<rparr>))"
    by (auto simp: out_def tokenBucketScript_def available_def Let_def split: option.splits)
  with av show ?thesis by (auto simp: bucket_ok_def admitted_def)
qed

lemma available_later:
  assumes "0 \<le> rate" and "0 \<le> bk_tokens b" and "bk_last b \<le> now" and "bk_expires b = bk_last b + 2"
  shows "available rate now (Some b) \<le> bk_tokens b + (now - bk_last b) * rate"
proof (cases "now < bk_expires b")
  case True
  then show ?thesis by (simp add: available_def live_bucket_def)
next
  case False
  then have "2 * rate \<le> (now - bk_last b) * rate"
    using assms by (intro mult_right_mono) auto
  with False assms show ?thesis by (simp add: available_def live_bucket_def)
qed

text \<open>Successive script calls at the given times; how many are admitted.\<close>

fun admit_run :: "rat \<Rightarrow> rat list \<Rightarrow> bucket option \<Rightarrow> rat \<times> bucket option" where
  "admit_run rate [] st = (0, st)"
| "admit_run rate (now # ts) st =
     (let (result, st') = tokenBucketScript rate now now st;
          (k, st'') = admit_run rate ts st'
      in (admitted result + k, st''))"

lemma admit_run_potential:
  "0 \<le> rate \<Longrightarrow> sorted (now # ts) \<Longrightarrow> bucket_ok rate now st \<Longrightarrow>
   fst (admit_run rate (now # ts) st) \<le> available rate now st + (last (now # ts) - now) * rate"
proof (induction ts arbitrary: now st)
  case Nil
  then obtain b where b: "snd (tokenBucketScript rate now now st) = Some b"
      "bk_tokens b = available rate now st - admitted (fst (tokenBucketScript rate now now st))"
      "bucket_ok rate now (Some b)"
    using script_spends [OF Nil(1,3)] by auto
  then have "0 \<le> bk_tokens b" by (simp add: bucket_ok_def)
  with b(2) show ?case by (simp add: split_beta Let_def)
next
  case (Cons t ts)
  let ?out = "tokenBucketScript rate now now st"
  from Cons.prems have le: "now \<le> t" and sorted: "sorted (t # ts)" by auto
  obtain b where b: "snd ?out = Some b" "bk_tokens b = available rate now st - admitted (fst ?out)"
      "bk_last b = now" "bucket_ok rate now (snd ?out)"
    using script_spends [OF Cons.prems(1,3)] by blast
  have ok: "bucket_ok rate t (Some b)"
    using b(3,4) le unfolding b(1) by (simp add: bucket_ok_def)
  have "fst (admit_run rate (t # ts) (Some b)) \<le> available rate t (Some b) + (last (t # ts) - t) * rate"
    by (rule Cons.IH [OF Cons.prems(1) sorted ok])
  also have "available rate t (Some b) \<le> bk_tokens b + (t - now) * rate"
    using available_later [of rate b t] Cons.prems(1) ok b(3) by (simp add: bucket_ok_def)
  finally have "fst (admit_run rate (t # ts) (Some b)) \<le>
      available rate now st - admitted (fst ?out) + (last (now # t # ts) - now) * rate"
    using b(2) by (simp add: algebra_simps)
  then show ?case
    using b(1) by (simp only: admit_run.simps(2) [of rate now] split_beta Let_def fst_conv)
qed

text \<open>
  C15. Throughput bound: over any sequence of limiter calls at non-decreasing times, starting from
  an absent key or any well-formed bucket, the script admits at most one full bucket plus
  \<open>rate\<close> requests per second elapsed, however the calls are spaced and whether or not the
  key expires in between.
\<close>

theorem token_bucket_throughput:
  assumes "0 \<le> rate" and "sorted (now # ts)" and "bucket_ok rate now st"
  shows "fst (admit_run rate (now # ts) st) \<le> rate + rate * (last (now # ts) - now)"
proof -
  have "available rate now st \<le> rate"
    by (auto simp: available_def split: option.splits)
  with admit_run_potential [OF assms] show ?thesis by (simp add: mult.commute)
qed

lemma token_bucket_throughput_witness:
  "fst (admit_run 2 [0, 0, 0, 1 / 2, 1] None) \<le> 4 \<and> fst (admit_run 2 [0, 0, 0, 1 / 2, 1] None) = 4"
proof -
  have "sorted [0, 0, 0, 1 / 2, 1 :: rat]" by simp
  from token_bucket_throughput [OF _ this, of 2 None]
  have "fst (admit_run 2 [0, 0, 0, 1 / 2, 1] None) \<le> 4" by (simp add: bucket_ok_def)
  moreover have "fst (admit_run 2 [0, 0, 0, 1 / 2, 1] None) = 4"
    by (simp add: tokenBucketScript_def live_bucket_def admitted_def)
  ultimately show ?thesis by blast
qed

text \<open>The same script on a server that never expires the key.\<close>

definition script_without_expiry :: "rat \<Rightarrow> rat \<Rightarrow> bucket option \<Rightarrow> int \<times> bucket option" where
  "script_without_expiry rate now st =
     (let tokens = (case st of None \<Rightarrow> rate | Some b \<Rightarrow> min rate (bk_tokens b + (now - bk_last b) * rate))
      in if tokens \<ge> 1 then (1, Some \<lparr>bk_tokens = tokens - 1, bk_last = now, bk_expires = now + 2\<rparr>)
         else (0, Some \<lparr>bk_tokens = tokens, bk_last = now, bk_expires = now + 2\<rparr>))"

text \<open>
  The two-second \<open>EXPIRE\<close> loses nothing: when the application's and the server's clocks agree,
  a call on a well-formed bucket answers and stores exactly what it would if the key never
  expired, because an expired bucket would have refilled anyway.
\<close>

theorem expiry_is_invisible:
  assumes "0 \<le> rate" and "bucket_ok rate now st"
  shows "tokenBucketScript rate now now st = script_without_expiry rate now st"
proof (cases st)
  case None
  then show ?thesis
    by (simp add: tokenBucketScript_def script_without_expiry_def live_bucket_def Let_def)
next
  case (Some b)
  show ?thesis
  proof (cases "now < bk_expires b")
    case True
    with Some show ?thesis
      by (simp add: tokenBucketScript_def script_without_expiry_def live_bucket_def Let_def)
  next
    case False
    then have "rate \<le> (now - bk_last b) * rate"
      using assms Some mult_right_mono [of 1 "now - bk_last b" rate] by (simp add: bucket_ok_def)
    then have "min rate (bk_tokens b + (now - bk_last b) * rate) = rate"
      using assms Some by (simp add: bucket_ok_def)
    with False Some show ?thesis
      by (simp add: tokenBucketScript_def script_without_expiry_def live_bucket_def Let_def)
  qed
qed

text \<open>
  The script trusts its caller's clock: a call whose clock is behind the bucket's by more than
  the stored tokens are worth leaves a negative number of tokens behind, below the range of every
  well-formed bucket, so later callers with the correct clock are refused although the rate was
  never reached.
\<close>

theorem backward_clock_drains_bucket:
  assumes "0 < rate" and "rnow < bk_expires b" and "now < bk_last b - bk_tokens b / rate"
  shows "fst (tokenBucketScript rate now rnow (Some b)) = 0 \<and>
         (\<exists>b'. snd (tokenBucketScript rate now rnow (Some b)) = Some b' \<and> bk_tokens b' < 0)"
proof -
  have "(now - bk_last b) * rate < - (bk_tokens b)"
    using assms(1,3) by (simp add: field_simps)
  then have neg: "bk_tokens b + (now - bk_last b) * rate < 0" by simp
  then have "min rate (bk_tokens b + (now - bk_last b) * rate) = bk_tokens b + (now - bk_last b) * rate"
    using assms(1) by simp
  with neg show ?thesis
    using assms(2) by (simp add: tokenBucketScript_def live_bucket_def Let_def)
qed

lemma backward_clock_drains_bucket_witness:
  "fst (tokenBucketScript 100 98 100 (Some \<lparr>bk_tokens = 100, bk_last = 100, bk_expires = 102\<rparr>)) = 0 \<and>
   (\<exists>b'. snd (tokenBucketScript 100 98 100 (Some \<lparr>bk_tokens = 100, bk_last = 100, bk_expires = 102\<rparr>)) = Some b'
      \<and> bk_tokens b' < 0)"
  by (rule backward_clock_drains_bucket) simp_all

section \<open>Waiting\<close>

lemma wait_loop_bounds:
  assumes "t0 + 10 * millisecond * int i \<le> t" and "i = 0 \<or> t \<le> deadline" and "deadline = t0 + 5 * second"
  shows "fst (snd (snd (wait_loop r env deadline i t st))) \<le> 501"
  using assms
proof (induction r env deadline i t st rule: wait_loop.induct)
  case (1 r env deadline i t st)
  have i: "i \<le> 500"
    using "1.prems" by auto
  let ?al = "RateLimiter_Allow (we_fault env i) t (we_redis env t) r st"
  let ?t' = "t + int (we_latency env i)"
  show ?case
  proof (cases "fst ?al = Inr False \<and> select_next env deadline i ?t' = SelTimer")
    case True
    then have next_t: "?t' + 10 * millisecond \<le> deadline" by (auto dest: select_timer)
    have "fst (snd (snd (wait_loop r env deadline (Suc i) (?t' + 10 * millisecond) (snd ?al)))) \<le> 501"
      by (rule "1.IH" [of ?al "Inr False" "snd ?al" ?t' False])
        (use True next_t "1.prems" in \<open>auto simp: prod_eq_iff algebra_simps\<close>)
    with True show ?thesis
      by (subst wait_loop.simps) (simp add: split_beta Let_def)
  next
    case False
    then show ?thesis
      using i by (subst wait_loop.simps)
        (auto simp: split_beta Let_def split: sum.splits bool.splits select_case.splits option.splits)
  qed
qed

text \<open>
  C16. \<open>Wait\<close> always returns, after at most 501 script calls, whatever the Redis server, the
  network and the context do.
\<close>

theorem wait_terminates: "fst (snd (snd (Wait r env t st))) \<le> 501"
  unfolding Wait_def by (rule wait_loop_bounds [of t]) simp_all

text \<open>The error \<open>Wait\<close> returns, and the state it leaves.\<close>

abbreviation wait_error :: "go_error option \<times> bucket option \<times> nat \<times> time \<Rightarrow> go_error option" where
  "wait_error out \<equiv> fst out"

abbreviation wait_bucket :: "go_error option \<times> bucket option \<times> nat \<times> time \<Rightarrow> bucket option" where
  "wait_bucket out \<equiv> fst (snd out)"

lemma wait_first_call:
  "fst (RateLimiter_Allow (we_fault env 0) t (we_redis env t) r st) \<noteq> Inr False \<Longrightarrow>
   wait_error (Wait r env t st) = None \<and>
   wait_bucket (Wait r env t st) = snd (RateLimiter_Allow (we_fault env 0) t (we_redis env t) r st)"
  unfolding Wait_def
  by (subst (1 2) wait_loop.simps) (auto simp: split_beta Let_def split: sum.splits bool.splits)

text \<open>
  A lost script call lets the request through: the limiter fails open.
\<close>

lemma wait_fails_open:
  "we_fault env 0 \<noteq> NoFault \<Longrightarrow> wait_error (Wait r env t st) = None"
  using wait_first_call [of env t r st]
  by (cases "we_fault env 0") (auto simp: RateLimiter_Allow_def split_beta Let_def)

end
