(* ===== verification/Metrics.thy ===== *)
theory Metrics
  imports Postgres Queue CircuitBreaker RateLimiter
begin

text \<open>
  What \<open>internal/api/handler/metrics.go\<close> and \<open>health.go\<close> collect: queue depths over AMQP channels
  that are opened, lost and reopened on the way, counts and latencies aggregated by SQL, the states
  of the breakers and the tokens left in the buckets. A Go map is a partial function. The numbers
  the database reports as \<open>numeric\<close> and the handler as \<open>float64\<close> are rationals here.

  The lemmas show that every number reported is the true one, which numbers can be missing, when a
  collection panics and how many AMQP channels it leaves open.
\<close>

section \<open>Queue depths\<close>

record queueMetrics =
  qm_Depth :: int
  qm_DLQDepth :: int

text \<open>
  The surroundings: whether the \<open>k\<close>-th \<open>Channel()\<close> of the request succeeds, and what inspecting a
  queue finds.
\<close>

record mq_env =
  mq_open :: "nat \<Rightarrow> bool"
  mq_inspect :: "string \<Rightarrow> int option"

text \<open>The variable \<open>ch\<close> (\<open>None\<close> is nil), how often a channel was asked for, which ones were closed.\<close>

record mq_chans =
  mc_ch :: "nat option"
  mc_asked :: nat
  mc_closed :: "nat list"

definition reopen :: "mq_env \<Rightarrow> mq_chans \<Rightarrow> mq_chans" where
  "reopen env c =
     c\<lparr>mc_ch := (if mq_open env (mc_asked c) then Some (mc_asked c) else None), mc_asked := Suc (mc_asked c)\<rparr>"

text \<open>
  One passive declaration; a call through the nil channel panics, which is \<open>None\<close>. After a failure the
  channel is closed and another one asked for.
\<close>

definition inspect_queue :: "mq_env \<Rightarrow> string \<Rightarrow> mq_chans \<Rightarrow> (int \<times> mq_chans) option" where
  "inspect_queue env q c =
     (case mc_ch c of
        None \<Rightarrow> None
      | Some k \<Rightarrow>
          (case mq_inspect env q of
             None \<Rightarrow> Some (-1, reopen env (c\<lparr>mc_closed := k # mc_closed c\<rparr>))
           | Some messages \<Rightarrow> Some (messages, c)))"

fun depths_loop :: "mq_env \<Rightarrow> (string \<times> string \<times> string) list \<Rightarrow> (string \<rightharpoonup> queueMetrics) \<Rightarrow> mq_chans \<Rightarrow>
    (string \<rightharpoonup> queueMetrics) option \<times> mq_chans" where
  "depths_loop env [] result c = (Some result, c)"
| "depths_loop env ((channel, main, dlq) # qs) result c =
     (case inspect_queue env main c of
        None \<Rightarrow> (None, c)
      | Some (depth, c1) \<Rightarrow>
          (case inspect_queue env dlq c1 of
             None \<Rightarrow> (None, c1)
           | Some (dlqDepth, c2) \<Rightarrow>
               depths_loop env qs (result(channel \<mapsto> \<lparr>qm_Depth = depth, qm_DLQDepth = dlqDepth\<rparr>)) c2))"

definition metrics_queues :: "(string \<times> string \<times> string) list" where
  "metrics_queues = [(''sms'', QueueSMS, DLQueueSMS), (''email'', QueueEmail, DLQueueEmail),
     (''push'', QueuePush, DLQueuePush)]"

text \<open>
  The deferred \<open>ch.Close()\<close> is that of the channel opened first, whatever \<open>ch\<close> is by then; it runs
  after a panic as well. The result is \<open>None\<close> for a panic.
\<close>

definition getQueueDepths :: "mq_env \<Rightarrow> (string \<rightharpoonup> queueMetrics) option \<times> mq_chans" where
  "getQueueDepths env =
     (let c = reopen env \<lparr>mc_ch = None, mc_asked = 0, mc_closed = []\<rparr>
      in case mc_ch c of
           None \<Rightarrow>
             (Some (map_of (map (\<lambda>(channel, _, _). (channel, \<lparr>qm_Depth = -1, qm_DLQDepth = -1\<rparr>)) metrics_queues)), c)
         | Some first \<Rightarrow>
             (let (result, c) = depths_loop env metrics_queues Map.empty c
              in (result, c\<lparr>mc_closed := first # mc_closed c\<rparr>)))"

text \<open>The channels that were opened and never closed.\<close>

definition left_open :: "mq_env \<Rightarrow> mq_chans \<Rightarrow> nat set" where
  "left_open env c = {k. k < mc_asked c \<and> mq_open env k \<and> k \<notin> set (mc_closed c)}"

definition reported :: "mq_env \<Rightarrow> string \<Rightarrow> int" where
  "reported env q = (case mq_inspect env q of None \<Rightarrow> -1 | Some messages \<Rightarrow> messages)"

lemma map_of_rev_distinct: "distinct (map fst xs) \<Longrightarrow> map_of (rev xs) = map_of xs"
  by (rule map_of_eqI) (auto simp: rev_map [symmetric])

text \<open>While every channel can be opened, all opened but the current one are closed.\<close>

definition chans_ok :: "mq_chans \<Rightarrow> bool" where
  "chans_ok c \<longleftrightarrow> (\<exists>k. mc_ch c = Some k \<and> mc_asked c = Suc k \<and> set (mc_closed c) = {..<k})"

definition failed_inspections :: "mq_env \<Rightarrow> (string \<times> string \<times> string) list \<Rightarrow> nat" where
  "failed_inspections env qs =
     length (filter (\<lambda>q. mq_inspect env q = None) (concat (map (\<lambda>(_, main, dlq). [main, dlq]) qs)))"

definition depth_entry :: "mq_env \<Rightarrow> string \<times> string \<times> string \<Rightarrow> string \<times> queueMetrics" where
  "depth_entry env = (\<lambda>(channel, main, dlq).
     (channel, \<lparr>qm_Depth = reported env main, qm_DLQDepth = reported env dlq\<rparr>))"

lemma inspect_ok:
  assumes "\<And>k. mq_open env k" "chans_ok c"
  shows "\<exists>c'. inspect_queue env q c = Some (reported env q, c') \<and> chans_ok c' \<and>
    mc_asked c' = mc_asked c + (if mq_inspect env q = None then 1 else 0)"
  using assms
  by (auto simp: inspect_queue_def chans_ok_def reported_def reopen_def lessThan_Suc split: option.splits)

lemma depths_loop_ok:
  assumes "\<And>k. mq_open env k" "chans_ok c"
  shows "\<exists>c'. depths_loop env qs m c =
      (Some (m ++ map_of (rev (map (depth_entry env) qs))), c') \<and>
    chans_ok c' \<and> mc_asked c' = mc_asked c + failed_inspections env qs"
  using assms(2)
proof (induction qs arbitrary: m c)
  case Nil
  then show ?case by (simp add: failed_inspections_def)
next
  case (Cons p qs)
  obtain channel main dlq where p: "p = (channel, main, dlq)" by (cases p)
  from inspect_ok [OF assms(1) Cons.prems, of main] obtain c1 where
    c1: "inspect_queue env main c = Some (reported env main, c1)" "chans_ok c1"
      "mc_asked c1 = mc_asked c + (if mq_inspect env main = None then 1 else 0)" by auto
  from inspect_ok [OF assms(1) c1(2), of dlq] obtain c2 where
    c2: "inspect_queue env dlq c1 = Some (reported env dlq, c2)" "chans_ok c2"
      "mc_asked c2 = mc_asked c1 + (if mq_inspect env dlq = None then 1 else 0)" by auto
  let ?m = "m(channel \<mapsto> \<lparr>qm_Depth = reported env main, qm_DLQDepth = reported env dlq\<rparr>)"
  from Cons.IH [OF c2(2), of ?m] obtain c' where
    c': "depths_loop env qs ?m c2 = (Some (?m ++ map_of (rev (map (depth_entry env) qs))), c')"
      "chans_ok c'" "mc_asked c' = mc_asked c2 + failed_inspections env qs" by blast
  have "failed_inspections env (p # qs) = (if mq_inspect env main = None then 1 else 0) +
      (if mq_inspect env dlq = None then 1 else 0) + failed_inspections env qs"
    by (simp add: failed_inspections_def p)
  then show ?case using c1 c2 c' by (simp add: p depth_entry_def)
qed

lemma getQueueDepths_ok:
  assumes "\<And>k. mq_open env k" "getQueueDepths env = (result, c)"
  shows "result = Some (map_of (map (depth_entry env) metrics_queues)) \<and>
    left_open env c = (if failed_inspections env metrics_queues = 0 then {} else {failed_inspections env metrics_queues})"
proof -
  let ?c = "\<lparr>mc_ch = Some 0, mc_asked = 1, mc_closed = []\<rparr>"
  have "chans_ok ?c" by (simp add: chans_ok_def)
  from depths_loop_ok [OF assms(1) this, of metrics_queues Map.empty] obtain c' where
    l: "depths_loop env metrics_queues Map.empty ?c = (Some (map_of (rev (map (depth_entry env) metrics_queues))), c')"
    "chans_ok c'" "mc_asked c' = Suc (failed_inspections env metrics_queues)" by auto
  from l(2,3) have cl: "set (mc_closed c') = {..<failed_inspections env metrics_queues}" by (auto simp: chans_ok_def)
  have "result = fst (Some (map_of (rev (map (depth_entry env) metrics_queues))), c')"
    and c: "c = c'\<lparr>mc_closed := 0 # mc_closed c'\<rparr>"
    using assms l(1) by (simp_all add: getQueueDepths_def reopen_def)
  moreover have "left_open env c = (if failed_inspections env metrics_queues = 0 then {}
      else {failed_inspections env metrics_queues})"
    unfolding left_open_def c using assms(1) cl l(3) by (auto simp: less_Suc_eq)
  moreover have "map_of (rev (map (depth_entry env) metrics_queues)) =
    map_of (map (depth_entry env) metrics_queues)"
    by (rule map_of_rev_distinct) (simp add: metrics_queues_def depth_entry_def)
  ultimately show ?thesis by simp
qed

section \<open>Aggregates of the table\<close>

text \<open>
  The surroundings of a query: the statement's fault, the order of its rows, how many arrive before
  \<open>rows.Next()\<close> returns false for the connection's sake, and which of them can be scanned. The loops
  skip a row they cannot scan and never look at \<open>rows.Err()\<close>.
\<close>

record 'r query_env =
  qe_fault :: net_fault
  qe_order :: "'r list \<Rightarrow> 'r list"
  qe_arrived :: nat
  qe_scans :: "'r \<Rightarrow> bool"

definition rows_read :: "'r query_env \<Rightarrow> 'r list \<Rightarrow> 'r list option" where
  "rows_read env rs =
     (case qe_fault env of
        NoFault \<Rightarrow> Some (filter (qe_scans env) (take (qe_arrived env) (qe_order env rs)))
      | LostBefore _ \<Rightarrow> None
      | LostAfter _ \<Rightarrow> None)"

text \<open>The server returns the rows of the result, each once, in some order.\<close>

definition returns_all :: "'r query_env \<Rightarrow> bool" where
  "returns_all env \<longleftrightarrow> (\<forall>rs. mset (qe_order env rs) = mset rs)"

definition query_clean :: "'r query_env \<Rightarrow> 'r list \<Rightarrow> bool" where
  "query_clean env rs \<longleftrightarrow> qe_fault env = NoFault \<and> length rs \<le> qe_arrived env \<and> list_all (qe_scans env) rs"

text \<open>\<open>SELECT channel, status, COUNT(*) ... GROUP BY channel, status\<close>\<close>

definition row_group :: "Notification \<Rightarrow> string \<times> string" where
  "row_group r = (n_Channel r, n_Status r)"

definition group_counts :: "Notification list \<Rightarrow> ((string \<times> string) \<times> int) list" where
  "group_counts rs =
     map (\<lambda>g. (g, int (length (filter (\<lambda>r. row_group r = g) rs)))) (remdups (map row_group rs))"

definition add_count :: "(string \<times> string) \<times> int \<Rightarrow> (string \<rightharpoonup> string \<rightharpoonup> int) \<Rightarrow> (string \<rightharpoonup> string \<rightharpoonup> int)" where
  "add_count row result =
     (let ((channel, status), k) = row;
          inner = (case result channel of None \<Rightarrow> Map.empty | Some m \<Rightarrow> m)
      in result(channel \<mapsto> inner(status \<mapsto> k)))"

definition getNotificationCounts ::
    "((string \<times> string) \<times> int) query_env \<Rightarrow> pg_state \<Rightarrow> (string \<rightharpoonup> string \<rightharpoonup> int)" where
  "getNotificationCounts env s =
     (case rows_read env (group_counts (pg_notifications s)) of
        None \<Rightarrow> Map.empty
      | Some rows \<Rightarrow> fold add_count rows Map.empty)"

record latencyMetrics =
  lm_AvgSeconds :: rat
  lm_MaxSeconds :: rat
  lm_MinSeconds :: rat

definition latency_seconds :: "Notification \<Rightarrow> rat" where
  "latency_seconds r = rat_of_int (the (n_SentAt r) - n_CreatedAt r) / rat_of_int second"

definition sent_latencies :: "string \<Rightarrow> Notification list \<Rightarrow> rat list" where
  "sent_latencies ch rs = map latency_seconds (filter (\<lambda>r. n_SentAt r \<noteq> None \<and> n_Channel r = ch) rs)"

definition latency_of :: "rat list \<Rightarrow> latencyMetrics" where
  "latency_of ls =
     \<lparr>lm_AvgSeconds = sum_list ls / of_nat (length ls), lm_MaxSeconds = Max (set ls), lm_MinSeconds = Min (set ls)\<rparr>"

definition group_latencies :: "Notification list \<Rightarrow> (string \<times> latencyMetrics) list" where
  "group_latencies rs =
     map (\<lambda>ch. (ch, latency_of (sent_latencies ch rs)))
       (remdups (map n_Channel (filter (\<lambda>r. n_SentAt r \<noteq> None) rs)))"

definition getLatency :: "(string \<times> latencyMetrics) query_env \<Rightarrow> pg_state \<Rightarrow> (string \<rightharpoonup> latencyMetrics)" where
  "getLatency env s =
     (case rows_read env (group_latencies (pg_notifications s)) of
        None \<Rightarrow> Map.empty
      | Some rows \<Rightarrow> fold (\<lambda>(channel, l) result. result(channel \<mapsto> l)) rows Map.empty)"

section \<open>Breakers and buckets\<close>

definition getCircuitBreakerStates :: "(string \<times> CircuitBreaker) list \<Rightarrow> (string \<rightharpoonup> string)" where
  "getCircuitBreakerStates breakers =
     fold (\<lambda>(channel, cb) result. result(channel \<mapsto> State_String (breaker_State cb))) breakers Map.empty"

text \<open>
  \<open>hget\<close> is the answer of Redis for the field \<open>tokens\<close> of a key (\<open>None\<close> for an error, an absent key
  included) and \<open>parseFloat\<close> is \<open>strconv.ParseFloat\<close>.
\<close>

definition getRateLimiterTokens :: "(string \<Rightarrow> string option) \<Rightarrow> (string \<Rightarrow> rat option) \<Rightarrow> (string \<rightharpoonup> rat)" where
  "getRateLimiterTokens hget parseFloat =
     fold (\<lambda>ch result.
        result(ch \<mapsto>
          (case hget (''ratelimit:'' @ ch) of
             None \<Rightarrow> -1
           | Some val \<Rightarrow> (case parseFloat val of None \<Rightarrow> -1 | Some tokens \<Rightarrow> tokens))))
       [''sms'', ''email'', ''push''] Map.empty"

record metricsResponse =
  mr_Timestamp :: time
  mr_Queues :: "string \<rightharpoonup> queueMetrics"
  mr_Notifications :: "string \<rightharpoonup> string \<rightharpoonup> int"
  mr_Latency :: "string \<rightharpoonup> latencyMetrics"
  mr_CircuitBreakers :: "string \<rightharpoonup> string"
  mr_RateLimiters :: "string \<rightharpoonup> rat"

record metrics_env =
  mx_now :: time
  mx_mq :: mq_env
  mx_counts :: "((string \<times> string) \<times> int) query_env"
  mx_latency :: "(string \<times> latencyMetrics) query_env"
  mx_hget :: "string \<Rightarrow> string option"
  mx_parseFloat :: "string \<Rightarrow> rat option"

text \<open>The report, or \<open>None\<close> when collecting it panics.\<close>

definition collect_metrics :: "metrics_env \<Rightarrow> (string \<times> CircuitBreaker) list \<Rightarrow> pg_state \<Rightarrow> metricsResponse option" where
  "collect_metrics env breakers s =
     map_option (\<lambda>queues.
       \<lparr>mr_Timestamp = mx_now env, mr_Queues = queues,
        mr_Notifications = getNotificationCounts (mx_counts env) s,
        mr_Latency = getLatency (mx_latency env) s,
        mr_CircuitBreakers = getCircuitBreakerStates breakers,
        mr_RateLimiters = getRateLimiterTokens (mx_hget env) (mx_parseFloat env)\<rparr>)
       (fst (getQueueDepths (mx_mq env)))"

section \<open>Health\<close>

record healthResponse =
  hr_Status :: string
  hr_Checks :: "string \<rightharpoonup> string"

record health_env =
  hc_db :: "string option"
  hc_mq :: "string option"
  hc_redis :: "string option"

definition run_check :: "string \<Rightarrow> string option \<Rightarrow> (string \<rightharpoonup> string) \<times> bool \<Rightarrow> (string \<rightharpoonup> string) \<times> bool" where
  "run_check name err acc =
     (let (checks, healthy) = acc
      in case err of
           Some msg \<Rightarrow> (checks(name \<mapsto> ''failed: '' @ msg), False)
         | None \<Rightarrow> (checks(name \<mapsto> ''ok''), healthy))"

definition collect_health :: "health_env \<Rightarrow> int \<times> healthResponse" where
  "collect_health env =
     (let acc = (Map.empty, True);
          acc = run_check ''database'' (hc_db env) acc;
          acc = run_check ''rabbitmq'' (map_option Error (Connection_Channel (hc_mq env))) acc;
          (checks, healthy) = run_check ''redis'' (hc_redis env) acc
      in if healthy then (200, \<lparr>hr_Status = ''healthy'', hr_Checks = checks\<rparr>)
         else (503, \<lparr>hr_Status = ''degraded'', hr_Checks = checks\<rparr>))"

section \<open>The numbers are true\<close>

definition count_of :: "(string \<rightharpoonup> string \<rightharpoonup> int) \<Rightarrow> string \<times> string \<Rightarrow> int option" where
  "count_of m g = Option.bind (m (fst g)) (\<lambda>inner. inner (snd g))"

lemma count_of_add [simp]: "count_of (add_count (g, k) m) = (count_of m)(g \<mapsto> k)"
  by (rule ext) (auto simp: count_of_def add_count_def Let_def split_beta split: option.splits)

lemma count_of_fold: "count_of (fold add_count rows m) = count_of m ++ map_of (rev rows)"
proof (induction rows arbitrary: m)
  case (Cons r rows)
  obtain g k where "r = (g, k)" by (cases r)
  with Cons show ?case by (simp add: fun_upd_def map_add_def split: option.splits) (rule ext, simp split: option.splits)
qed simp

lemma fold_upd: "fold (\<lambda>(c, l) m. m(c \<mapsto> l)) rows m = m ++ map_of (rev rows)"
  by (induction rows arbitrary: m) auto

lemma rows_read_subset: "returns_all env \<Longrightarrow> rows_read env rs = Some rows \<Longrightarrow> set rows \<subseteq> set rs"
  unfolding rows_read_def returns_all_def
  by (auto split: net_fault.splits dest!: in_set_takeD) (metis set_mset_mset)

lemma rows_read_clean:
  assumes "returns_all env" "query_clean env rs"
  shows "\<exists>rows. rows_read env rs = Some rows \<and> set rows = set rs"
proof -
  have m: "mset (qe_order env rs) = mset rs" using assms(1) by (simp add: returns_all_def)
  then have "set (qe_order env rs) = set rs" "length (qe_order env rs) = length rs"
    by (metis set_mset_mset, metis size_mset)
  then show ?thesis using assms(2) by (auto simp: rows_read_def query_clean_def list_all_iff)
qed

lemma map_of_functional:
  assumes "\<And>g k. (g, k) \<in> set rows \<Longrightarrow> k = f g"
  shows "map_of (rev rows) g = (if g \<in> fst ` set rows then Some (f g) else None)"
proof (cases "map_of (rev rows) g")
  case None
  then show ?thesis by (auto simp: map_of_eq_None_iff)
next
  case (Some k)
  then have "(g, k) \<in> set rows" using map_of_SomeD by fastforce
  then show ?thesis using assms Some by force
qed

lemma group_counts_functional: "(g, k) \<in> set (group_counts rs) \<longleftrightarrow>
   g \<in> row_group ` set rs \<and> k = int (length (filter (\<lambda>r. row_group r = g) rs))"
  by (auto simp: group_counts_def)

lemma group_latencies_functional: "(ch, l) \<in> set (group_latencies rs) \<longleftrightarrow>
   sent_latencies ch rs \<noteq> [] \<and> l = latency_of (sent_latencies ch rs)"
  by (auto simp: group_latencies_def sent_latencies_def filter_empty_conv image_iff)

lemma counts_are:
  assumes "returns_all env" "rows_read env (group_counts (pg_notifications s)) = Some rows"
  shows "count_of (getNotificationCounts env s) g =
    (if g \<in> fst ` set rows then Some (int (length (filter (\<lambda>r. row_group r = g) (pg_notifications s)))) else None)"
proof -
  have "k = int (length (filter (\<lambda>r. row_group r = g) (pg_notifications s)))" if "(g, k) \<in> set rows" for g k
    using that rows_read_subset [OF assms] group_counts_functional by blast
  from map_of_functional [of rows, OF this] have "map_of (rev rows) g =
    (if g \<in> fst ` set rows then Some (int (length (filter (\<lambda>r. row_group r = g) (pg_notifications s)))) else None)" .
  moreover have "count_of (getNotificationCounts env s) g = map_of (rev rows) g"
    using assms(2) by (simp add: getNotificationCounts_def count_of_fold)
      (simp add: count_of_def map_add_def split: option.splits)
  ultimately show ?thesis by simp
qed

lemma latencies_are:
  assumes "returns_all env" "rows_read env (group_latencies (pg_notifications s)) = Some rows"
  shows "getLatency env s ch =
    (if ch \<in> fst ` set rows then Some (latency_of (sent_latencies ch (pg_notifications s))) else None)"
proof -
  have "l = latency_of (sent_latencies ch (pg_notifications s))" if "(ch, l) \<in> set rows" for ch l
    using that rows_read_subset [OF assms] group_latencies_functional by blast
  from map_of_functional [of rows, OF this] have "map_of (rev rows) ch =
    (if ch \<in> fst ` set rows then Some (latency_of (sent_latencies ch (pg_notifications s))) else None)" .
  then show ?thesis using assms(2) by (simp add: getLatency_def fold_upd)
qed

text \<open>An average lies between the smallest and the largest value.\<close>

lemma sum_list_between:
  "ls \<noteq> [] \<Longrightarrow> Min (set ls) * of_nat (length ls) \<le> sum_list ls \<and> sum_list ls \<le> Max (set ls) * of_nat (length ls)"
  for ls :: "rat list"
  using sum_list_mono [of ls "\<lambda>_. Min (set ls)" id] sum_list_mono [of ls id "\<lambda>_. Max (set ls)"]
  by (simp add: sum_list_triv mult.commute)

lemma latency_of_between:
  "ls \<noteq> [] \<Longrightarrow> lm_MinSeconds (latency_of ls) \<le> lm_AvgSeconds (latency_of ls) \<and>
    lm_AvgSeconds (latency_of ls) \<le> lm_MaxSeconds (latency_of ls)"
  using sum_list_between [of ls] by (simp add: latency_of_def field_simps)

lemma counts_true:
  assumes "returns_all env" "count_of (getNotificationCounts env s) g = Some k"
  shows "0 < k \<and> k = int (length (filter (\<lambda>r. row_group r = g) (pg_notifications s)))"
proof (cases "rows_read env (group_counts (pg_notifications s))")
  case None
  with assms(2) show ?thesis by (simp add: getNotificationCounts_def count_of_def)
next
  case (Some rows)
  with counts_are [OF assms(1)] assms(2) have g: "g \<in> fst ` set rows"
    and k: "k = int (length (filter (\<lambda>r. row_group r = g) (pg_notifications s)))"
    by (auto split: if_splits)
  from g obtain k' where "(g, k') \<in> set rows" by auto
  then have "(g, k') \<in> set (group_counts (pg_notifications s))" using rows_read_subset [OF assms(1) Some] by blast
  then have "g \<in> row_group ` set (pg_notifications s)" by (simp add: group_counts_functional)
  with k show ?thesis by (auto simp: filter_empty_conv)
qed

lemma counts_complete:
  assumes "returns_all env" "query_clean env (group_counts (pg_notifications s))" "r \<in> set (pg_notifications s)"
  shows "count_of (getNotificationCounts env s) (row_group r) \<noteq> None"
proof -
  obtain rows where rows: "rows_read env (group_counts (pg_notifications s)) = Some rows"
    "set rows = set (group_counts (pg_notifications s))" using rows_read_clean [OF assms(1,2)] by blast
  have "(row_group r, int (length (filter (\<lambda>q. row_group q = row_group r) (pg_notifications s)))) \<in> set rows"
    using rows(2) assms(3) by (simp add: group_counts_functional)
  then have "row_group r \<in> fst ` set rows" by (metis fst_conv image_eqI)
  then show ?thesis unfolding counts_are [OF assms(1) rows(1)] by simp
qed

lemma latencies_true:
  assumes "returns_all env" "getLatency env s ch = Some l"
  shows "l = latency_of (sent_latencies ch (pg_notifications s)) \<and>
    lm_MinSeconds l \<le> lm_AvgSeconds l \<and> lm_AvgSeconds l \<le> lm_MaxSeconds l"
proof (cases "rows_read env (group_latencies (pg_notifications s))")
  case None
  with assms(2) show ?thesis by (simp add: getLatency_def)
next
  case (Some rows)
  with latencies_are [OF assms(1)] assms(2) have ch: "ch \<in> fst ` set rows"
    and l: "l = latency_of (sent_latencies ch (pg_notifications s))" by (auto split: if_splits)
  from ch obtain l' where "(ch, l') \<in> set rows" by auto
  then have "(ch, l') \<in> set (group_latencies (pg_notifications s))" using rows_read_subset [OF assms(1) Some] by blast
  then have "sent_latencies ch (pg_notifications s) \<noteq> []" by (simp add: group_latencies_functional)
  with l latency_of_between show ?thesis by simp
qed

section \<open>Properties\<close>


definition sample_metrics_env :: metrics_env where
  "sample_metrics_env = \<lparr>mx_now = 0, mx_mq = \<lparr>mq_open = (\<lambda>_. True), mq_inspect = (\<lambda>_. Some 3)\<rparr>,
     mx_counts = \<lparr>qe_fault = NoFault, qe_order = rev, qe_arrived = 9, qe_scans = (\<lambda>_. True)\<rparr>,
     mx_latency = \<lparr>qe_fault = NoFault, qe_order = rev, qe_arrived = 9, qe_scans = (\<lambda>_. True)\<rparr>,
     mx_hget = (\<lambda>_. None), mx_parseFloat = (\<lambda>_. None)\<rparr>"


text \<open>
  C40. The queue depths of a report. When no AMQP channel can be opened every depth is \<open>-1\<close> and nothing
  else happens. When channels can be opened, every queue that can be inspected has its true depth
  and every other one \<open>-1\<close>, and of the channels opened on the way one stays open for good exactly if
  some inspection failed. When the channel cannot be reopened after the first inspection has failed,
  collecting the report panics.
\<close>

theorem queue_depths_report:
  "(\<not> mq_open env 0 \<longrightarrow> left_open env (snd (getQueueDepths env)) = {} \<and>
      (\<forall>(channel, main, dlq) \<in> set metrics_queues. Option.bind (fst (getQueueDepths env)) (\<lambda>m. m channel) =
         Some \<lparr>qm_Depth = -1, qm_DLQDepth = -1\<rparr>)) \<and>
   ((\<forall>k. mq_open env k) \<longrightarrow>
      (\<forall>(channel, main, dlq) \<in> set metrics_queues. Option.bind (fst (getQueueDepths env)) (\<lambda>m. m channel) =
         Some \<lparr>qm_Depth = reported env main, qm_DLQDepth = reported env dlq\<rparr>) \<and>
      card (left_open env (snd (getQueueDepths env))) =
        (if \<exists>(channel, main, dlq) \<in> set metrics_queues. mq_inspect env main = None \<or> mq_inspect env dlq = None
         then 1 else 0)) \<and>
   (mq_open env 0 \<and> mq_inspect env QueueSMS = None \<and> \<not> mq_open env 1 \<longrightarrow> fst (getQueueDepths env) = None)"
proof (intro conjI impI)
  assume "\<not> mq_open env 0"
  then show "left_open env (snd (getQueueDepths env)) = {}"
    and "\<forall>(channel, main, dlq) \<in> set metrics_queues. Option.bind (fst (getQueueDepths env)) (\<lambda>m. m channel) =
         Some \<lparr>qm_Depth = -1, qm_DLQDepth = -1\<rparr>"
    by (auto simp: getQueueDepths_def reopen_def left_open_def metrics_queues_def less_Suc_eq)
next
  assume o: "\<forall>k. mq_open env k"
  obtain result c where run: "getQueueDepths env = (result, c)" by force
  note ok = getQueueDepths_ok [OF _ run]
  show "\<forall>(channel, main, dlq) \<in> set metrics_queues. Option.bind (fst (getQueueDepths env)) (\<lambda>m. m channel) =
         Some \<lparr>qm_Depth = reported env main, qm_DLQDepth = reported env dlq\<rparr>"
    using ok o run by (simp add: metrics_queues_def depth_entry_def)
  have "failed_inspections env metrics_queues = 0 \<longleftrightarrow>
      \<not> (\<exists>(channel, main, dlq) \<in> set metrics_queues. mq_inspect env main = None \<or> mq_inspect env dlq = None)"
    by (auto simp: failed_inspections_def metrics_queues_def split: if_splits)
  then show "card (left_open env (snd (getQueueDepths env))) =
      (if \<exists>(channel, main, dlq) \<in> set metrics_queues. mq_inspect env main = None \<or> mq_inspect env dlq = None
       then 1 else 0)"
    using ok o run by simp
next
  assume "mq_open env 0 \<and> mq_inspect env QueueSMS = None \<and> \<not> mq_open env 1"
  then show "fst (getQueueDepths env) = None"
    by (simp add: getQueueDepths_def reopen_def metrics_queues_def inspect_queue_def)
qed

theorem queue_depths_report_witness:
  "card (left_open \<lparr>mq_open = (\<lambda>_. True), mq_inspect = (\<lambda>q. if q = QueueSMS then None else Some 3)\<rparr>
     (snd (getQueueDepths \<lparr>mq_open = (\<lambda>_. True), mq_inspect = (\<lambda>q. if q = QueueSMS then None else Some 3)\<rparr>))) = 1"
  using queue_depths_report [of "\<lparr>mq_open = (\<lambda>_. True), mq_inspect = (\<lambda>q. if q = QueueSMS then None else Some 3)\<rparr>"]
  by (auto simp: metrics_queues_def)

text \<open>
  The health endpoint answers 200 and \<open>healthy\<close> exactly when the database, RabbitMQ and Redis all
  answer, and 503 and \<open>degraded\<close> otherwise; either way it reports each of the three, as \<open>ok\<close> or with
  the error.
\<close>

theorem health_report:
  "fst (collect_health env) = (if hc_db env = None \<and> hc_mq env = None \<and> hc_redis env = None then 200 else 503) \<and>
   hr_Status (snd (collect_health env)) = (if fst (collect_health env) = 200 then ''healthy'' else ''degraded'') \<and>
   dom (hr_Checks (snd (collect_health env))) = {''database'', ''rabbitmq'', ''redis''} \<and>
   (hr_Checks (snd (collect_health env)) ''rabbitmq'' = Some ''ok'' \<longleftrightarrow> hc_mq env = None)"
  by (auto simp: collect_health_def run_check_def Connection_Channel_def Let_def split: option.split)

end
