(* ===== verification/Message.thy ===== *)
theory Message
  imports Queue
begin

text \<open>
  The message as the worker reads it (\<open>internal/worker/processor.go\<close>, \<open>QueueMessage\<close>): \<open>json.Unmarshal\<close> of
  a delivery's body into the struct, with Go's rules for unknown, repeated and differently
  capitalised names, for \<open>null\<close>, and for values of another type. The round trip with the producer
  (\<open>Queue\<close>) is proved here.
\<close>

record QueueMessage =
  qm_ID :: string
  qm_Recipient :: string
  qm_Channel :: string
  qm_Content :: string
  qm_Subject :: "string option"
  qm_Priority :: string
  qm_Metadata :: "string option"

definition zero_message :: QueueMessage where
  "zero_message = \<lparr>qm_ID = [], qm_Recipient = [], qm_Channel = [], qm_Content = [], qm_Subject = None, qm_Priority = [],
     qm_Metadata = None\<rparr>"

section \<open>Reading\<close>

definition message_fields :: "string list" where
  "message_fields = [''id'', ''recipient'', ''channel'', ''content'', ''subject'', ''priority'', ''metadata'']"

definition decode_field :: "string \<times> string \<Rightarrow> QueueMessage \<times> bool \<Rightarrow> QueueMessage \<times> bool" where
  "decode_field m acc =
     (let (name, raw) = m; (msg, bad) = acc
      in case find_field message_fields name of
           None \<Rightarrow> acc
         | Some f \<Rightarrow>
             if f = ''id'' then set_string raw (\<lambda>s. qm_ID_update (\<lambda>_. s)) acc
             else if f = ''recipient'' then set_string raw (\<lambda>s. qm_Recipient_update (\<lambda>_. s)) acc
             else if f = ''channel'' then set_string raw (\<lambda>s. qm_Channel_update (\<lambda>_. s)) acc
             else if f = ''content'' then set_string raw (\<lambda>s. qm_Content_update (\<lambda>_. s)) acc
             else if f = ''subject'' then
               set_string_ptr raw (\<lambda>s. qm_Subject_update (\<lambda>_. s)) acc
             else if f = ''priority'' then set_string raw (\<lambda>s. qm_Priority_update (\<lambda>_. s)) acc
             else (msg\<lparr>qm_Metadata := Some raw\<rparr>, bad))"

definition unmarshal_message :: "string \<Rightarrow> QueueMessage option" where
  "unmarshal_message = unmarshal_object decode_field zero_message"

section \<open>The round trip\<close>

definition delivered_message :: "message \<Rightarrow> QueueMessage" where
  "delivered_message m =
     \<lparr>qm_ID = to_valid_utf8 (m_ID m), qm_Recipient = to_valid_utf8 (m_Recipient m), qm_Channel = to_valid_utf8 (m_Channel m),
      qm_Content = to_valid_utf8 (m_Content m), qm_Subject = map_option to_valid_utf8 (m_Subject m),
      qm_Priority = to_valid_utf8 (m_Priority m),
      qm_Metadata = (case m_Metadata m of None \<Rightarrow> None | Some raw \<Rightarrow> if raw = [] then None else json_compact raw)\<rparr>"

text \<open>Metadata that are absent, or JSON that still fits the nesting limit inside a message.\<close>

definition readable_metadata :: "string option \<Rightarrow> bool" where
  "readable_metadata metadata \<longleftrightarrow> (case metadata of None \<Rightarrow> True | Some raw \<Rightarrow> raw = [] \<or> raw_json raw)"

lemma readable_none [simp]: "readable_metadata None"
  by (simp add: readable_metadata_def)

lemma field_names_valid:
  "to_valid_utf8 ''id'' = ''id''" "to_valid_utf8 ''recipient'' = ''recipient''" "to_valid_utf8 ''channel'' = ''channel''"
  "to_valid_utf8 ''content'' = ''content''" "to_valid_utf8 ''subject'' = ''subject''" "to_valid_utf8 ''priority'' = ''priority''"
  "to_valid_utf8 ''metadata'' = ''metadata''"
  by code_simp+

lemma decode_steps:
  "decode_field (''id'', json_string s) (msg, bad) = (msg\<lparr>qm_ID := to_valid_utf8 s\<rparr>, bad)"
  "decode_field (''recipient'', json_string s) (msg, bad) = (msg\<lparr>qm_Recipient := to_valid_utf8 s\<rparr>, bad)"
  "decode_field (''channel'', json_string s) (msg, bad) = (msg\<lparr>qm_Channel := to_valid_utf8 s\<rparr>, bad)"
  "decode_field (''content'', json_string s) (msg, bad) = (msg\<lparr>qm_Content := to_valid_utf8 s\<rparr>, bad)"
  "decode_field (''subject'', json_string s) (msg, bad) = (msg\<lparr>qm_Subject := Some (to_valid_utf8 s)\<rparr>, bad)"
  "decode_field (''priority'', json_string s) (msg, bad) = (msg\<lparr>qm_Priority := to_valid_utf8 s\<rparr>, bad)"
  "decode_field (''metadata'', t) (msg, bad) = (msg\<lparr>qm_Metadata := Some t\<rparr>, bad)"
  by (simp_all add: decode_field_def find_field_def message_fields_def set_json_string set_json_string_ptr)

lemma metadata_members:
  assumes "readable_metadata metadata"
  shows "\<exists>ms. metadata_member metadata = Some ms \<and> list_all (\<lambda>p. value_again (max_depth - 1) (snd p)) ms \<and>
    ms = (case (case metadata of None \<Rightarrow> None | Some raw \<Rightarrow> if raw = [] then None else json_compact raw) of
            None \<Rightarrow> [] | Some t \<Rightarrow> [(''metadata'', t)])"
proof (cases "metadata = None \<or> metadata = Some []")
  case True
  then show ?thesis by (auto simp: metadata_member_def)
next
  case False
  then obtain raw where raw: "metadata = Some raw" "raw \<noteq> []" by (cases metadata) auto
  with assms obtain t where "json_compact raw = Some t" "value_again (max_depth - 1) t"
    using raw_json_compact by (auto simp: readable_metadata_def)
  with raw show ?thesis by (simp add: metadata_member_def)
qed

lemma marshal_unmarshal:
  assumes "readable_metadata (m_Metadata m)"
  shows "\<exists>body. marshal_message m = Some body \<and> unmarshal_message body = Some (delivered_message m)"
proof -
  obtain metadata where meta: "metadata_member (m_Metadata m) = Some metadata"
    "list_all (\<lambda>p. value_again (max_depth - 1) (snd p)) metadata"
    and "metadata = (case (case m_Metadata m of None \<Rightarrow> None | Some raw \<Rightarrow> if raw = [] then None else json_compact raw) of
      None \<Rightarrow> [] | Some t \<Rightarrow> [(''metadata'', t)])"
    using metadata_members [OF assms] by blast
  then have tail: "metadata = (case qm_Metadata (delivered_message m) of None \<Rightarrow> [] | Some t \<Rightarrow> [(''metadata'', t)])"
    by (simp only: delivered_message_def QueueMessage.simps)
  let ?ms = "message_members m metadata"
  have "list_all (\<lambda>p. value_again (max_depth - 1) (snd p)) ?ms"
    using meta(2) value_again_json_string by (auto simp: message_members_def split: option.splits)
  then have read: "json_read (object_text ?ms) = Some (JObject (map (\<lambda>(n, v). (to_valid_utf8 n, v)) ?ms))"
    by (rule json_read_object [rotated]) (simp add: message_members_def)
  have "fold decode_field (map (\<lambda>(n, v). (to_valid_utf8 n, v)) ?ms) (zero_message, False) = (delivered_message m, False)"
    by (cases "m_Subject m"; cases "qm_Metadata (delivered_message m)")
      (simp_all add: message_members_def tail field_names_valid decode_steps zero_message_def del: to_valid_utf8.simps,
        simp_all add: delivered_message_def del: to_valid_utf8.simps)
  then show ?thesis
    using meta(1) read by (simp add: marshal_message_def unmarshal_message_def unmarshal_object_def decode_all_def decode_doc_def)
qed

text \<open>
  C24. What the producer writes the worker reads: for every message whose metadata are absent or JSON
  (nested at most 9999 deep), encoding succeeds and decoding the body gives the message back, every
  string as it was with invalid UTF-8 replaced, and the metadata in compact form.
\<close>

theorem message_roundtrip:
  assumes "readable_metadata (m_Metadata m)"
  shows "\<exists>body. marshal_message m = Some body \<and> unmarshal_message body = Some (delivered_message m)"
  by (rule marshal_unmarshal [OF assms])

theorem message_roundtrip_witness:
  "\<exists>body. marshal_message \<lparr>m_ID = ''1'', m_Recipient = ''+90'', m_Channel = ''sms'', m_Content = ''a <b>'', m_Subject = None,
       m_Priority = ''low'', m_Metadata = Some ''[ 1 , true ]''\<rparr> = Some body \<and>
     map_option qm_Content (unmarshal_message body) = Some ''a <b>'' \<and>
     map_option qm_Metadata (unmarshal_message body) = Some (Some ''[1,true]'')"
proof -
  let ?m = "\<lparr>m_ID = ''1'', m_Recipient = ''+90'', m_Channel = ''sms'', m_Content = ''a <b>'', m_Subject = None,
       m_Priority = ''low'', m_Metadata = Some ''[ 1 , true ]''\<rparr>"
  have "raw_json ''[ 1 , true ]''" "json_compact ''[ 1 , true ]'' = Some ''[1,true]''" by code_simp+
  moreover have "to_valid_utf8 ''a <b>'' = ''a <b>''" by code_simp
  ultimately show ?thesis using message_roundtrip [of ?m] by (auto simp: readable_metadata_def delivered_message_def simp del: to_valid_utf8.simps)
qed

end
