(* ===== verification/Requests.thy ===== *)
theory Requests
  imports Template Message Rfc3339
begin

text \<open>
  The request bodies (\<open>internal/domain\<close>, the JSON tags of \<open>CreateNotificationRequest\<close>,
  \<open>BatchCreateRequest\<close> and \<open>CreateTemplateRequest\<close>): \<open>json.NewDecoder(r.Body).Decode\<close> into these structs,
  with Go's rules for each type of field. A decoder reads one value and ignores what follows it. The
  lemma: a request written with the same tags is read back.
\<close>

section \<open>Fields\<close>

definition set_time_ptr :: "string \<Rightarrow> (time option \<Rightarrow> 'r \<Rightarrow> 'r) \<Rightarrow> 'r \<times> bool \<Rightarrow> 'r \<times> bool" where
  "set_time_ptr raw upd acc =
     (let (r, bad) = acc
      in if raw = ''null'' then (upd None r, bad)
         else (case unmarshal_time raw zero_time of
                 None \<Rightarrow> (r, True)
               | Some t \<Rightarrow> (upd (Some t) r, bad)))"

definition set_uuid_ptr :: "uuid_pkg \<Rightarrow> string \<Rightarrow> (uuid option \<Rightarrow> 'r \<Rightarrow> 'r) \<Rightarrow> 'r \<times> bool \<Rightarrow> 'r \<times> bool" where
  "set_uuid_ptr up raw upd acc =
     (let (r, bad) = acc
      in if hd raw = CHR ''n'' then (upd None r, bad)
         else if hd raw \<noteq> dquote then (r, True)
         else (case uuid_Parse up (string_of_raw raw) of
                 None \<Rightarrow> (r, True)
               | Some i \<Rightarrow> (upd (Some i) r, bad)))"

text \<open>
  A \<open>map[string]string\<close>: members are added to what is there; \<open>null\<close> for a value stands for the empty
  string, \<open>null\<close> for the map for no map.
\<close>

definition decode_entry :: "string \<times> string \<Rightarrow> (string \<rightharpoonup> string) \<times> bool \<Rightarrow> (string \<rightharpoonup> string) \<times> bool" where
  "decode_entry m acc =
     (let (key, raw) = m; (vars, bad) = acc
      in if hd raw = dquote then (vars(key \<mapsto> string_of_raw raw), bad)
         else if hd raw = CHR ''n'' then (vars(key \<mapsto> []), bad)
         else (vars(key \<mapsto> []), True))"

definition decode_variables :: "string \<Rightarrow> (string \<rightharpoonup> string) \<Rightarrow> (string \<rightharpoonup> string) \<times> bool" where
  "decode_variables raw vars =
     (case json_read raw of
        Some JNull \<Rightarrow> (Map.empty, False)
      | Some (JObject ms) \<Rightarrow> fold decode_entry ms (vars, False)
      | _ \<Rightarrow> (vars, True))"

section \<open>Requests\<close>

definition zero_request :: CreateNotificationRequest where
  "zero_request = \<lparr>r_IdempotencyKey = None, r_Recipient = [], r_Channel = [], r_Content = [], r_Subject = None,
     r_Priority = [], r_ScheduledAt = None, r_Metadata = None, r_TemplateID = None, r_Variables = Map.empty\<rparr>"

definition request_fields :: "string list" where
  "request_fields = [''idempotency_key'', ''recipient'', ''channel'', ''content'', ''subject'', ''priority'',
     ''scheduled_at'', ''metadata'', ''template_id'', ''variables'']"

definition decode_request_field ::
    "uuid_pkg \<Rightarrow> string \<times> string \<Rightarrow> CreateNotificationRequest \<times> bool \<Rightarrow> CreateNotificationRequest \<times> bool" where
  "decode_request_field up m acc =
     (let (name, raw) = m; (r, bad) = acc
      in case find_field request_fields name of
           None \<Rightarrow> acc
         | Some f \<Rightarrow>
             if f = ''idempotency_key'' then set_string_ptr raw (\<lambda>s. r_IdempotencyKey_update (\<lambda>_. s)) acc
             else if f = ''recipient'' then set_string raw (\<lambda>s. r_Recipient_update (\<lambda>_. s)) acc
             else if f = ''channel'' then set_string raw (\<lambda>s. r_Channel_update (\<lambda>_. s)) acc
             else if f = ''content'' then set_string raw (\<lambda>s. r_Content_update (\<lambda>_. s)) acc
             else if f = ''subject'' then set_string_ptr raw (\<lambda>s. r_Subject_update (\<lambda>_. s)) acc
             else if f = ''priority'' then set_string raw (\<lambda>s. r_Priority_update (\<lambda>_. s)) acc
             else if f = ''scheduled_at'' then set_time_ptr raw (\<lambda>t. r_ScheduledAt_update (\<lambda>_. t)) acc
             else if f = ''metadata'' then (r\<lparr>r_Metadata := Some raw\<rparr>, bad)
             else if f = ''template_id'' then set_uuid_ptr up raw (\<lambda>i. r_TemplateID_update (\<lambda>_. i)) acc
             else (let (vars, bad') = decode_variables raw (r_Variables r)
                   in (r\<lparr>r_Variables := vars\<rparr>, bad \<or> bad')))"

definition decode_request :: "uuid_pkg \<Rightarrow> string \<Rightarrow> CreateNotificationRequest option" where
  "decode_request up = decode_first (decode_request_field up) zero_request"

text \<open>
  The elements of an array, each decoded into the element that is already there when the array comes
  a second time, and into a fresh one otherwise.
\<close>

fun decode_items :: "uuid_pkg \<Rightarrow> CreateNotificationRequest list \<Rightarrow> string list \<Rightarrow> CreateNotificationRequest list \<times> bool" where
  "decode_items up old [] = ([], False)"
| "decode_items up old (raw # raws) =
     (let r0 = (case old of [] \<Rightarrow> zero_request | o1 # _ \<Rightarrow> o1);
          (r, bad) = (case json_read raw of
                        None \<Rightarrow> (r0, True)
                      | Some doc \<Rightarrow> decode_doc (decode_request_field up) doc (r0, False));
          (rs, bad') = decode_items up (tl old) raws
      in (r # rs, bad \<or> bad'))"

definition decode_batch_field :: "uuid_pkg \<Rightarrow> string \<times> string \<Rightarrow> BatchCreateRequest \<times> bool \<Rightarrow> BatchCreateRequest \<times> bool" where
  "decode_batch_field up m acc =
     (let (name, raw) = m; (b, bad) = acc
      in if find_field [''notifications''] name = None then acc
         else if hd raw = CHR ''n'' then (b\<lparr>b_Notifications := []\<rparr>, bad)
         else if hd raw \<noteq> CHR ''['' then (b, True)
         else (case array_elements raw of
                 None \<Rightarrow> (b, True)
               | Some raws \<Rightarrow>
                   (let (rs, bad') = decode_items up (b_Notifications b) raws
                    in (b\<lparr>b_Notifications := rs\<rparr>, bad \<or> bad'))))"

definition decode_batch :: "uuid_pkg \<Rightarrow> string \<Rightarrow> BatchCreateRequest option" where
  "decode_batch up = decode_first (decode_batch_field up) \<lparr>b_Notifications = []\<rparr>"

definition decode_template_field :: "string \<times> string \<Rightarrow> CreateTemplateRequest \<times> bool \<Rightarrow> CreateTemplateRequest \<times> bool" where
  "decode_template_field m acc =
     (let (name, raw) = m
      in case find_field [''name'', ''channel'', ''content'', ''subject''] name of
           None \<Rightarrow> acc
         | Some f \<Rightarrow>
             if f = ''name'' then set_string raw (\<lambda>s. ct_Name_update (\<lambda>_. s)) acc
             else if f = ''channel'' then set_string raw (\<lambda>s. ct_Channel_update (\<lambda>_. s)) acc
             else if f = ''content'' then set_string raw (\<lambda>s. ct_Content_update (\<lambda>_. s)) acc
             else set_string_ptr raw (\<lambda>s. ct_Subject_update (\<lambda>_. s)) acc)"

definition decode_template_request :: "string \<Rightarrow> CreateTemplateRequest option" where
  "decode_template_request =
     decode_first decode_template_field \<lparr>ct_Name = [], ct_Channel = [], ct_Content = [], ct_Subject = None\<rparr>"

section \<open>Round trip\<close>

text \<open>
  A request as a client with the same struct writes it (\<open>json.Marshal\<close>, \<open>omitempty\<close> and all), the variables
  in the order \<open>vars\<close>.
\<close>

definition opt_member :: "string \<Rightarrow> ('a \<Rightarrow> string) \<Rightarrow> 'a option \<Rightarrow> (string \<times> string) list" where
  "opt_member name text x = (case x of None \<Rightarrow> [] | Some v \<Rightarrow> [(name, text v)])"

definition request_members :: "uuid_pkg \<Rightarrow> CreateNotificationRequest \<Rightarrow> string option \<Rightarrow> (string \<times> string) list \<Rightarrow>
    (string \<times> string) list \<Rightarrow> (string \<times> string) list" where
  "request_members up r scheduled metadata vars =
     opt_member ''idempotency_key'' json_string (r_IdempotencyKey r) @
     [(''recipient'', json_string (r_Recipient r)), (''channel'', json_string (r_Channel r)),
      (''content'', json_string (r_Content r))] @
     opt_member ''subject'' json_string (r_Subject r) @
     (if r_Priority r = [] then [] else [(''priority'', json_string (r_Priority r))]) @
     opt_member ''scheduled_at'' (\<lambda>t. t) scheduled @ metadata @
     opt_member ''template_id'' (\<lambda>i. json_string (uuid_String up i)) (r_TemplateID r) @
     (if vars = [] then [] else [(''variables'', object_text (map (\<lambda>(k, v). (k, json_string v)) vars))])"

definition marshal_create :: "uuid_pkg \<Rightarrow> (time \<Rightarrow> int) \<Rightarrow> (string \<times> string) list \<Rightarrow> CreateNotificationRequest \<Rightarrow> string option" where
  "marshal_create up zone vars r =
     (case (case r_ScheduledAt r of None \<Rightarrow> Some None | Some t \<Rightarrow> map_option Some (marshal_time zone t),
            metadata_member (r_Metadata r)) of
        (Some scheduled, Some metadata) \<Rightarrow> Some (object_text (request_members up r scheduled metadata vars))
      | _ \<Rightarrow> None)"

text \<open>What the server makes of it: invalid UTF-8 replaced, metadata compacted, later variables first.\<close>

definition received :: "(string \<times> string) list \<Rightarrow> CreateNotificationRequest \<Rightarrow> CreateNotificationRequest" where
  "received vars r =
     \<lparr>r_IdempotencyKey = map_option to_valid_utf8 (r_IdempotencyKey r), r_Recipient = to_valid_utf8 (r_Recipient r),
      r_Channel = to_valid_utf8 (r_Channel r), r_Content = to_valid_utf8 (r_Content r),
      r_Subject = map_option to_valid_utf8 (r_Subject r), r_Priority = to_valid_utf8 (r_Priority r),
      r_ScheduledAt = r_ScheduledAt r,
      r_Metadata = (case r_Metadata r of None \<Rightarrow> None | Some raw \<Rightarrow> if raw = [] then None else json_compact raw),
      r_TemplateID = r_TemplateID r,
      r_Variables = map_of (rev (map (\<lambda>(k, v). (to_valid_utf8 k, to_valid_utf8 v)) vars))\<rparr>"

lemma decode_entries:
  "fold decode_entry (map (\<lambda>(k, v). (to_valid_utf8 k, json_string v)) vars) (m, False) =
   (m ++ map_of (rev (map (\<lambda>(k, v). (to_valid_utf8 k, to_valid_utf8 v)) vars)), False)"
  by (induction vars arbitrary: m) (auto simp: decode_entry_def string_of_json_string map_add_upds)

lemma decode_variables_written:
  assumes "vars \<noteq> []"
  shows "decode_variables (object_text (map (\<lambda>(k, v). (k, json_string v)) vars)) Map.empty =
    (map_of (rev (map (\<lambda>(k, v). (to_valid_utf8 k, to_valid_utf8 v)) vars)), False)"
proof -
  let ?ms = "map (\<lambda>(k, v). (k, json_string v)) vars"
  have "json_read (object_text ?ms) = Some (JObject (map (\<lambda>(n, v). (to_valid_utf8 n, v)) ?ms))"
    by (rule json_read_object) (use assms in \<open>auto simp: list_all_iff value_again_json_string\<close>)
  moreover have "map (\<lambda>(n, v). (to_valid_utf8 n, v)) ?ms = map (\<lambda>(k, v). (to_valid_utf8 k, json_string v)) vars"
    by auto
  ultimately show ?thesis
    by (simp only: decode_variables_def option.case json_doc.case decode_entries empty_map_add)
qed

lemma request_names_valid:
  "to_valid_utf8 ''idempotency_key'' = ''idempotency_key''" "to_valid_utf8 ''scheduled_at'' = ''scheduled_at''"
  "to_valid_utf8 ''template_id'' = ''template_id''" "to_valid_utf8 ''variables'' = ''variables''"
  by code_simp+

lemma decode_request_steps:
  "decode_request_field up (''idempotency_key'', json_string s) (r, bad) = (r\<lparr>r_IdempotencyKey := Some (to_valid_utf8 s)\<rparr>, bad)"
  "decode_request_field up (''recipient'', json_string s) (r, bad) = (r\<lparr>r_Recipient := to_valid_utf8 s\<rparr>, bad)"
  "decode_request_field up (''channel'', json_string s) (r, bad) = (r\<lparr>r_Channel := to_valid_utf8 s\<rparr>, bad)"
  "decode_request_field up (''content'', json_string s) (r, bad) = (r\<lparr>r_Content := to_valid_utf8 s\<rparr>, bad)"
  "decode_request_field up (''subject'', json_string s) (r, bad) = (r\<lparr>r_Subject := Some (to_valid_utf8 s)\<rparr>, bad)"
  "decode_request_field up (''priority'', json_string s) (r, bad) = (r\<lparr>r_Priority := to_valid_utf8 s\<rparr>, bad)"
  "decode_request_field up (''metadata'', t) (r, bad) = (r\<lparr>r_Metadata := Some t\<rparr>, bad)"
  "decode_request_field up (''scheduled_at'', raw) (r, bad) = set_time_ptr raw (\<lambda>t. r_ScheduledAt_update (\<lambda>_. t)) (r, bad)"
  "decode_request_field up (''template_id'', raw) (r, bad) = set_uuid_ptr up raw (\<lambda>i. r_TemplateID_update (\<lambda>_. i)) (r, bad)"
  "decode_request_field up (''variables'', raw) (r, bad) =
     (r\<lparr>r_Variables := fst (decode_variables raw (r_Variables r))\<rparr>, bad \<or> snd (decode_variables raw (r_Variables r)))"
  by (simp_all add: decode_request_field_def find_field_def request_fields_def set_json_string set_json_string_ptr split_beta)

lemma marshal_time_read:
  assumes "marshal_time zone t = Some raw" "zone t mod 60 = 0"
  shows "set_time_ptr raw upd (r, bad) = (upd (Some t) r, bad)" "value_again d raw"
  using assms marshal_time_string [OF assms(1)] unmarshal_marshal_time [OF assms]
  by (auto simp: set_time_ptr_def value_again_json_string marshal_time_def split: if_splits)

lemma marshal_uuid_read:
  "uuid_roundtrip up \<Longrightarrow> set_uuid_ptr up (json_string (uuid_String up i)) upd (r, bad) = (upd (Some i) r, bad)"
  using ascii_valid [of "uuid_String up i"] by (simp add: set_uuid_ptr_def string_of_json_string uuid_roundtrip_def)

lemma variables_again:
  assumes "vars \<noteq> []"
  shows "value_again (max_depth - 1) (object_text (map (\<lambda>(k, v). (k, json_string v)) vars))"
proof -
  have "list_all (\<lambda>m. value_again (max_depth - 2) (snd m)) (map (\<lambda>(k, v). (k, json_string v)) vars)"
    by (auto simp: list_all_iff value_again_json_string)
  moreover have "Suc (max_depth - 2) = max_depth - 1" by (simp add: max_depth_def)
  ultimately show ?thesis
    using value_again_object_text [of "map (\<lambda>(k, v). (k, json_string v)) vars" "max_depth - 2"] assms by simp
qed

text \<open>What the members that may be missing do to a request that does not have them yet.\<close>

definition decode_members :: "uuid_pkg \<Rightarrow> (string \<times> string) list \<Rightarrow> CreateNotificationRequest \<times> bool \<Rightarrow>
    CreateNotificationRequest \<times> bool" where
  "decode_members up ms = fold (decode_request_field up) (map (\<lambda>(n, v). (to_valid_utf8 n, v)) ms)"

lemma decode_members_append: "decode_members up (ms @ ms') acc = decode_members up ms' (decode_members up ms acc)"
  by (simp add: decode_members_def)

lemmas member_steps = decode_members_def opt_member_def decode_request_steps request_names_valid field_names_valid

lemma key_member:
  "r_IdempotencyKey q = None \<Longrightarrow> decode_members up (opt_member ''idempotency_key'' json_string x) (q, False) =
     (q\<lparr>r_IdempotencyKey := map_option to_valid_utf8 x\<rparr>, False)"
  by (cases x; cases q) (simp_all add: member_steps del: to_valid_utf8.simps)

lemma fixed_members:
  "decode_members up [(''recipient'', json_string a), (''channel'', json_string b), (''content'', json_string c)] (q, False) =
     (q\<lparr>r_Recipient := to_valid_utf8 a, r_Channel := to_valid_utf8 b, r_Content := to_valid_utf8 c\<rparr>, False)"
  by (simp add: member_steps del: to_valid_utf8.simps)

lemma subject_member:
  "r_Subject q = None \<Longrightarrow> decode_members up (opt_member ''subject'' json_string x) (q, False) =
     (q\<lparr>r_Subject := map_option to_valid_utf8 x\<rparr>, False)"
  by (cases x; cases q) (simp_all add: member_steps del: to_valid_utf8.simps)

lemma priority_member:
  "r_Priority q = [] \<Longrightarrow> decode_members up (if p = [] then [] else [(''priority'', json_string p)]) (q, False) =
     (q\<lparr>r_Priority := to_valid_utf8 p\<rparr>, False)"
  by (cases "p = []"; cases q) (simp_all add: member_steps to_valid_utf8.simps(1) del: to_valid_utf8.simps(2))

lemma metadata_member_read:
  "r_Metadata q = None \<Longrightarrow> decode_members up (case x of None \<Rightarrow> [] | Some t \<Rightarrow> [(''metadata'', t)]) (q, False) =
     (q\<lparr>r_Metadata := x\<rparr>, False)"
  by (cases x; cases q) (simp_all add: member_steps del: to_valid_utf8.simps)

lemma template_member:
  "r_TemplateID q = None \<Longrightarrow> uuid_roundtrip up \<Longrightarrow>
     decode_members up (opt_member ''template_id'' (\<lambda>i. json_string (uuid_String up i)) ti) (q, False) =
     (q\<lparr>r_TemplateID := ti\<rparr>, False)"
  by (cases ti; cases q) (simp_all add: member_steps marshal_uuid_read del: to_valid_utf8.simps)

lemma variables_member:
  "r_Variables q = Map.empty \<Longrightarrow>
     decode_members up (if vars = [] then [] else [(''variables'', object_text (map (\<lambda>(k, v). (k, json_string v)) vars))]) (q, False) =
     (q\<lparr>r_Variables := map_of (rev (map (\<lambda>(k, v). (to_valid_utf8 k, to_valid_utf8 v)) vars))\<rparr>, False)"
  by (cases "vars = []"; cases q) (simp_all add: member_steps decode_variables_written del: to_valid_utf8.simps)

lemmas optional_members = key_member fixed_members subject_member priority_member metadata_member_read template_member
  variables_member

lemma create_request_roundtrip:
  assumes "uuid_roundtrip up" "readable_metadata (r_Metadata r)"
    "\<forall>t. r_ScheduledAt r = Some t \<longrightarrow> writable zone t \<and> zone t mod 60 = 0"
  shows "\<exists>body. marshal_create up zone vars r = Some body \<and> decode_request up (body @ rest) = Some (received vars r)"
proof -
  obtain metadata where meta: "metadata_member (r_Metadata r) = Some metadata"
    "list_all (\<lambda>p. value_again (max_depth - 1) (snd p)) metadata"
    and tail: "metadata = (case r_Metadata (received vars r) of None \<Rightarrow> [] | Some t \<Rightarrow> [(''metadata'', t)])"
    using metadata_members [OF assms(2)] by (auto simp: received_def)
  obtain scheduled where sched: "(case r_ScheduledAt r of None \<Rightarrow> Some None | Some t \<Rightarrow> map_option Some (marshal_time zone t)) = Some scheduled"
    "\<forall>raw. scheduled = Some raw \<longrightarrow> value_again (max_depth - 1) raw"
    "\<And>q. r_ScheduledAt q = None \<Longrightarrow> decode_members up (opt_member ''scheduled_at'' (\<lambda>t. t) scheduled) (q, False) =
       (q\<lparr>r_ScheduledAt := r_ScheduledAt r\<rparr>, False)"
  proof (cases "r_ScheduledAt r")
    case None
    then show ?thesis by (intro that [of None]) (simp_all add: decode_members_def opt_member_def)
  next
    case (Some t)
    then obtain raw where raw: "marshal_time zone t = Some raw" "zone t mod 60 = 0"
      using assms(3) by (auto simp: marshal_time_def)
    with Some marshal_time_read [OF raw] show ?thesis
      by (intro that [of "Some raw"]) (simp_all add: member_steps del: to_valid_utf8.simps)
  qed
  let ?ms = "request_members up r scheduled metadata vars"
  have again: "list_all (\<lambda>m. value_again (max_depth - 1) (snd m)) ?ms"
    using meta(2) sched(2) variables_again [of vars]
    by (auto simp: request_members_def opt_member_def value_again_json_string split: option.splits)
  have "decode_members up ?ms (zero_request, False) = (received vars r, False)"
    unfolding request_members_def decode_members_append tail
    by (simp add: optional_members sched(3) assms(1) zero_request_def received_def del: to_valid_utf8.simps)
  then have "decode_request up (object_text ?ms @ rest) = Some (received vars r)"
    unfolding decode_request_def decode_members_def by (intro decode_first_written again) (simp add: request_members_def)
  then show ?thesis using meta(1) sched(1) by (simp add: marshal_create_def)
qed

text \<open>
  C22. Whatever request a client writes with the JSON tags of \<open>CreateNotificationRequest\<close>, with readable
  metadata and a time that has a JSON form, the server decodes to that request (invalid UTF-8 replaced,
  metadata compacted), whatever follows it in the body.
\<close>

theorem request_roundtrip:
  assumes "uuid_roundtrip up" "readable_metadata (r_Metadata r)"
    "\<forall>t. r_ScheduledAt r = Some t \<longrightarrow> writable zone t \<and> zone t mod 60 = 0"
  shows "\<exists>body. marshal_create up zone vars r = Some body \<and> decode_request up (body @ rest) = Some (received vars r)"
  by (rule create_request_roundtrip [OF assms])

theorem request_roundtrip_witness:
  "\<exists>body r. marshal_create sample_uuid_pkg (\<lambda>_. 7200) [(''name'', ''Ada'')]
       (zero_request\<lparr>r_Recipient := ''+90'', r_ScheduledAt := Some 0, r_TemplateID := Some 7\<rparr>) = Some body \<and>
     decode_request sample_uuid_pkg (body @ '' x'') = Some r \<and> r_ScheduledAt r = Some 0 \<and> r_TemplateID r = Some 7"
proof -
  have "writable (\<lambda>_. 7200) 0" by code_simp
  then show ?thesis
    using request_roundtrip [OF sample_uuid_roundtrip, of "zero_request\<lparr>r_Recipient := ''+90'', r_ScheduledAt := Some 0,
      r_TemplateID := Some 7\<rparr>" "\<lambda>_. 7200" "[(''name'', ''Ada'')]" "'' x''"]
    by (auto simp: zero_request_def received_def simp del: to_valid_utf8.simps)
qed

end
