(* ===== verification/Handler.thy ===== *)
theory Handler
  imports Service Metrics Requests
begin

text \<open>
  Package \<open>internal/api/handler\<close>, notifications and templates: what each endpoint answers and what
  it does to the store and the broker. A response is its status code, the headers the handler sets
  and its body as a value; how it is encoded is the subject of \<open>Responses\<close>. Request
  bodies, cursors and times are read from their text; the query parameters are an argument. The queue
  depth the backpressure test reads is a 32-bit counter, written by the poller of
  \<open>cmd/server/main.go\<close>, which is modelled too.
\<close>

section \<open>Responses\<close>

datatype response_body =
    ErrorMessage string
  | ErrorDetails string "FieldError list"
  | OneNotification Notification
  | BatchBody uuid "Notification list" int
  | ListBody "Notification list" string bool
  | OneTemplate Template
  | TemplateList "Template list"
  | HealthBody healthResponse
  | MetricsBody metricsResponse
  | PlainText string

record http_response =
  rs_status :: int
  rs_headers :: "(string \<times> string) list"
  rs_body :: response_body

definition respondJSON :: "int \<Rightarrow> response_body \<Rightarrow> http_response" where
  "respondJSON status data =
     \<lparr>rs_status = status, rs_headers = [(''Content-Type'', ''application/json'')], rs_body = data\<rparr>"

definition respondError :: "go_error \<Rightarrow> http_response" where
  "respondError err =
     (case err of
        ErrValidation fs \<Rightarrow> respondJSON 400 (ErrorDetails ''validation failed'' fs)
      | ErrNotFound entity i \<Rightarrow> respondJSON 404 (ErrorMessage (Error err))
      | ErrConflict msg \<Rightarrow> respondJSON 409 (ErrorMessage (Error err))
      | ErrOther msg \<Rightarrow> respondJSON 500 (ErrorMessage ''internal server error''))"

definition parseUUIDParam :: "uuid_pkg \<Rightarrow> string \<Rightarrow> uuid option" where
  "parseUUIDParam up raw = uuid_Parse up raw"

definition stringPtr :: "string \<Rightarrow> string option" where
  "stringPtr s = (if s = [] then None else Some s)"

section \<open>Backpressure\<close>

definition ThresholdLow :: int where "ThresholdLow = 5000"
definition ThresholdNormal :: int where "ThresholdNormal = 8000"
definition ThresholdHigh :: int where "ThresholdHigh = 10000"

definition checkBackpressure :: "32 word \<Rightarrow> string \<Rightarrow> bool" where
  "checkBackpressure queueDepth priority =
     (let depth = sint queueDepth
      in if priority = PriorityLow then depth > ThresholdLow
         else if priority = PriorityNormal then depth > ThresholdNormal
         else if priority = PriorityHigh then depth > ThresholdHigh
         else depth > ThresholdNormal)"

text \<open>
  One tick of the poller: the channel may fail to open, and the loop over the queues stops at the
  first that cannot be inspected; what was counted until then is stored, truncated to 32 bits.
\<close>

fun count_queues :: "(string \<Rightarrow> int option) \<Rightarrow> string list \<Rightarrow> int \<Rightarrow> int" where
  "count_queues inspect [] acc = acc"
| "count_queues inspect (q # qs) acc =
     (case inspect q of None \<Rightarrow> acc | Some messages \<Rightarrow> count_queues inspect qs (wrap64 (acc + messages)))"

definition poll_depth :: "bool \<Rightarrow> (string \<Rightarrow> int option) \<Rightarrow> 32 word \<Rightarrow> 32 word" where
  "poll_depth opened inspect depth =
     (if \<not> opened then depth
      else word_of_int (count_queues inspect [QueueSMS, QueueEmail, QueuePush] 0))"

section \<open>Notification endpoints\<close>

definition Handler_Create :: "uuid_pkg \<Rightarrow> 'st NotificationRepository \<Rightarrow> 'st TemplateRepository \<Rightarrow> service_env \<Rightarrow>
    32 word \<Rightarrow> string \<Rightarrow> 'st \<times> Publishing list \<Rightarrow>
    http_response \<times> 'st \<times> Publishing list" where
  "Handler_Create up R TR env queueDepth body w =
     (case decode_request up body of
        None \<Rightarrow> (respondJSON 400 (ErrorMessage ''invalid request body''), w)
      | Some req \<Rightarrow>
          (let priority = (if r_Priority req = [] then PriorityNormal else r_Priority req)
           in if checkBackpressure queueDepth priority then
                (let resp = respondJSON 429 (ErrorMessage ''system under high load, retry later'')
                 in (resp\<lparr>rs_headers := [(''Retry-After'', ''30''), (''X-Queue-Depth'', itoa (sint queueDepth))] @
                       rs_headers resp\<rparr>, w))
              else
                (case Service_Create up R TR env req w of
                   (Inl e, w) \<Rightarrow> (respondError e, w)
                 | (Inr n, w) \<Rightarrow> (respondJSON 201 (OneNotification n), w))))"

definition Handler_CreateBatch :: "uuid_pkg \<Rightarrow> 'st NotificationRepository \<Rightarrow> service_env \<Rightarrow>
    string \<Rightarrow> 'st \<times> Publishing list \<Rightarrow> http_response \<times> 'st \<times> Publishing list" where
  "Handler_CreateBatch up R env body w =
     (case decode_batch up body of
        None \<Rightarrow> (respondJSON 400 (ErrorMessage ''invalid request body''), w)
      | Some req \<Rightarrow>
          (case Service_CreateBatch up R env req w of
             (Inl e, w) \<Rightarrow> (respondError e, w)
           | (Inr (batchID, ns), w) \<Rightarrow> (respondJSON 201 (BatchBody batchID ns (int (length ns))), w)))"

definition Handler_GetByID :: "uuid_pkg \<Rightarrow> 'st NotificationRepository \<Rightarrow> call_env \<Rightarrow> string \<Rightarrow> 'st \<Rightarrow> http_response" where
  "Handler_GetByID up R ce raw s =
     (case parseUUIDParam up raw of
        None \<Rightarrow> respondJSON 400 (ErrorMessage ''invalid id format'')
      | Some i \<Rightarrow>
          (case Service_GetByID R ce i s of
             Inl e \<Rightarrow> respondError e
           | Inr n \<Rightarrow> respondJSON 200 (OneNotification n)))"

definition Handler_GetBatchStatus :: "uuid_pkg \<Rightarrow> 'st NotificationRepository \<Rightarrow> call_env \<Rightarrow> string \<Rightarrow> 'st \<Rightarrow> http_response" where
  "Handler_GetBatchStatus up R ce raw s =
     (case parseUUIDParam up raw of
        None \<Rightarrow> respondJSON 400 (ErrorMessage ''invalid id format'')
      | Some batchID \<Rightarrow>
          (case Service_GetByBatchID R ce batchID s of
             Inl e \<Rightarrow> respondError e
           | Inr ns \<Rightarrow> respondJSON 200 (BatchBody batchID ns (int (length ns)))))"

definition Handler_Cancel :: "uuid_pkg \<Rightarrow> 'st NotificationRepository \<Rightarrow> call_env \<Rightarrow> call_env \<Rightarrow> string \<Rightarrow> 'st \<Rightarrow>
    http_response \<times> 'st" where
  "Handler_Cancel up R ce ce' raw s =
     (case parseUUIDParam up raw of
        None \<Rightarrow> (respondJSON 400 (ErrorMessage ''invalid id format''), s)
      | Some i \<Rightarrow>
          (case Service_Cancel R ce ce' i s of
             (Inl e, s) \<Rightarrow> (respondError e, s)
           | (Inr n, s) \<Rightarrow> (respondJSON 200 (OneNotification n), s)))"

text \<open>The query of \<open>List\<close>, or the message it is refused with; \<open>q\<close> is \<open>r.URL.Query().Get\<close>.\<close>

record list_request =
  lq_filters :: ListFilters
  lq_cursor :: "Cursor option"
  lq_limit :: int

definition parse_time_param :: "string \<Rightarrow> string \<Rightarrow> string + time option" where
  "parse_time_param name v =
     (if v = [] then Inr None
      else case parse_rfc3339 v of
             None \<Rightarrow> Inl (''invalid value for '' @ name @ '', expected RFC3339 format'')
           | Some t \<Rightarrow> Inr (Some t))"

definition parse_list_query :: "cursor_json \<Rightarrow> (string \<Rightarrow> string) \<Rightarrow> (string \<Rightarrow> string) \<Rightarrow>
    string + list_request" where
  "parse_list_query cj err_text q =
     (case parse_time_param ''created_after'' (q ''created_after'') of
        Inl e \<Rightarrow> Inl e
      | Inr after \<Rightarrow>
          (case parse_time_param ''created_before'' (q ''created_before'') of
             Inl e \<Rightarrow> Inl e
           | Inr before \<Rightarrow>
               (case (if q ''cursor'' = [] then Inr None
                      else map_sum id Some (DecodeCursor cj err_text (q ''cursor''))) of
                  Inl _ \<Rightarrow> Inl ''invalid cursor''
                | Inr cursor \<Rightarrow>
                    (case (if q ''limit'' = [] then Some 20
                           else case atoi (q ''limit'') of
                                  None \<Rightarrow> None
                                | Some l \<Rightarrow> if l < 1 then None else Some (if l > 100 then 100 else l)) of
                       None \<Rightarrow> Inl ''invalid value for limit''
                     | Some limit \<Rightarrow>
                         Inr \<lparr>lq_filters = \<lparr>lf_Status = stringPtr (q ''status''), lf_Channel = stringPtr (q ''channel''),
                               lf_Priority = stringPtr (q ''priority''), lf_CreatedAfter = after,
                               lf_CreatedBefore = before\<rparr>,
                             lq_cursor = cursor, lq_limit = limit\<rparr>))))"

definition Handler_List :: "'st NotificationRepository \<Rightarrow> call_env \<Rightarrow> cursor_json \<Rightarrow> (string \<Rightarrow> string) \<Rightarrow>
    (string \<Rightarrow> string) \<Rightarrow> 'st \<Rightarrow> http_response" where
  "Handler_List R ce cj err_text q s =
     (case parse_list_query cj err_text q of
        Inl msg \<Rightarrow> respondJSON 400 (ErrorMessage msg)
      | Inr lq \<Rightarrow>
          (case Service_List R ce (lq_filters lq) (lq_cursor lq) (lq_limit lq) s of
             Inl e \<Rightarrow> respondError e
           | Inr res \<Rightarrow> respondJSON 200 (ListBody (lr_Notifications res) (lr_NextCursor res) (lr_HasMore res))))"

section \<open>Template endpoints\<close>

definition TemplateHandler_Create :: "'st TemplateRepository \<Rightarrow> call_env \<Rightarrow>
    string \<Rightarrow> 'st \<Rightarrow> http_response \<times> 'st" where
  "TemplateHandler_Create TR ce body s =
     (case decode_template_request body of
        None \<Rightarrow> (respondJSON 400 (ErrorMessage ''invalid request body''), s)
      | Some req \<Rightarrow>
          (case CreateTemplateRequest_Validate req of
             Some e \<Rightarrow> (respondError e, s)
           | None \<Rightarrow>
               (let t = \<lparr>t_ID = uuid_Nil, t_Name = ct_Name req, t_Channel = ct_Channel req, t_Content = ct_Content req,
                         t_Subject = ct_Subject req, t_CreatedAt = zero_time, t_UpdatedAt = zero_time\<rparr>
                in case trepo_Create TR ce t s of
                     (Inl e, s) \<Rightarrow> (respondError e, s)
                   | (Inr t, s) \<Rightarrow> (respondJSON 201 (OneTemplate t), s))))"

definition TemplateHandler_GetByID :: "uuid_pkg \<Rightarrow> 'st TemplateRepository \<Rightarrow> call_env \<Rightarrow> string \<Rightarrow> 'st \<Rightarrow> http_response" where
  "TemplateHandler_GetByID up TR ce raw s =
     (case parseUUIDParam up raw of
        None \<Rightarrow> respondJSON 400 (ErrorMessage ''invalid id format'')
      | Some i \<Rightarrow>
          (case trepo_GetByID TR ce i s of
             Inl e \<Rightarrow> respondError e
           | Inr t \<Rightarrow> respondJSON 200 (OneTemplate t)))"

definition TemplateHandler_List :: "'st TemplateRepository \<Rightarrow> call_env \<Rightarrow> 'st \<Rightarrow> http_response" where
  "TemplateHandler_List TR ce s =
     (case trepo_List TR ce 50 s of
        Inl e \<Rightarrow> respondError e
      | Inr ts \<Rightarrow> respondJSON 200 (TemplateList ts))"

section \<open>Infrastructure endpoints\<close>

definition Handler_Health :: "health_env \<Rightarrow> http_response" where
  "Handler_Health env = (let (statusCode, body) = collect_health env in respondJSON statusCode (HealthBody body))"

text \<open>\<open>None\<close> when the handler panics.\<close>

definition Handler_Metrics :: "metrics_env \<Rightarrow> (string \<times> CircuitBreaker) list \<Rightarrow> pg_state \<Rightarrow> http_response option" where
  "Handler_Metrics env breakers s =
     map_option (\<lambda>resp. respondJSON 200 (MetricsBody resp)) (collect_metrics env breakers s)"

section \<open>Properties\<close>

lemma respondError_status:
  "rs_status (respondError e) \<in> {400, 404, 409, 500} \<and>
   (rs_status (respondError e) = 400 \<longleftrightarrow> (\<exists>fs. e = ErrValidation fs)) \<and>
   (rs_status (respondError e) = 404 \<longleftrightarrow> (\<exists>entity i. e = ErrNotFound entity i)) \<and>
   (rs_status (respondError e) = 409 \<longleftrightarrow> (\<exists>m. e = ErrConflict m))"
  by (cases e) (simp_all add: respondError_def respondJSON_def)

lemma respondJSON_simps [simp]:
  "rs_status (respondJSON st b) = st" "rs_body (respondJSON st b) = b"
  by (simp_all add: respondJSON_def)

text \<open>
  Load is shed by priority: at any queue depth, when a high priority request is refused so is a
  normal one, and when a normal one is refused so is a low one; nobody is refused up to a depth of
  5000 and everybody beyond 10000.
\<close>

theorem shedding_by_priority:
  "(checkBackpressure d PriorityHigh \<longrightarrow> checkBackpressure d PriorityNormal) \<and>
   (checkBackpressure d PriorityNormal \<longrightarrow> checkBackpressure d PriorityLow) \<and>
   (sint d \<le> 5000 \<longrightarrow> \<not> checkBackpressure d p) \<and> (10000 < sint d \<longrightarrow> checkBackpressure d p)"
  by (simp add: checkBackpressure_def Let_def domain_consts ThresholdLow_def ThresholdNormal_def ThresholdHigh_def)

theorem shedding_by_priority_witness:
  "\<not> checkBackpressure 9000 PriorityHigh \<and> checkBackpressure 9000 PriorityLow \<and> checkBackpressure 10001 PriorityHigh"
  using shedding_by_priority [of 10001 PriorityHigh] shedding_by_priority [of 9000 PriorityHigh]
  by (simp add: checkBackpressure_def domain_consts ThresholdLow_def ThresholdNormal_def ThresholdHigh_def)

lemma Service_Create_invalid:
  assumes "\<not> valid_request req"
  shows "\<exists>errs. Service_Create up R TR env req w = (Inl (ErrValidation errs), w)"
proof -
  have "snd (CreateNotificationRequest_Validate req) \<noteq> None" using assms by (simp add: Validate_ok_iff)
  then obtain errs where "snd (CreateNotificationRequest_Validate req) = Some (ErrValidation errs)"
    by (auto simp: CreateNotificationRequest_Validate_def Let_def split: if_splits)
  then show ?thesis by (auto simp: Service_Create_def split_beta prod_eq_iff)
qed

lemma respondError_body: "rs_body (respondError e) \<noteq> OneNotification n"
  by (cases e) (simp_all add: respondError_def)

definition effective_priority :: "CreateNotificationRequest \<Rightarrow> string" where
  "effective_priority req = (if r_Priority req = [] then PriorityNormal else r_Priority req)"


text \<open>The body of the sample request, and what is read from it.\<close>

definition sample_create_body :: string where
  "sample_create_body = the (marshal_create sample_uuid_pkg (\<lambda>_. 0) [] sample_request)"

lemma sample_create_reads [simp]: "decode_request sample_uuid_pkg sample_create_body = Some sample_request"
proof -
  obtain body where "marshal_create sample_uuid_pkg (\<lambda>_. 0) [] sample_request = Some body"
    "decode_request sample_uuid_pkg (body @ []) = Some (received [] sample_request)"
    using create_request_roundtrip [OF sample_uuid_roundtrip, of sample_request "\<lambda>_. 0" "[]" "[]"]
    by (auto simp: sample_request_def)
  moreover have "to_valid_utf8 ''+90555'' = ''+90555''" "to_valid_utf8 ''sms'' = ''sms''" "to_valid_utf8 ''hi'' = ''hi''"
    by code_simp+
  then have "received [] sample_request = sample_request"
    by (simp add: received_def sample_request_def to_valid_utf8.simps(1) del: to_valid_utf8.simps(2))
  ultimately show ?thesis by (simp add: sample_create_body_def)
qed


section \<open>Cancelling\<close>

lemma pg_Cancel_calm:
  assumes "pg_wf srv s" "faultless ce" "pg_Cancel up srv ce i s = (e, s')"
  shows "case pg_rows s i of
      None \<Rightarrow> s' = s \<and> e = Some (ErrNotFound ''notification'' (uuid_String up i))
    | Some n \<Rightarrow>
        if cancellable n then e = None \<and> pg_rows s' = (pg_rows s)(i \<mapsto> set_status StatusCancelled (ce_now ce) n)
        else s' = s \<and> e = Some (ErrConflict ''notification cannot be cancelled in its current status'')"
proof -
  let ?P = "\<lambda>r. n_ID r = i \<and> cancellable r"
  let ?f = "\<lambda>r. check_row (trigger_set_updated_at (ce_now ce) (r\<lparr>n_Status := ''cancelled'', n_UpdatedAt := ce_now ce\<rparr>))"
  have rows: "pg_rows s i = Some n \<longleftrightarrow> n \<in> set (pg_notifications s) \<and> n_ID n = i" for n
    using assms(1) by (simp add: pg_rows_iff pg_wf_def)
  have none: "pg_rows s i = None \<longleftrightarrow> \<not> list_ex (\<lambda>r. n_ID r = i) (pg_notifications s)"
    by (simp add: pg_rows_def find_None_all list_ex_iff)
  have skip: "exec_update (ce_fault ce 0) ?P ?f s = (Inr 0, s)" if "\<forall>r \<in> set (pg_notifications s). \<not> ?P r"
    using update_rows_none [OF that, of ?f] assms(2) by (simp add: exec_update_def run_stmt_def faultless_def)
  show ?thesis
  proof (cases "\<exists>n. pg_rows s i = Some n \<and> cancellable n")
    case True
    then obtain n where n: "pg_rows s i = Some n" "cancellable n" by blast
    have "\<forall>r \<in> set (pg_notifications s). ?P r \<longrightarrow> (\<exists>r'. ?f r = Inr r')"
      using assms(1) by (auto simp: pg_wf_def list_all_iff check_row_Inr row_checks_def trigger_set_updated_at_def chk_status_def)
    from update_rows_total [OF this] n rows obtain k rs where
      "update_rows ?P ?f (pg_notifications s) = Inr (k, rs)" "0 < k" by blast
    then have "e = None"
      using assms(2,3) by (simp add: pg_Cancel_def exec_update_def run_stmt_def faultless_def)
    then show ?thesis
      using pg_Cancel_writes [OF assms(1,3)] n by (auto dest!: row_write_must)
  next
    case False
    then have "\<forall>r \<in> set (pg_notifications s). \<not> ?P r" using rows by blast
    from skip [OF this] False assms(2,3) none show ?thesis
      by (auto simp: pg_Cancel_def run_stmt_def faultless_def split: option.splits)
  qed
qed

text \<open>
  C36. Cancelling, with a database that does not fail: 404 when there is no such notification, 200 with
  the cancelled notification when it was pending or queued, and then only its status has changed, and
  409 in every other status; in the other cases nothing has changed. An id that cannot be read is 400.
\<close>

theorem cancel_endpoint:
  assumes "pg_wf srv s" "faultless ce" "faultless ce'"
    and "Handler_Cancel up (postgres_repository up srv cj) ce ce' raw s = (resp, s')"
  shows "case uuid_Parse up raw of
      None \<Rightarrow> rs_status resp = 400 \<and> s' = s
    | Some i \<Rightarrow>
        (case pg_rows s i of
           None \<Rightarrow> rs_status resp = 404 \<and> s' = s
         | Some n \<Rightarrow>
             (let n' = set_status StatusCancelled (ce_now ce) n
              in if n_Status n \<in> {StatusPending, StatusQueued}
                 then rs_status resp = 200 \<and> rs_body resp = OneNotification n' \<and> pg_rows s' = (pg_rows s)(i \<mapsto> n')
                 else rs_status resp = 409 \<and> s' = s))"
proof (cases "uuid_Parse up raw")
  case None
  with assms(4) show ?thesis by (auto simp: Handler_Cancel_def parseUUIDParam_def)
next
  case (Some i)
  obtain e s1 where c: "pg_Cancel up srv ce i s = (e, s1)" by force
  note calm = pg_Cancel_calm [OF assms(1,2) c]
  have wf1: "pg_wf srv s1" using pg_Cancel_writes [OF assms(1) c] by simp
  show ?thesis
  proof (cases e)
    case (Some err)
    with calm assms(4) \<open>uuid_Parse up raw = Some i\<close> c show ?thesis
      by (auto simp: Handler_Cancel_def parseUUIDParam_def Service_Cancel_def respondError_def cancellable_iff Let_def
          split: option.splits if_splits)
  next
    case None
    with calm obtain n where n: "pg_rows s i = Some n" "cancellable n"
      "pg_rows s1 = (pg_rows s)(i \<mapsto> set_status StatusCancelled (ce_now ce) n)"
      by (auto split: option.splits if_splits)
    then have "pg_GetByID up srv ce' i s1 = Inr (set_status StatusCancelled (ce_now ce) n)"
      by (intro pg_GetByID_complete [OF wf1 assms(3)]) simp
    with n assms(4) None Some c show ?thesis
      by (auto simp: Handler_Cancel_def parseUUIDParam_def Service_Cancel_def cancellable_iff Let_def)
  qed
qed

theorem cancel_endpoint_witness:
  "\<exists>resp s'. Handler_Cancel sample_uuid_pkg (postgres_repository sample_uuid_pkg any_server utc_json) (calm 9 (\<lambda>_. 0))
      (calm 9 (\<lambda>_. 0)) (uuid_String sample_uuid_pkg 1) (keyed_db [keyed_row]) = (resp, s') \<and> rs_status resp = 200"
proof -
  have wf: "pg_wf any_server (keyed_db [keyed_row])"
    using pg_Create_inserts [OF keyed_db_wf keyed_create] by simp
  obtain resp s' where run: "Handler_Cancel sample_uuid_pkg (postgres_repository sample_uuid_pkg any_server utc_json)
      (calm 9 (\<lambda>_. 0)) (calm 9 (\<lambda>_. 0)) (uuid_String sample_uuid_pkg 1) (keyed_db [keyed_row]) = (resp, s')" by force
  have row: "pg_rows (keyed_db [keyed_row]) 1 = Some keyed_row" "n_Status keyed_row = StatusPending"
    by (simp_all add: pg_rows_def keyed_db_def keyed_row_def sample_notification_def StatusPending_def)
  have "uuid_Parse sample_uuid_pkg (uuid_String sample_uuid_pkg 1) = Some 1"
    using sample_uuid_roundtrip by (simp add: uuid_roundtrip_def)
  with cancel_endpoint [OF wf _ _ run] row run show ?thesis by (simp add: Let_def)
qed

section \<open>Listing\<close>

text \<open>
  Whatever its query string, the list endpoint either answers 400 without asking the repository,
  or asks it for between 1 and 100 rows, 20 when no limit is given, the given one up to 100 otherwise.
\<close>

theorem list_endpoint_limit:
  "case parse_list_query cj err_text q of
     Inl msg \<Rightarrow> Handler_List R ce cj err_text q s = respondJSON 400 (ErrorMessage msg)
   | Inr lq \<Rightarrow> 1 \<le> lq_limit lq \<and> lq_limit lq \<le> 100 \<and>
       lq_limit lq = (case atoi (q ''limit'') of None \<Rightarrow> 20 | Some l \<Rightarrow> min l 100) \<and>
       rs_status (Handler_List R ce cj err_text q s) =
         (case repo_List R ce (lq_filters lq) (lq_cursor lq) (lq_limit lq) s of
            Inl e \<Rightarrow> rs_status (respondError e) | Inr _ \<Rightarrow> 200)"
proof (cases "parse_list_query cj err_text q")
  case (Inl msg)
  then show ?thesis by (simp add: Handler_List_def)
next
  case (Inr lq)
  then have "1 \<le> lq_limit lq \<and> lq_limit lq \<le> 100 \<and>
      lq_limit lq = (case atoi (q ''limit'') of None \<Rightarrow> 20 | Some l \<Rightarrow> min l 100)"
    by (auto simp: parse_list_query_def atoi_def split: sum.splits option.splits if_splits)
  then show ?thesis using Inr by (simp add: Handler_List_def Service_List_def split: sum.splits)
qed

end
