(* ===== verification/PubSub.thy ===== *)
theory PubSub
  imports Domain Rfc3339
begin

text \<open>
  Package \<open>internal/pubsub\<close>: status updates on one Redis channel. Publishing is best effort: an
  update that cannot be encoded or delivered is logged and dropped. The current time and the fate of
  the Redis command are the surroundings of a call.
\<close>

definition StatusChannel :: string where
  "StatusChannel = ''notification:status''"

record StatusUpdate =
  su_NotificationID :: string
  su_Status :: string
  su_Channel :: string
  su_Timestamp :: string

record pubsub_env =
  pu_now :: time
  pu_fault :: net_fault

definition NewStatusUpdate :: "pubsub_env \<Rightarrow> string \<Rightarrow> string \<Rightarrow> string \<Rightarrow> StatusUpdate" where
  "NewStatusUpdate env notificationID status channel =
     \<lparr>su_NotificationID = notificationID, su_Status = status, su_Channel = channel,
      su_Timestamp = format_rfc3339 False (\<lambda>_. 0) (pu_now env)\<rparr>"

text \<open>\<open>json.Marshal\<close> of an update: a struct of strings has no encoding error.\<close>

definition marshal_update :: "StatusUpdate \<Rightarrow> string + string" where
  "marshal_update u = Inr (object_text
     [(''notification_id'', json_string (su_NotificationID u)), (''status'', json_string (su_Status u)),
      (''channel'', json_string (su_Channel u)), (''timestamp'', json_string (su_Timestamp u))])"

text \<open>The messages that reach the channel: the Redis channel's name and the encoded update.\<close>

definition PubSub_Publish :: "pubsub_env \<Rightarrow> StatusUpdate \<Rightarrow> (string \<times> string) list" where
  "PubSub_Publish env update =
     (case marshal_update update of
        Inl _ \<Rightarrow> []
      | Inr data \<Rightarrow>
          (case pu_fault env of
             NoFault \<Rightarrow> [(StatusChannel, data)]
           | LostBefore _ \<Rightarrow> []
           | LostAfter _ \<Rightarrow> [(StatusChannel, data)]))"

end
