(* ===== verification/Middleware.thy ===== *)
theory Middleware
  imports Handler PubSub
begin

text \<open>
  Packages \<open>internal/api/middleware\<close> (correlation ids, request logging) and the JSON guard of
  \<open>router.go\<close>, and the websocket endpoint. A handler takes the writer it is given, the context, the
  request and the state, and comes to an outcome: a response, a panic, or a connection that was
  taken over. The writer matters because \<open>Logging\<close> wraps it: only the server's own writer can be
  taken over.
\<close>

section \<open>Handlers\<close>

record http_req =
  rq_method :: string
  rq_path :: string
  rq_header :: "string \<Rightarrow> string"
  rq_query :: "string \<Rightarrow> string"
  rq_body :: string

record ctx =
  cx_correlation :: "string option"

datatype ResponseWriter = NetWriter | StatusWriter ResponseWriter

text \<open>What websocket handling does, in order.\<close>

datatype ws_call = WsSubscribe string | WsWrite string | WsClose string | WsSubClose | WsCloseNow

datatype outcome = Responded http_response | Panicked | TakenOver "ws_call list"

type_synonym 's handler = "ResponseWriter \<Rightarrow> ctx \<Rightarrow> http_req \<Rightarrow> 's \<Rightarrow> outcome \<times> 's"

section \<open>Correlation ids\<close>

definition GetCorrelationID :: "ctx \<Rightarrow> string" where
  "GetCorrelationID cx = (case cx_correlation cx of Some i \<Rightarrow> i | None \<Rightarrow> [])"

fun with_header :: "string \<times> string \<Rightarrow> outcome \<Rightarrow> outcome" where
  "with_header h (Responded r) = Responded (r\<lparr>rs_headers := h # rs_headers r\<rparr>)"
| "with_header h out = out"

text \<open>\<open>fresh_id\<close> is the id \<open>uuid.New()\<close> would draw, printed.\<close>

definition request_correlation :: "string \<Rightarrow> http_req \<Rightarrow> string" where
  "request_correlation fresh_id rq =
     (let i = rq_header rq ''X-Correlation-ID'' in if i = [] then fresh_id else i)"

definition Correlation :: "string \<Rightarrow> 's handler \<Rightarrow> 's handler" where
  "Correlation fresh_id next w cx rq s =
     (let i = request_correlation fresh_id rq;
          (out, s) = next w (cx\<lparr>cx_correlation := Some i\<rparr>) rq s
      in (with_header (''X-Correlation-ID'', i) out, s))"

section \<open>Logging\<close>

text \<open>The calls a handler makes on its writer, and the two writers that see them.\<close>

datatype writer_call = WriteHeader int | Write string

record statusWriter =
  sw_status :: int
  sw_written :: bool

fun statusWriter_call :: "writer_call \<Rightarrow> statusWriter \<Rightarrow> statusWriter" where
  "statusWriter_call (WriteHeader code) sw =
     (if \<not> sw_written sw then sw\<lparr>sw_status := code, sw_written := True\<rparr> else sw)"
| "statusWriter_call (Write b) sw =
     (if \<not> sw_written sw then sw\<lparr>sw_status := 200, sw_written := True\<rparr> else sw)"

text \<open>
  The writer of \<open>net/http\<close>: the first final status goes out, a later one is dropped, informational
  ones (below 200) go out on their own; writing without a status sends 200, and so does returning
  without a word.
\<close>

record net_response =
  nr_wroteHeader :: bool
  nr_status :: int
  nr_body :: string

fun net_call :: "writer_call \<Rightarrow> net_response \<Rightarrow> net_response" where
  "net_call (WriteHeader code) nr =
     (if nr_wroteHeader nr \<or> (code < 200 \<and> code \<noteq> 101) then nr else nr\<lparr>nr_wroteHeader := True, nr_status := code\<rparr>)"
| "net_call (Write b) nr =
     (let nr = (if nr_wroteHeader nr then nr else nr\<lparr>nr_wroteHeader := True, nr_status := 200\<rparr>)
      in nr\<lparr>nr_body := nr_body nr @ b\<rparr>)"

definition net_finish :: "net_response \<Rightarrow> net_response" where
  "net_finish nr = (if nr_wroteHeader nr then nr else nr\<lparr>nr_wroteHeader := True, nr_status := 200\<rparr>)"

text \<open>Every call on the status writer is passed on.\<close>

definition logged_status :: "writer_call list \<Rightarrow> int" where
  "logged_status cs = sw_status (fold statusWriter_call cs \<lparr>sw_status = 200, sw_written = False\<rparr>)"

definition sent_status :: "writer_call list \<Rightarrow> int" where
  "sent_status cs = nr_status (net_finish (fold net_call cs \<lparr>nr_wroteHeader = False, nr_status = 0, nr_body = []\<rparr>))"

record log_entry =
  le_method :: string
  le_path :: string
  le_status :: int
  le_correlation :: string

text \<open>
  \<open>encode\<close> is the body as written, if it has an encoding: without one nothing follows the status. A panic of the handler passes \<open>Logging\<close> by; a connection taken over
  made no calls on the writer.
\<close>

definition response_calls :: "(response_body \<Rightarrow> string option) \<Rightarrow> outcome \<Rightarrow> writer_call list" where
  "response_calls encode out =
     (case out of
        Responded r \<Rightarrow> WriteHeader (rs_status r) # (case encode (rs_body r) of None \<Rightarrow> [] | Some text \<Rightarrow> [Write text])
      | _ \<Rightarrow> [])"

definition Logging :: "(response_body \<Rightarrow> string option) \<Rightarrow> 's handler \<Rightarrow> ResponseWriter \<Rightarrow> ctx \<Rightarrow> http_req \<Rightarrow> 's \<Rightarrow>
    (outcome \<times> 's) \<times> log_entry list" where
  "Logging encode next w cx rq s =
     (let (out, s) = next (StatusWriter w) cx rq s
      in ((out, s),
          if out = Panicked then []
          else [\<lparr>le_method = rq_method rq, le_path = rq_path rq,
                 le_status = logged_status (response_calls encode out), le_correlation = GetCorrelationID cx\<rparr>]))"

section \<open>The JSON guard\<close>

definition contentTypeJSON :: "'s handler \<Rightarrow> 's handler" where
  "contentTypeJSON next w cx rq s =
     (if rq_method rq = ''POST'' \<or> rq_method rq = ''PUT'' then
        (if \<not> sublist ''application/json'' (rq_header rq ''Content-Type'') then
           (Responded \<lparr>rs_status = 415, rs_headers = [(''Content-Type'', ''application/json'')],
              rs_body = ErrorMessage ''Content-Type must be application/json''\<rparr>, s)
         else next w cx rq s)
      else next w cx rq s)"

section \<open>The websocket endpoint\<close>

text \<open>
  What the \<open>select\<close> of the loop receives: the end of the request's context, a status update together
  with the error of writing it on, or the end of the subscription.
\<close>

datatype ws_event = WsCtxDone | WsMessage string "string option" | WsChannelClosed

fun ws_loop :: "ws_event list \<Rightarrow> ws_call list" where
  "ws_loop [] = []"
| "ws_loop (WsCtxDone # evs) = [WsClose ''server shutting down'']"
| "ws_loop (WsChannelClosed # evs) = [WsClose ''subscription closed'']"
| "ws_loop (WsMessage payload err # evs) =
     (case err of Some _ \<Rightarrow> [WsWrite payload] | None \<Rightarrow> WsWrite payload # ws_loop evs)"

text \<open>
  \<open>accept\<close> is \<open>websocket.Accept\<close> of \<open>github.com/coder/websocket\<close>: the response with which it refuses, or
  \<open>None\<close>. It takes the connection over through \<open>http.Hijacker\<close>; a writer that neither implements it
  nor unwraps to one that does is refused. \<open>statusWriter\<close> embeds the interface
  \<open>http.ResponseWriter\<close>, which has no such method, and has no \<open>Unwrap\<close>.
\<close>

fun implements_Hijacker :: "ResponseWriter \<Rightarrow> bool" where
  "implements_Hijacker NetWriter = True"
| "implements_Hijacker (StatusWriter w) = False"

definition accept_needs_hijacker :: "(ResponseWriter \<Rightarrow> http_req \<Rightarrow> http_response option) \<Rightarrow> bool" where
  "accept_needs_hijacker accept \<longleftrightarrow> (\<forall>w rq. \<not> implements_Hijacker w \<longrightarrow> accept w rq \<noteq> None)"

definition HandleWS :: "(ResponseWriter \<Rightarrow> http_req \<Rightarrow> http_response option) \<Rightarrow> ws_event list \<Rightarrow> 's handler" where
  "HandleWS accept evs w cx rq s =
     (case accept w rq of
        Some refusal \<Rightarrow> (Responded refusal, s)
      | None \<Rightarrow> (TakenOver (WsSubscribe StatusChannel # ws_loop evs @ [WsSubClose, WsCloseNow]), s))"

section \<open>Properties\<close>

lemma writers_agree:
  assumes "list_all (\<lambda>c. case c of WriteHeader code \<Rightarrow> 200 \<le> code | Write b \<Rightarrow> True) cs"
    "nr_wroteHeader nr = sw_written sw" "sw_written sw \<longrightarrow> nr_status nr = sw_status sw" "\<not> sw_written sw \<longrightarrow> sw_status sw = 200"
  shows "nr_status (net_finish (fold net_call cs nr)) = sw_status (fold statusWriter_call cs sw)"
  using assms
proof (induction cs arbitrary: nr sw)
  case Nil
  then show ?case by (auto simp: net_finish_def)
next
  case (Cons c cs)
  show ?case
    unfolding fold_simps comp_def
    by (rule Cons.IH) (use Cons.prems in \<open>cases c; auto simp: Let_def\<close>)+
qed



text \<open>
  A websocket connection that was taken over forwards the status updates in the order they came,
  up to the first event that ends it or the first that cannot be written, and closes the
  subscription and the connection on every path.
\<close>

theorem websocket_forwards_in_order:
  assumes "HandleWS accept evs w cx rq s = (TakenOver calls, s')"
  shows "\<exists>k. [p. WsWrite p \<leftarrow> calls] = [p. WsMessage p _ \<leftarrow> take k evs] \<and>
    (\<forall>j < k. \<exists>p err. evs ! j = WsMessage p err \<and> (err \<noteq> None \<longrightarrow> Suc j = k)) \<and>
    hd calls = WsSubscribe StatusChannel \<and> drop (length calls - 2) calls = [WsSubClose, WsCloseNow] \<and> s' = s"
proof -
  have "\<exists>k. [p. WsWrite p \<leftarrow> ws_loop evs] = [p. WsMessage p _ \<leftarrow> take k evs] \<and>
    (\<forall>j < k. \<exists>p err. evs ! j = WsMessage p err \<and> (err \<noteq> None \<longrightarrow> Suc j = k))"
  proof (induction evs rule: ws_loop.induct)
    case (4 payload err evs)
    show ?case
    proof (cases err)
      case None
      with 4 obtain k where "[p. WsWrite p \<leftarrow> ws_loop evs] = [p. WsMessage p _ \<leftarrow> take k evs]"
        "\<forall>j < k. \<exists>p err. evs ! j = WsMessage p err \<and> (err \<noteq> None \<longrightarrow> Suc j = k)" by auto
      then show ?thesis using None by (intro exI [of _ "Suc k"]) (auto simp: less_Suc_eq_0_disj)
    next
      case (Some e)
      then show ?thesis by (intro exI [of _ 1]) auto
    qed
  qed (auto intro: exI [of _ 0])
  then obtain k where "[p. WsWrite p \<leftarrow> ws_loop evs] = [p. WsMessage p _ \<leftarrow> take k evs]"
    "\<forall>j < k. \<exists>p err. evs ! j = WsMessage p err \<and> (err \<noteq> None \<longrightarrow> Suc j = k)" by blast
  moreover have "calls = WsSubscribe StatusChannel # ws_loop evs @ [WsSubClose, WsCloseNow]" "s' = s"
    using assms by (auto simp: HandleWS_def split: option.splits)
  ultimately show ?thesis by (intro exI [of _ k]) simp
qed

end
