(* ===== verification/Responses.thy ===== *)
theory Responses
  imports Middleware "HOL-Library.Char_ord" "HOL-Library.List_Lexorder"
begin

text \<open>
  The bodies of the API's answers: \<open>json.NewEncoder(w).Encode\<close> of every value the handlers pass to
  \<open>respondJSON\<close>, by the tags of its struct. What is encoded is the whole value or nothing: a time without
  a JSON form or metadata that are no JSON leave the answer with its status and no body. The
  lemmas: a notification that is answered is read back by a client with the same struct, alone or
  in a listing.
\<close>

section \<open>Values\<close>

text \<open>The members of a struct, \<open>None\<close> for a value that has no JSON form; \<open>omitempty\<close> leaves out nil pointers.\<close>

definition struct_json :: "(string \<times> string option) list \<Rightarrow> string option" where
  "struct_json fs =
     (if list_all (\<lambda>(_, v). v \<noteq> None) fs then Some (object_text (map (\<lambda>(n, v). (n, the v)) fs)) else None)"

definition omitempty :: "string \<Rightarrow> ('a \<Rightarrow> string option) \<Rightarrow> 'a option \<Rightarrow> (string \<times> string option) list" where
  "omitempty name f x = (case x of None \<Rightarrow> [] | Some a \<Rightarrow> [(name, f a)])"

fun elements_text :: "string list \<Rightarrow> string" where
  "elements_text [] = '']''"
| "elements_text [v] = v @ '']''"
| "elements_text (v # w # vs) = v @ CHR '','' # elements_text (w # vs)"

definition array_text :: "string list \<Rightarrow> string" where
  "array_text vs = CHR ''['' # elements_text vs"

definition array_json :: "string option list \<Rightarrow> string option" where
  "array_json vs = (if list_all (\<lambda>v. v \<noteq> None) vs then Some (array_text (map the vs)) else None)"

text \<open>A map, with its keys in the order of their bytes.\<close>

definition map_json :: "('a \<Rightarrow> string option) \<Rightarrow> (string \<rightharpoonup> 'a) \<Rightarrow> string option" where
  "map_json f m = struct_json (map (\<lambda>k. (k, f (the (m k)))) (sorted_list_of_set (dom m)))"

definition text_json :: "string \<Rightarrow> string option" where
  "text_json s = Some (json_string s)"

definition int_json :: "int \<Rightarrow> string option" where
  "int_json x = Some (itoa x)"

definition bool_json :: "bool \<Rightarrow> string option" where
  "bool_json b = Some (if b then ''true'' else ''false'')"

definition uuid_json :: "cursor_json \<Rightarrow> uuid \<Rightarrow> string option" where
  "uuid_json cj i = text_json (uuid_String (cj_uuid cj) i)"

text \<open>Times come from the database, in the zone of its session, like those of a cursor.\<close>

definition time_json :: "cursor_json \<Rightarrow> time \<Rightarrow> string option" where
  "time_json cj t = marshal_time (cj_zone cj) t"

section \<open>Bodies\<close>

definition metadata_field :: "string option \<Rightarrow> (string \<times> string option) list" where
  "metadata_field metadata =
     (case metadata_member metadata of None \<Rightarrow> [(''metadata'', None)] | Some ms \<Rightarrow> map (\<lambda>(k, v). (k, Some v)) ms)"

definition notification_fields :: "cursor_json \<Rightarrow> Notification \<Rightarrow> (string \<times> string option) list" where
  "notification_fields cj n =
     [(''id'', uuid_json cj (n_ID n))] @
     omitempty ''batch_id'' (uuid_json cj) (n_BatchID n) @
     omitempty ''idempotency_key'' text_json (n_IdempotencyKey n) @
     [(''recipient'', text_json (n_Recipient n)), (''channel'', text_json (n_Channel n)),
      (''content'', text_json (n_Content n))] @
     omitempty ''subject'' text_json (n_Subject n) @
     [(''priority'', text_json (n_Priority n)), (''status'', text_json (n_Status n))] @
     omitempty ''provider_message_id'' text_json (n_ProviderMessageID n) @
     [(''retry_count'', int_json (n_RetryCount n)), (''max_retries'', int_json (n_MaxRetries n))] @
     omitempty ''next_retry_at'' (time_json cj) (n_NextRetryAt n) @
     omitempty ''scheduled_at'' (time_json cj) (n_ScheduledAt n) @
     omitempty ''sent_at'' (time_json cj) (n_SentAt n) @
     omitempty ''failed_at'' (time_json cj) (n_FailedAt n) @
     omitempty ''error_message'' text_json (n_ErrorMessage n) @
     metadata_field (n_Metadata n) @
     [(''created_at'', time_json cj (n_CreatedAt n)), (''updated_at'', time_json cj (n_UpdatedAt n))]"

definition notification_json :: "cursor_json \<Rightarrow> Notification \<Rightarrow> string option" where
  "notification_json cj n = struct_json (notification_fields cj n)"

definition template_json :: "cursor_json \<Rightarrow> Template \<Rightarrow> string option" where
  "template_json cj t = struct_json
     ([(''id'', uuid_json cj (t_ID t)), (''name'', text_json (t_Name t)), (''channel'', text_json (t_Channel t)),
       (''content'', text_json (t_Content t))] @
      omitempty ''subject'' text_json (t_Subject t) @
      [(''created_at'', time_json cj (t_CreatedAt t)), (''updated_at'', time_json cj (t_UpdatedAt t))])"

definition field_error_json :: "FieldError \<Rightarrow> string option" where
  "field_error_json e = struct_json [(''field'', text_json (fe_Field e)), (''message'', text_json (fe_Message e))]"

definition error_json :: "string \<Rightarrow> FieldError list \<Rightarrow> string option" where
  "error_json m fs = struct_json ((''error'', text_json m) #
     (if fs = [] then [] else [(''details'', array_json (map field_error_json fs))]))"

definition batch_json :: "cursor_json \<Rightarrow> uuid \<Rightarrow> Notification list \<Rightarrow> int \<Rightarrow> string option" where
  "batch_json cj i ns k = struct_json [(''batch_id'', uuid_json cj i),
     (''notifications'', array_json (map (notification_json cj) ns)), (''count'', int_json k)]"

definition pagination_json :: "string \<Rightarrow> bool \<Rightarrow> string option" where
  "pagination_json next_cursor has_more = struct_json
     ((if next_cursor = [] then [] else [(''next_cursor'', text_json next_cursor)]) @ [(''has_more'', bool_json has_more)])"

definition list_json :: "cursor_json \<Rightarrow> Notification list \<Rightarrow> string \<Rightarrow> bool \<Rightarrow> string option" where
  "list_json cj ns next_cursor has_more = struct_json
     [(''data'', array_json (map (notification_json cj) ns)), (''pagination'', pagination_json next_cursor has_more)]"

definition health_json :: "healthResponse \<Rightarrow> string option" where
  "health_json h = struct_json
     ([(''status'', text_json (hr_Status h))] @
      (if hr_Checks h = Map.empty then [] else [(''checks'', map_json text_json (hr_Checks h))]))"

text \<open>\<open>fl\<close> writes a \<open>float64\<close>.\<close>

definition queue_json :: "queueMetrics \<Rightarrow> string option" where
  "queue_json q = struct_json [(''depth'', int_json (qm_Depth q)), (''dlq_depth'', int_json (qm_DLQDepth q))]"

definition latency_json :: "(rat \<Rightarrow> string) \<Rightarrow> latencyMetrics \<Rightarrow> string option" where
  "latency_json fl l = struct_json
     [(''avg_seconds'', Some (fl (lm_AvgSeconds l))), (''max_seconds'', Some (fl (lm_MaxSeconds l))),
      (''min_seconds'', Some (fl (lm_MinSeconds l)))]"

definition tokens_json :: "(rat \<Rightarrow> string) \<Rightarrow> rat \<Rightarrow> string option" where
  "tokens_json fl x = struct_json [(''tokens_remaining'', Some (fl x))]"

definition metrics_fields :: "(rat \<Rightarrow> string) \<Rightarrow> metricsResponse \<Rightarrow> (string \<times> string option) list" where
  "metrics_fields fl r =
     [(''timestamp'', marshal_time (\<lambda>_. 0) (mr_Timestamp r)), (''queues'', map_json queue_json (mr_Queues r)),
      (''notifications'', map_json (map_json int_json) (mr_Notifications r)),
      (''latency'', map_json (latency_json fl) (mr_Latency r)),
      (''circuit_breakers'', map_json text_json (mr_CircuitBreakers r)),
      (''rate_limiters'', map_json (tokens_json fl) (mr_RateLimiters r))]"

definition metrics_json :: "(rat \<Rightarrow> string) \<Rightarrow> metricsResponse \<Rightarrow> string option" where
  "metrics_json fl r = struct_json (metrics_fields fl r)"

text \<open>
  \<open>Encode\<close> ends the value with a line break; a map with the one key \<open>error\<close> reads like the struct
  without details. Plain text does not pass through it.
\<close>

definition body_json :: "cursor_json \<Rightarrow> (rat \<Rightarrow> string) \<Rightarrow> response_body \<Rightarrow> string option" where
  "body_json cj fl body =
     (case body of
        ErrorMessage m \<Rightarrow> error_json m []
      | ErrorDetails m fs \<Rightarrow> error_json m fs
      | OneNotification n \<Rightarrow> notification_json cj n
      | BatchBody i ns k \<Rightarrow> batch_json cj i ns k
      | ListBody ns next_cursor has_more \<Rightarrow> list_json cj ns next_cursor has_more
      | OneTemplate t \<Rightarrow> template_json cj t
      | TemplateList ts \<Rightarrow> array_json (map (template_json cj) ts)
      | HealthBody h \<Rightarrow> health_json h
      | MetricsBody r \<Rightarrow> metrics_json fl r
      | PlainText s \<Rightarrow> Some s)"

definition encode_body :: "cursor_json \<Rightarrow> (rat \<Rightarrow> string) \<Rightarrow> response_body \<Rightarrow> string option" where
  "encode_body cj fl body =
     (case body of
        PlainText s \<Rightarrow> Some s
      | _ \<Rightarrow> map_option (\<lambda>t. t @ [CHR 0x0A]) (body_json cj fl body))"

section \<open>Reading\<close>

text \<open>A client that decodes into the same struct: each member by its name, absent ones the zero value.\<close>

definition text_at :: "(string \<times> string) list \<Rightarrow> string \<Rightarrow> string option" where
  "text_at ms name = map_option string_of_raw (map_of ms name)"

definition time_at :: "(string \<times> string) list \<Rightarrow> string \<Rightarrow> time option" where
  "time_at ms name = Option.bind (map_of ms name) (\<lambda>raw. unmarshal_time raw zero_time)"

definition uuid_at :: "uuid_pkg \<Rightarrow> (string \<times> string) list \<Rightarrow> string \<Rightarrow> uuid option" where
  "uuid_at up ms name = Option.bind (text_at ms name) (uuid_Parse up)"

definition int_at :: "(string \<times> string) list \<Rightarrow> string \<Rightarrow> int option" where
  "int_at ms name = Option.bind (map_of ms name) atoi"

definition or_zero :: "'a \<Rightarrow> 'a option \<Rightarrow> 'a" where
  "or_zero z x = (case x of None \<Rightarrow> z | Some a \<Rightarrow> a)"

definition notification_of_members :: "uuid_pkg \<Rightarrow> (string \<times> string) list \<Rightarrow> Notification" where
  "notification_of_members up ms =
     \<lparr>n_ID = or_zero uuid_Nil (uuid_at up ms ''id''), n_BatchID = uuid_at up ms ''batch_id'',
      n_IdempotencyKey = text_at ms ''idempotency_key'', n_Recipient = or_zero [] (text_at ms ''recipient''),
      n_Channel = or_zero [] (text_at ms ''channel''), n_Content = or_zero [] (text_at ms ''content''),
      n_Subject = text_at ms ''subject'', n_Priority = or_zero [] (text_at ms ''priority''),
      n_Status = or_zero [] (text_at ms ''status''), n_ProviderMessageID = text_at ms ''provider_message_id'',
      n_RetryCount = or_zero 0 (int_at ms ''retry_count''), n_MaxRetries = or_zero 0 (int_at ms ''max_retries''),
      n_NextRetryAt = time_at ms ''next_retry_at'', n_ScheduledAt = time_at ms ''scheduled_at'',
      n_SentAt = time_at ms ''sent_at'', n_FailedAt = time_at ms ''failed_at'',
      n_ErrorMessage = text_at ms ''error_message'', n_Metadata = map_of ms ''metadata'',
      n_CreatedAt = or_zero zero_time (time_at ms ''created_at''),
      n_UpdatedAt = or_zero zero_time (time_at ms ''updated_at'')\<rparr>"

definition read_notification :: "uuid_pkg \<Rightarrow> string \<Rightarrow> Notification option" where
  "read_notification up body =
     (case json_first body of Some (JObject ms) \<Rightarrow> Some (notification_of_members up ms) | _ \<Rightarrow> None)"

text \<open>The notifications of a listing.\<close>

definition read_listing :: "uuid_pkg \<Rightarrow> string \<Rightarrow> Notification option list option" where
  "read_listing up body =
     (case json_first body of
        Some (JObject ms) \<Rightarrow>
          Option.bind (map_of ms ''data'') (\<lambda>raw. map_option (map (read_notification up)) (array_elements raw))
      | _ \<Rightarrow> None)"

text \<open>What the client has then: invalid UTF-8 replaced, metadata compacted.\<close>

definition answered :: "Notification \<Rightarrow> Notification" where
  "answered n = n\<lparr>n_IdempotencyKey := map_option to_valid_utf8 (n_IdempotencyKey n),
     n_Recipient := to_valid_utf8 (n_Recipient n), n_Channel := to_valid_utf8 (n_Channel n),
     n_Content := to_valid_utf8 (n_Content n), n_Subject := map_option to_valid_utf8 (n_Subject n),
     n_Priority := to_valid_utf8 (n_Priority n), n_Status := to_valid_utf8 (n_Status n),
     n_ProviderMessageID := map_option to_valid_utf8 (n_ProviderMessageID n),
     n_ErrorMessage := map_option to_valid_utf8 (n_ErrorMessage n),
     n_Metadata := (case n_Metadata n of None \<Rightarrow> None | Some raw \<Rightarrow> if raw = [] then None else json_compact raw)\<rparr>"

section \<open>Numbers and arrays\<close>

lemma nat_digits_digits: "list_all is_digit (nat_digits n)"
proof (induction n rule: nat_digits.induct)
  case (1 n)
  have "is_digit (digit_char d)" if "d < 10" for d
    using digit_cases [OF that] by (auto simp: digit_char_def)
  then show ?case using 1 by (simp add: nat_digits.simps [of n])
qed

lemma nat_digits_lead: "0 < n \<Longrightarrow> hd (nat_digits n) \<noteq> CHR ''0''"
proof (induction n rule: nat_digits.induct)
  case (1 n)
  show ?case
  proof (cases "n < 10")
    case True
    then show ?thesis using 1(2) digit_cases [OF True] by (auto simp: nat_digits.simps [of n] digit_char_def)
  next
    case False
    then have "0 < n div 10" by simp
    with 1(1) [OF False] False show ?thesis by (simp add: nat_digits.simps [of n] hd_append)
  qed
qed

lemma jint_digits: "jint (nat_digits n) = Some (nat_digits n, [])"
proof (cases "n = 0")
  case True
  then show ?thesis by (simp add: nat_digits.simps [of 0] digit_char_def jint_def)
next
  case False
  obtain c cs where d: "nat_digits n = c # cs" using nat_digits_nonempty [of n] by (cases "nat_digits n") blast+
  have "c \<noteq> CHR ''0''" using nat_digits_lead [of n] False d by simp
  moreover have "takeWhile is_digit (nat_digits n) = nat_digits n" "dropWhile is_digit (nat_digits n) = []"
    using nat_digits_digits [of n] by (simp_all add: list_all_iff)
  ultimately show ?thesis using d by (simp add: jint_def some_digits_def)
qed

lemma junsigned_digits: "junsigned (nat_digits n) = Some (nat_digits n, [])"
  by (simp add: junsigned_def then_parse_def jint_digits jfraction_def jexponent_def)

lemma jliteral_itoa: "jliteral (itoa x) = Some (itoa x, [])"
proof -
  have "jnumber (itoa x) = Some (itoa x, [])"
  proof (cases "x < 0")
    case True
    then show ?thesis by (simp add: itoa_def jnumber_def junsigned_digits)
  next
    case False
    obtain c cs where "nat_digits (nat x) = c # cs" "c \<noteq> CHR ''-''" using nat_digits_Cons by blast
    with False junsigned_digits [of "nat x"] show ?thesis by (simp add: itoa_def jnumber_def)
  qed
  moreover have "\<exists>c cs. itoa x = c # cs \<and> (is_digit c \<or> c = CHR ''-'')"
  proof -
    obtain c cs where d: "nat_digits (nat x) = c # cs" using nat_digits_Cons by blast
    then have "is_digit c" using nat_digits_digits [of "nat x"] by simp
    with d show ?thesis by (simp add: itoa_def)
  qed
  then have "take 4 (itoa x) \<noteq> ''true''" "take 5 (itoa x) \<noteq> ''false''" "take 4 (itoa x) \<noteq> ''null''"
    by (auto simp:)
  ultimately show ?thesis by (simp add: jliteral_def)
qed

lemma value_again_itoa: "value_again d (itoa x)"
  using value_again_literal [OF jliteral_itoa] .

lemma elements_again_text: "vs \<noteq> [] \<Longrightarrow> list_all (value_again d) vs \<Longrightarrow> elements_again d (elements_text vs)"
  by (induction vs rule: elements_text.induct) (simp_all add: elements_again_last elements_again_more)

lemma value_again_array_text: "list_all (value_again d) vs \<Longrightarrow> value_again (Suc d) (array_text vs)"
  using value_again_array [OF elements_again_text] value_again_empty [of "Suc d"]
  by (cases "vs = []") (simp_all add: array_text_def)

lemma read_element:
  assumes "value_again (max_depth - 1) v" "length v \<le> k" "c = CHR '','' \<or> c = CHR '']''"
  shows "read_elements (Suc k) (v @ c # t) =
    (if c = CHR '','' then map_option (\<lambda>raws. v # raws) (read_elements k t) else Some [v])"
proof -
  have "delim (c # t)" using assms(3) by auto
  then have v: "jvalue k (max_depth - 1) (v @ c # t) = Some (v, c # t)" using assms(1,2) by (simp add: value_again_def)
  obtain x v' where x: "v = x # v'" "\<not> is_ws x"
    using assms(1) value_start_plain by (cases v) (auto simp: value_again_def)
  then have "skip_ws (v @ c # t) = v @ c # t" by simp
  then show ?thesis using assms(3) v by auto
qed

lemma read_elements_text:
  "vs \<noteq> [] \<Longrightarrow> list_all (value_again (max_depth - 1)) vs \<Longrightarrow> length (elements_text vs) \<le> k \<Longrightarrow>
   read_elements k (elements_text vs) = Some vs"
proof (induction vs arbitrary: k rule: elements_text.induct)
  case (2 v)
  then obtain k' where "k = Suc k'" by (cases k) auto
  then show ?case using read_element [of v k' "CHR '']''" "[]"] 2 by simp
next
  case (3 v w vs)
  then obtain k' where "k = Suc k'" by (cases k) auto
  then show ?case using read_element [of v k' "CHR '',''" "elements_text (w # vs)"] 3 by simp
qed simp

lemma array_elements_text:
  assumes "list_all (value_again (max_depth - 1)) vs"
  shows "array_elements (array_text vs) = Some vs"
proof (cases vs)
  case Nil
  then show ?thesis by (simp add: array_elements_def array_text_def)
next
  case (Cons v ws)
  then have e: "elements_again (max_depth - 1) (elements_text vs)" using elements_again_text assms by blast
  then obtain c t where t: "elements_text vs = c # t" "value_start c" by (cases "elements_text vs") (auto simp: elements_again_def)
  then have "\<not> is_ws c" "c \<noteq> CHR '']''" using value_start_plain by blast+
  moreover have "read_elements (length (array_text vs)) (elements_text vs) = Some vs"
    by (rule read_elements_text) (use assms Cons in \<open>simp_all add: array_text_def\<close>)
  ultimately show ?thesis using t by (simp add: array_elements_def array_text_def del: read_elements.simps)
qed

section \<open>What an answer reads as\<close>

lemma omitempty_all: "list_all P (omitempty name f x) \<longleftrightarrow> (\<forall>a. x = Some a \<longrightarrow> P (name, f a))"
  by (simp add: omitempty_def split: option.split)

lemma omitempty_lookup: "map_of (omitempty name f x) k = (if k = name then map_option f x else None)"
  by (simp add: omitempty_def split: option.split)

lemma struct_json_Some:
  "struct_json fs = Some t \<longleftrightarrow> list_all (\<lambda>(_, v). v \<noteq> None) fs \<and> t = object_text (map (\<lambda>(n, v). (n, the v)) fs)"
  by (auto simp: struct_json_def)

definition fields_again :: "nat \<Rightarrow> (string \<times> string option) list \<Rightarrow> bool" where
  "fields_again d fs \<longleftrightarrow> list_all (\<lambda>(_, v). \<forall>u. v = Some u \<longrightarrow> value_again d u) fs"

lemma fields_members:
  assumes "struct_json fs = Some t" "fields_again d fs"
  shows "list_all (\<lambda>m. value_again d (snd m)) (map (\<lambda>(n, v). (n, the v)) fs)"
  using assms by (auto simp: struct_json_Some fields_again_def list_all_iff split_beta)

lemma struct_json_again: "struct_json fs = Some t \<Longrightarrow> fs \<noteq> [] \<Longrightarrow> fields_again d fs \<Longrightarrow> value_again (Suc d) t"
  using value_again_object_text [OF _ fields_members] by (auto simp: struct_json_Some)

definition ascii_name :: "string \<Rightarrow> bool" where
  "ascii_name s \<longleftrightarrow> list_all (\<lambda>c. byte c < 128) s"

lemma struct_json_first:
  assumes "struct_json fs = Some t" "fs \<noteq> []" "fields_again (max_depth - 1) fs" "list_all (\<lambda>(n, _). ascii_name n) fs"
  shows "json_first (t @ rest) = Some (JObject (map (\<lambda>(n, v). (n, the v)) fs))"
proof -
  let ?ms = "map (\<lambda>(n, v). (n, the v)) fs"
  note again = fields_members [OF assms(1,3)]
  have t: "t = object_text ?ms" using assms(1) by (simp add: struct_json_Some)
  have "jvalue (length (object_text ?ms @ rest)) max_depth (object_text ?ms @ rest) = Some (object_text ?ms, rest)"
    using object_any_rest [OF members_again_text [OF _ again], of "length (object_text ?ms @ rest)" rest] assms(2)
    by (simp add: object_text_def max_depth_def del: jvalue.simps)
  then have "json_first (object_text ?ms @ rest) = json_read (object_text ?ms)" by (simp add: json_first_def)
  also have "\<dots> = Some (JObject (map (\<lambda>(n, v). (to_valid_utf8 n, v)) ?ms))"
    using json_read_object [OF _ again] assms(2) by simp
  also have "map (\<lambda>(n, v). (to_valid_utf8 n, v)) ?ms = ?ms"
    using assms(4) by (auto simp: list_all_iff ascii_name_def intro!: ascii_valid)
  finally show ?thesis by (simp add: t)
qed

lemma depth_le: "jvalue k d s = Some x \<Longrightarrow> d \<le> d' \<Longrightarrow> jvalue k d' s = Some x"
proof (induction d')
  case (Suc n)
  then show ?case using depth_mono(1) [of k n s x] by (cases "d = Suc n") simp_all
qed simp

text \<open>Metadata that nest no deeper than \<open>d\<close>.\<close>

definition metadata_fits :: "nat \<Rightarrow> string option \<Rightarrow> bool" where
  "metadata_fits d metadata \<longleftrightarrow>
     (case metadata of
        None \<Rightarrow> True
      | Some raw \<Rightarrow> raw = [] \<or> (case jvalue (length raw) d raw of None \<Rightarrow> False | Some (t, r) \<Rightarrow> skip_ws r = []))"

lemma metadata_fits_member:
  assumes "metadata_fits d metadata" "d \<le> max_depth"
  shows "metadata_field metadata =
    (case (case metadata of None \<Rightarrow> None | Some raw \<Rightarrow> if raw = [] then None else json_compact raw) of
       None \<Rightarrow> [] | Some t \<Rightarrow> [(''metadata'', Some t)]) \<and>
    fields_again d (metadata_field metadata) \<and> list_all (\<lambda>(_, v). v \<noteq> None) (metadata_field metadata)"
proof (cases "metadata = None \<or> metadata = Some []")
  case True
  then show ?thesis by (auto simp: metadata_field_def metadata_member_def fields_again_def)
next
  case False
  then obtain raw where raw: "metadata = Some raw" "raw \<noteq> []" by (cases metadata) auto
  with assms(1) obtain t r where t: "jvalue (length raw) d raw = Some (t, r)" "skip_ws r = []"
    by (auto simp: metadata_fits_def split: option.splits)
  then have "json_compact raw = Some t" using depth_le [OF t(1) assms(2)] by (simp add: json_compact_def)
  then show ?thesis
    using raw parsed_again(1) [OF t(1)] by (simp add: metadata_field_def metadata_member_def fields_again_def)
qed

text \<open>The times of a notification that can be written.\<close>

definition times_writable :: "cursor_json \<Rightarrow> Notification \<Rightarrow> bool" where
  "times_writable cj n \<longleftrightarrow> writable (cj_zone cj) (n_CreatedAt n) \<and> writable (cj_zone cj) (n_UpdatedAt n) \<and>
     list_all (\<lambda>x. case x of None \<Rightarrow> True | Some t \<Rightarrow> writable (cj_zone cj) t)
       [n_NextRetryAt n, n_ScheduledAt n, n_SentAt n, n_FailedAt n]"

lemma time_json_Some: "(\<exists>y. time_json cj t = Some y) \<longleftrightarrow> writable (cj_zone cj) t"
  by (simp add: time_json_def marshal_time_def)

lemma time_json_again: "time_json cj t = Some raw \<Longrightarrow> value_again d raw"
  by (simp add: time_json_def) (drule marshal_time_string, simp add: value_again_json_string)

lemma text_again: "text_json s = Some u \<Longrightarrow> value_again d u" "uuid_json cj i = Some u \<Longrightarrow> value_again d u"
  "int_json x = Some u \<Longrightarrow> value_again d u"
  by (auto simp: text_json_def uuid_json_def int_json_def value_again_json_string value_again_itoa)

lemma notification_fields_again:
  "fields_again d (metadata_field (n_Metadata n)) \<Longrightarrow> fields_again d (notification_fields cj n)"
  by (auto simp: fields_again_def notification_fields_def omitempty_all text_again time_json_again)

lemma notification_names: "list_all (\<lambda>(n, _). ascii_name n) (notification_fields cj n)"
  by (auto simp: notification_fields_def omitempty_all ascii_name_def metadata_field_def metadata_member_def
      split: option.split)

lemma opt_all: "(case x of None \<Rightarrow> True | Some t \<Rightarrow> P t) \<longleftrightarrow> (\<forall>t. x = Some t \<longrightarrow> P t)"
  by (simp split: option.split)

lemma notification_fields_written:
  "list_all (\<lambda>(_, v). v \<noteq> None) (notification_fields cj n) \<longleftrightarrow>
   times_writable cj n \<and> list_all (\<lambda>(_, v). v \<noteq> None) (metadata_field (n_Metadata n))"
  unfolding times_writable_def notification_fields_def
  by (simp add: omitempty_all time_json_Some text_json_def uuid_json_def int_json_def opt_all) argo

lemma notification_json_writable: "\<not> times_writable cj n \<Longrightarrow> notification_json cj n = None"
  by (simp add: notification_json_def struct_json_def notification_fields_written del: not_None_eq)

lemma notification_json_ok:
  "times_writable cj n \<Longrightarrow> metadata_fits d (n_Metadata n) \<Longrightarrow> d \<le> max_depth \<Longrightarrow> \<exists>t. notification_json cj n = Some t"
  by (drule metadata_fits_member [THEN conjunct2, THEN conjunct2])
    (simp_all add: notification_json_def struct_json_def notification_fields_written del: not_None_eq)

section \<open>Round trip\<close>

lemma metadata_lookup:
  "k \<noteq> ''metadata'' \<Longrightarrow> map_of (metadata_field metadata) k = None"
  by (auto simp: metadata_field_def metadata_member_def split: option.split)

lemma notification_lookup:
  "map_of (notification_fields cj n) ''id'' = Some (uuid_json cj (n_ID n))"
  "map_of (notification_fields cj n) ''batch_id'' = map_option (uuid_json cj) (n_BatchID n)"
  "map_of (notification_fields cj n) ''idempotency_key'' = map_option text_json (n_IdempotencyKey n)"
  "map_of (notification_fields cj n) ''recipient'' = Some (text_json (n_Recipient n))"
  "map_of (notification_fields cj n) ''channel'' = Some (text_json (n_Channel n))"
  "map_of (notification_fields cj n) ''content'' = Some (text_json (n_Content n))"
  "map_of (notification_fields cj n) ''subject'' = map_option text_json (n_Subject n)"
  "map_of (notification_fields cj n) ''priority'' = Some (text_json (n_Priority n))"
  "map_of (notification_fields cj n) ''status'' = Some (text_json (n_Status n))"
  "map_of (notification_fields cj n) ''provider_message_id'' = map_option text_json (n_ProviderMessageID n)"
  "map_of (notification_fields cj n) ''retry_count'' = Some (int_json (n_RetryCount n))"
  "map_of (notification_fields cj n) ''max_retries'' = Some (int_json (n_MaxRetries n))"
  "map_of (notification_fields cj n) ''next_retry_at'' = map_option (time_json cj) (n_NextRetryAt n)"
  "map_of (notification_fields cj n) ''scheduled_at'' = map_option (time_json cj) (n_ScheduledAt n)"
  "map_of (notification_fields cj n) ''sent_at'' = map_option (time_json cj) (n_SentAt n)"
  "map_of (notification_fields cj n) ''failed_at'' = map_option (time_json cj) (n_FailedAt n)"
  "map_of (notification_fields cj n) ''error_message'' = map_option text_json (n_ErrorMessage n)"
  "map_of (notification_fields cj n) ''metadata'' = map_of (metadata_field (n_Metadata n)) ''metadata''"
  "map_of (notification_fields cj n) ''created_at'' = Some (time_json cj (n_CreatedAt n))"
  "map_of (notification_fields cj n) ''updated_at'' = Some (time_json cj (n_UpdatedAt n))"
  by (simp_all add: notification_fields_def map_add_def omitempty_lookup metadata_lookup split: option.split)

lemma members_lookup: "map_of (map (\<lambda>(n, v). (n, the v)) fs) k = map_option the (map_of fs k)"
  by (induction fs) auto

lemma text_read [simp]:
  "string_of_raw (the (text_json s)) = to_valid_utf8 s" "string_of_raw (the (uuid_json cj i)) = to_valid_utf8 (uuid_String (cj_uuid cj) i)"
  by (simp_all add: text_json_def uuid_json_def string_of_json_string)

definition whole_minutes :: "cursor_json \<Rightarrow> bool" where
  "whole_minutes cj \<longleftrightarrow> (\<forall>t. cj_zone cj t mod 60 = 0)"

lemma time_read: "writable (cj_zone cj) t \<Longrightarrow> whole_minutes cj \<Longrightarrow> unmarshal_time (the (time_json cj t)) old = Some t"
  using unmarshal_marshal_time [of "cj_zone cj" t] by (auto simp: time_json_def marshal_time_def whole_minutes_def)

lemma uuid_read: "uuid_roundtrip (cj_uuid cj) \<Longrightarrow> uuid_Parse (cj_uuid cj) (to_valid_utf8 (uuid_String (cj_uuid cj) i)) = Some i"
  by (rule uuid_text)

lemma opt_time_read:
  "(\<forall>t. x = Some t \<longrightarrow> writable (cj_zone cj) t) \<Longrightarrow> whole_minutes cj \<Longrightarrow>
   Option.bind (map_option the (map_option (time_json cj) x)) (\<lambda>raw. unmarshal_time raw zero_time) = x"
  by (cases x) (simp_all add: time_read)

lemma opt_text_read: "map_option string_of_raw (map_option the (map_option text_json x)) = map_option to_valid_utf8 x"
  by (cases x) simp_all

lemma opt_uuid_read:
  "uuid_roundtrip (cj_uuid cj) \<Longrightarrow>
   Option.bind (map_option string_of_raw (map_option the (map_option (uuid_json cj) x))) (uuid_Parse (cj_uuid cj)) = x"
  by (cases x) (simp_all add: uuid_read)

text \<open>The notifications an answer can carry: those with times that have a JSON form and metadata not too deep.\<close>

definition answerable :: "cursor_json \<Rightarrow> nat \<Rightarrow> Notification \<Rightarrow> bool" where
  "answerable cj d n \<longleftrightarrow> times_writable cj n \<and> metadata_fits d (n_Metadata n) \<and>
     in_int64 (n_RetryCount n) \<and> in_int64 (n_MaxRetries n)"

lemma notification_members_read:
  assumes "uuid_roundtrip (cj_uuid cj)" "whole_minutes cj" "answerable cj d n" "d \<le> max_depth"
  shows "notification_of_members (cj_uuid cj) (map (\<lambda>(n, v). (n, the v)) (notification_fields cj n)) = answered n"
proof -
  have t: "writable (cj_zone cj) (n_CreatedAt n)" "writable (cj_zone cj) (n_UpdatedAt n)"
    "\<forall>t. n_NextRetryAt n = Some t \<longrightarrow> writable (cj_zone cj) t" "\<forall>t. n_ScheduledAt n = Some t \<longrightarrow> writable (cj_zone cj) t"
    "\<forall>t. n_SentAt n = Some t \<longrightarrow> writable (cj_zone cj) t" "\<forall>t. n_FailedAt n = Some t \<longrightarrow> writable (cj_zone cj) t"
    using assms(3) by (simp_all add: answerable_def times_writable_def opt_all)
  have m: "map_option the (map_of (metadata_field (n_Metadata n)) ''metadata'') =
      (case n_Metadata n of None \<Rightarrow> None | Some raw \<Rightarrow> if raw = [] then None else json_compact raw)"
  proof -
    have "metadata_fits d (n_Metadata n)" using assms(3) by (simp add: answerable_def)
    from metadata_fits_member [OF this assms(4), THEN conjunct1] show ?thesis by (simp split: option.split)
  qed
  have i: "in_int64 (n_RetryCount n)" "in_int64 (n_MaxRetries n)" using assms(3) by (simp_all add: answerable_def)
  show ?thesis
    unfolding notification_of_members_def text_at_def time_at_def uuid_at_def int_at_def members_lookup notification_lookup
      opt_time_read [OF t(3) assms(2)] opt_time_read [OF t(4) assms(2)] opt_time_read [OF t(5) assms(2)]
      opt_time_read [OF t(6) assms(2)] opt_text_read opt_uuid_read [OF assms(1)] m
    by (simp add: answered_def or_zero_def time_read [OF t(1) assms(2)] time_read [OF t(2) assms(2)] uuid_read [OF assms(1)]
        int_json_def atoi_itoa [OF i(1)] atoi_itoa [OF i(2)])
qed

lemma notification_json_read:
  assumes "uuid_roundtrip (cj_uuid cj)" "whole_minutes cj" "answerable cj d n" "d < max_depth"
  shows "\<exists>t. notification_json cj n = Some t \<and> value_again (Suc d) t \<and>
    (\<forall>rest. read_notification (cj_uuid cj) (t @ rest) = Some (answered n))"
proof -
  have fits: "times_writable cj n" "metadata_fits d (n_Metadata n)" using assms(3) by (simp_all add: answerable_def)
  then obtain t where t: "notification_json cj n = Some t" using notification_json_ok assms(4) by fastforce
  have ne: "notification_fields cj n \<noteq> []" by (simp add: notification_fields_def)
  have s: "struct_json (notification_fields cj n) = Some t" using t by (simp add: notification_json_def)
  have again: "fields_again d (notification_fields cj n)"
    using metadata_fits_member [OF fits(2) less_imp_le [OF assms(4)]] notification_fields_again by blast
  have "metadata_fits (max_depth - 1) (n_Metadata n)"
    using fits(2) depth_le [of _ d _ _ "max_depth - 1"] assms(4)
    by (auto simp: metadata_fits_def split: option.splits prod.splits)
  then have again1: "fields_again (max_depth - 1) (notification_fields cj n)"
    using metadata_fits_member [OF _ diff_le_self] notification_fields_again by blast
  have "read_notification (cj_uuid cj) (t @ rest) = Some (answered n)" for rest
    unfolding read_notification_def struct_json_first [OF s ne again1 notification_names]
    using notification_members_read [OF assms(1-3)] assms(4) by simp
  then show ?thesis using t struct_json_again [OF s ne again] by blast
qed

lemma value_again_deeper: "value_again d t \<Longrightarrow> d \<le> d' \<Longrightarrow> value_again d' t"
  by (auto simp: value_again_def intro: depth_le)

lemma pagination_again: "\<exists>t. pagination_json c m = Some t \<and> value_again (Suc d) t"
proof -
  let ?fs = "(if c = [] then [] else [(''next_cursor'', text_json c)]) @ [(''has_more'', bool_json m)]"
  have "value_again d (if m then ''true'' else ''false'')"
    using value_again_literal [of "if m then ''true'' else ''false''" "if m then ''true'' else ''false''" "[]"]
    by (simp add: jliteral_def split: if_splits)
  then have "fields_again d ?fs" by (auto simp: fields_again_def bool_json_def text_again)
  moreover have "\<exists>t. pagination_json c m = Some t"
    by (cases "c = []") (simp_all add: pagination_json_def struct_json_def text_json_def bool_json_def)
  then obtain t where "pagination_json c m = Some t" by blast
  ultimately show ?thesis using struct_json_again [of ?fs t d] by (simp add: pagination_json_def)
qed

lemma array_json_written: "list_all (\<lambda>v. v \<noteq> None) vs \<Longrightarrow> array_json vs = Some (array_text (map the vs))"
  by (simp add: array_json_def)

lemma listing_read:
  assumes "uuid_roundtrip (cj_uuid cj)" "whole_minutes cj" "list_all (answerable cj (max_depth - 3)) ns"
  shows "\<exists>t. encode_body cj fl (ListBody ns c m) = Some t \<and>
    read_listing (cj_uuid cj) t = Some (map (\<lambda>n. Some (answered n)) ns)"
proof -
  have one: "\<exists>t. notification_json cj n = Some t \<and> value_again (max_depth - 2) t \<and>
      read_notification (cj_uuid cj) t = Some (answered n)" if "n \<in> set ns" for n
    using notification_json_read [OF assms(1,2), of "max_depth - 3" n] that assms(3)
    by (fastforce simp: list_all_iff max_depth_def dest: spec [of _ "[]"])
  let ?texts = "map (\<lambda>n. the (notification_json cj n)) ns"
  have texts: "list_all (value_again (max_depth - 2)) ?texts" using one by (fastforce simp: list_all_iff)
  then have texts1: "list_all (value_again (max_depth - 1)) ?texts"
    using value_again_deeper [of "max_depth - 2" _ "max_depth - 1"] by (auto simp: list_all_iff max_depth_def)
  have arr: "array_json (map (notification_json cj) ns) = Some (array_text ?texts)"
    using one by (subst array_json_written) (fastforce simp: list_all_iff comp_def)+
  obtain p where p: "pagination_json c m = Some p" "value_again (max_depth - 1) p"
    using pagination_again [of c m "max_depth - 2"] by (auto simp: max_depth_def)
  let ?fs = "[(''data'', array_json (map (notification_json cj) ns)), (''pagination'', pagination_json c m)]"
  obtain t where t: "struct_json ?fs = Some t" using arr p by (simp add: struct_json_def)
  have "value_again (Suc (max_depth - 2)) (array_text ?texts)" by (rule value_again_array_text [OF texts])
  then have "fields_again (max_depth - 1) ?fs" using arr p by (simp add: fields_again_def max_depth_def)
  from struct_json_first [OF t _ this] have "json_first (t @ [CHR 0x0A]) =
      Some (JObject [(''data'', array_text ?texts), (''pagination'', p)])"
    using arr p by (simp add: ascii_name_def)
  then have "read_listing (cj_uuid cj) (t @ [CHR 0x0A]) = Some (map (read_notification (cj_uuid cj)) ?texts)"
    using array_elements_text [OF texts1] by (simp add: read_listing_def)
  also have "map (read_notification (cj_uuid cj)) ?texts = map (\<lambda>n. Some (answered n)) ns"
    using one by fastforce
  finally show ?thesis using t by (simp add: encode_body_def body_json_def list_json_def)
qed

lemma unwritable_list: "n \<in> set ns \<Longrightarrow> \<not> times_writable cj n \<Longrightarrow> array_json (map (notification_json cj) ns) = None"
  using notification_json_writable by (fastforce simp: array_json_def list_all_iff)

section \<open>Properties\<close>

text \<open>
  C23. What the API answers about a notification, the client reads: a notification whose times have a
  JSON form is encoded, and decoding it with the same struct gives that notification (invalid
  UTF-8 replaced, metadata compacted), alone and in a listing, in order. But one notification with a
  time that has none, a year after 9999 in the zone of the database session, is enough for the answer
  to any request that mentions it, a whole page of the listing included, to consist of the status
  alone: the encoding error is only logged, after the status has been sent.
\<close>

theorem answers_read_back:
  assumes "uuid_roundtrip (cj_uuid cj)" "whole_minutes cj"
  shows "(answerable cj (max_depth - 1) n \<longrightarrow>
      (\<exists>t. encode_body cj fl (OneNotification n) = Some t \<and> read_notification (cj_uuid cj) t = Some (answered n))) \<and>
    (list_all (answerable cj (max_depth - 3)) ns \<longrightarrow>
      (\<exists>t. encode_body cj fl (ListBody ns c m) = Some t \<and>
         read_listing (cj_uuid cj) t = Some (map (\<lambda>n. Some (answered n)) ns))) \<and>
    (\<not> times_writable cj n \<longrightarrow>
      response_calls (encode_body cj fl) (Responded (respondJSON st (OneNotification n))) = [WriteHeader st] \<and>
      (n \<in> set ns \<longrightarrow>
        response_calls (encode_body cj fl) (Responded (respondJSON st (ListBody ns c m))) = [WriteHeader st] \<and>
        response_calls (encode_body cj fl) (Responded (respondJSON st (BatchBody b ns k))) = [WriteHeader st]))"
proof (intro conjI impI)
  assume "answerable cj (max_depth - 1) n"
  then obtain t where "notification_json cj n = Some t" "\<forall>rest. read_notification (cj_uuid cj) (t @ rest) = Some (answered n)"
    using notification_json_read [OF assms, of "max_depth - 1" n] by (auto simp: max_depth_def)
  then show "\<exists>t. encode_body cj fl (OneNotification n) = Some t \<and> read_notification (cj_uuid cj) t = Some (answered n)"
    by (simp add: encode_body_def body_json_def)
qed (use listing_read [OF assms] in \<open>simp_all add: response_calls_def respondJSON_def encode_body_def body_json_def
  list_json_def batch_json_def notification_json_writable unwritable_list struct_json_def\<close>)

text \<open>
  A notification scheduled, in a request, for the last second of 9999 twelve hours west of Greenwich is
  one of the year 10000 when a session in UTC gives it back.
\<close>

definition far_notification :: Notification where
  "far_notification = sample_notification\<lparr>n_ScheduledAt := parse_rfc3339 ''9999-12-31T23:59:59-12:00''\<rparr>"

theorem answers_read_back_witness:
  "(\<exists>t. encode_body utc_json (\<lambda>_. ''0'') (OneNotification sample_notification) = Some t \<and>
      read_notification sample_uuid_pkg t = Some (answered sample_notification)) \<and>
   n_ScheduledAt far_notification \<noteq> None \<and>
   response_calls (encode_body utc_json (\<lambda>_. ''0''))
     (Responded (respondJSON 200 (ListBody [sample_notification, far_notification] [] False))) = [WriteHeader 200]"
proof -
  have hyps: "uuid_roundtrip (cj_uuid utc_json)" "whole_minutes utc_json"
    using sample_uuid_roundtrip by (simp_all add: utc_json_def whole_minutes_def)
  have far: "parse_rfc3339 ''9999-12-31T23:59:59-12:00'' = Some (253402343999 * second)" by code_simp
  have "\<not> writable (\<lambda>_. 0) (253402343999 * second)" "writable (\<lambda>_. 0) 0" by code_simp+
  then have "\<not> times_writable utc_json far_notification" "answerable utc_json (max_depth - 1) sample_notification"
    by (simp_all add: times_writable_def far_notification_def far utc_json_def answerable_def sample_notification_def
        metadata_fits_def in_int64_def)
  moreover have "n_ScheduledAt far_notification \<noteq> None" by (simp add: far_notification_def far)
  moreover have "far_notification \<in> set [sample_notification, far_notification]" by simp
  ultimately show ?thesis
    using answers_read_back [OF hyps, THEN conjunct1, THEN mp, of sample_notification]
      answers_read_back [OF hyps, THEN conjunct2, THEN conjunct2, THEN mp, THEN conjunct2, THEN mp, THEN conjunct1,
        of far_notification "[sample_notification, far_notification]"]
    by (simp only: utc_json_def cursor_json.simps simp_thms)
qed

end
