(* ===== verification/Router.thy ===== *)
theory Router
  imports Responses
begin

text \<open>
  Package \<open>internal/api\<close>, \<open>router.go\<close>: the routing tables, the order of the middleware and the
  dispatch to the handlers. The router package \<open>github.com/go-chi/chi\<close> is an argument, the function
  that picks a row of a table for a method and a path; \<open>chi_ok\<close> states what is used of it.
\<close>

section \<open>Tables\<close>

datatype chi_match = Matched nat "string \<Rightarrow> string" | NotFound | MethodNotAllowed

type_synonym chi_find = "(string \<times> string) list \<Rightarrow> string \<Rightarrow> string \<Rightarrow> chi_match"

text \<open>A match is a row of the table, registered for the request's method (\<open>*\<close> stands for a mounted router).\<close>

definition chi_ok :: "chi_find \<Rightarrow> bool" where
  "chi_ok route \<longleftrightarrow> (\<forall>table m path k ps. route table m path = Matched k ps \<longrightarrow>
     k < length table \<and> (fst (table ! k) = m \<or> fst (table ! k) = ''*''))"

datatype top_target = ToHealth | ToMetrics | ToSwagger | ToWS | ToAPI

datatype api_target = ToCreate | ToCreateBatch | ToList | ToGetByID | ToGetBatchStatus | ToCancel
  | ToTemplateCreate | ToTemplateList | ToTemplateGetByID

definition top_routes :: "((string \<times> string) \<times> top_target) list" where
  "top_routes = [((''GET'', ''/health''), ToHealth), ((''GET'', ''/metrics''), ToMetrics),
     ((''GET'', ''/swagger/*''), ToSwagger), ((''GET'', ''/api/v1/ws''), ToWS), ((''*'', ''/api/v1/*''), ToAPI)]"

definition api_routes :: "((string \<times> string) \<times> api_target) list" where
  "api_routes = [((''POST'', ''/notifications''), ToCreate), ((''POST'', ''/notifications/batch''), ToCreateBatch),
     ((''GET'', ''/notifications''), ToList), ((''GET'', ''/notifications/{id}''), ToGetByID),
     ((''GET'', ''/notifications/batch/{id}''), ToGetBatchStatus),
     ((''PATCH'', ''/notifications/{id}/cancel''), ToCancel), ((''POST'', ''/templates''), ToTemplateCreate),
     ((''GET'', ''/templates''), ToTemplateList), ((''GET'', ''/templates/{id}''), ToTemplateGetByID)]"

section \<open>Serving a request\<close>

text \<open>
  Everything a request can meet: the packages the handlers are given and the
  surroundings of the calls it makes. \<open>sv_swagger\<close> is the handler of the documentation package.
\<close>

record server_env =
  se_chi :: chi_find
  se_up :: uuid_pkg
  se_repo :: "pg_state NotificationRepository"
  se_trepo :: "pg_state TemplateRepository"
  se_service :: service_env
  se_ce :: call_env
  se_ce2 :: call_env
  se_depth :: "32 word"
  se_cj :: cursor_json
  se_err_text :: "string \<Rightarrow> string"
  se_health :: health_env
  se_metrics :: metrics_env
  se_breakers :: "(string \<times> CircuitBreaker) list"
  se_accept :: "ResponseWriter \<Rightarrow> http_req \<Rightarrow> http_response option"
  se_ws_events :: "ws_event list"
  se_swagger :: "http_req \<Rightarrow> http_response"
  se_fresh_id :: string
  se_float :: "rat \<Rightarrow> string"

type_synonym world = "pg_state \<times> Publishing list"

text \<open>The context of the request reaches the producer through the service.\<close>

definition correlated :: "ctx \<Rightarrow> service_env \<Rightarrow> service_env" where
  "correlated cx env = env\<lparr>sv_pub := \<lambda>i. (sv_pub env i)\<lparr>pe_correlation := GetCorrelationID cx\<rparr>\<rparr>"

definition responded :: "http_response \<times> 's \<Rightarrow> outcome \<times> 's" where
  "responded p = (Responded (fst p), snd p)"

definition serve_api :: "server_env \<Rightarrow> api_target \<Rightarrow> (string \<Rightarrow> string) \<Rightarrow> world handler" where
  "serve_api E t param w cx rq s =
     (let up = se_up E; R = se_repo E; TR = se_trepo E; body = rq_body rq
      in case t of
           ToCreate \<Rightarrow>
             responded (Handler_Create up R TR (correlated cx (se_service E)) (se_depth E) body s)
         | ToCreateBatch \<Rightarrow> responded (Handler_CreateBatch up R (correlated cx (se_service E)) body s)
         | ToList \<Rightarrow>
             (Responded (Handler_List R (se_ce E) (se_cj E) (se_err_text E) (rq_query rq) (fst s)), s)
         | ToGetByID \<Rightarrow> (Responded (Handler_GetByID up R (se_ce E) (param ''id'') (fst s)), s)
         | ToGetBatchStatus \<Rightarrow> (Responded (Handler_GetBatchStatus up R (se_ce E) (param ''id'') (fst s)), s)
         | ToCancel \<Rightarrow>
             (let (r, st) = Handler_Cancel up R (se_ce E) (se_ce2 E) (param ''id'') (fst s)
              in (Responded r, (st, snd s)))
         | ToTemplateCreate \<Rightarrow>
             (let (r, st) = TemplateHandler_Create TR (se_ce E) body (fst s)
              in (Responded r, (st, snd s)))
         | ToTemplateList \<Rightarrow> (Responded (TemplateHandler_List TR (se_ce E) (fst s)), s)
         | ToTemplateGetByID \<Rightarrow> (Responded (TemplateHandler_GetByID up TR (se_ce E) (param ''id'') (fst s)), s))"

text \<open>What \<open>chi\<close> answers itself: \<open>http.NotFound\<close>, or 405.\<close>

definition chi_404 :: http_response where
  "chi_404 = \<lparr>rs_status = 404, rs_headers = [(''Content-Type'', ''text/plain; charset=utf-8'')],
     rs_body = PlainText (''404 page not found'' @ [CHR 0x0A])\<rparr>"

definition chi_405 :: http_response where
  "chi_405 = \<lparr>rs_status = 405, rs_headers = [], rs_body = PlainText []\<rparr>"

definition api_router :: "server_env \<Rightarrow> (string \<Rightarrow> string) \<Rightarrow> world handler" where
  "api_router E sub_path w cx rq s =
     (case se_chi E (map fst api_routes) (rq_method rq) (sub_path ''*'') of
        Matched k ps \<Rightarrow> serve_api E (snd (api_routes ! k)) ps w cx rq s
      | NotFound \<Rightarrow> (Responded chi_404, s)
      | MethodNotAllowed \<Rightarrow> (Responded chi_405, s))"

definition top_router :: "server_env \<Rightarrow> world handler" where
  "top_router E w cx rq s =
     (case se_chi E (map fst top_routes) (rq_method rq) (rq_path rq) of
        Matched k ps \<Rightarrow>
          (case snd (top_routes ! k) of
             ToHealth \<Rightarrow> (Responded (Handler_Health (se_health E)), s)
           | ToMetrics \<Rightarrow>
               (case Handler_Metrics (se_metrics E) (se_breakers E) (fst s) of
                  None \<Rightarrow> (Panicked, s)
                | Some r \<Rightarrow> (Responded r, s))
           | ToSwagger \<Rightarrow> (Responded (se_swagger E rq), s)
           | ToWS \<Rightarrow> HandleWS (se_accept E) (se_ws_events E) w cx rq s
           | ToAPI \<Rightarrow> contentTypeJSON (api_router E ps) w cx rq s)
      | NotFound \<Rightarrow> (Responded chi_404, s)
      | MethodNotAllowed \<Rightarrow> (Responded chi_405, s))"

text \<open>\<open>NewRouter\<close>: \<open>Correlation\<close> outside, \<open>Logging\<close> inside, on every request.\<close>

definition serve :: "server_env \<Rightarrow> http_req \<Rightarrow> world \<Rightarrow> outcome \<times> world" where
  "serve E rq s =
     Correlation (se_fresh_id E) (\<lambda>w cx rq s. fst (Logging (encode_body (se_cj E) (se_float E)) (top_router E) w cx rq s))
       NetWriter \<lparr>cx_correlation = None\<rparr> rq s"

definition serve_log :: "server_env \<Rightarrow> http_req \<Rightarrow> world \<Rightarrow> log_entry list" where
  "serve_log E rq s =
     snd (Logging (encode_body (se_cj E) (se_float E)) (top_router E) NetWriter \<lparr>cx_correlation = Some (request_correlation (se_fresh_id E) rq)\<rparr> rq s)"

lemma serve_unfold:
  "serve E rq s =
     (let (out, s') = top_router E (StatusWriter NetWriter) \<lparr>cx_correlation = Some (request_correlation (se_fresh_id E) rq)\<rparr> rq s
      in (with_header (''X-Correlation-ID'', request_correlation (se_fresh_id E) rq) out, s'))"
  by (simp add: serve_def Correlation_def Logging_def Let_def split_beta)

text \<open>A request either leaves store and broker alone or is one of the API's.\<close>

lemma serve_cases:
  assumes "serve E rq s = (out, s')"
  obtains "s' = s"
    | t param w cx out' where "serve_api E t param w cx rq s = (out', s')"
proof -
  obtain w cx out' where "top_router E w cx rq s = (out', s')"
    using assms unfolding serve_unfold by (auto simp: Let_def split: prod.splits)
  then have "s' = s \<or> (\<exists>t param. serve_api E t param w cx rq s = (out', s'))"
    by (auto simp: top_router_def api_router_def contentTypeJSON_def HandleWS_def
        split: chi_match.splits top_target.splits option.splits if_splits)
  with that show thesis by blast
qed

section \<open>Correlation ids reach the broker\<close>

text \<open>Everything published from one state to another carries the id.\<close>

definition published_with :: "string \<Rightarrow> world \<Rightarrow> world \<Rightarrow> bool" where
  "published_with c s s' \<longleftrightarrow> (\<exists>pubs. snd s' = snd s @ pubs \<and> list_all (\<lambda>p. pub_CorrelationId p = c) pubs)"

lemma published_same: "snd s' = snd s \<Longrightarrow> published_with c s s'"
  by (simp add: published_with_def)

lemma published_trans: "published_with c s s1 \<Longrightarrow> published_with c s1 s2 \<Longrightarrow> published_with c s s2"
  by (auto simp: published_with_def)

lemma publish_and_mark_correlated:
  "publish_and_mark up R pe ce n s = (n', s') \<Longrightarrow> published_with (pe_correlation pe) s s'"
  by (auto simp: publish_and_mark_def Publish_def published_with_def Let_def split_beta
      split: net_fault.splits option.splits)

lemma Service_Create_correlated:
  assumes "\<And>i. pe_correlation (sv_pub env i) = c" "Service_Create up R TR env req s = (res, s')"
  shows "published_with c s s'"
proof -
  consider "snd s' = snd s" | n n' st where "publish_and_mark up R (sv_pub env 0) (sv_repo env 1) n (st, snd s) = (n', s')"
    using assms(2)
    by (auto simp: Service_Create_def Let_def split: prod.splits sum.splits option.splits if_splits)
  then show ?thesis
  proof cases
    case 1
    then show ?thesis by (rule published_same)
  next
    case 2
    from publish_and_mark_correlated [OF this] assms(1) show ?thesis by (simp add: published_with_def)
  qed
qed

lemma publish_batch_correlated:
  "(\<And>i. pe_correlation (sv_pub env i) = c) \<Longrightarrow> publish_batch up R env i ns s = (ns', s') \<Longrightarrow> published_with c s s'"
proof (induction up R env i ns s arbitrary: ns' s' rule: publish_batch.induct)
  case (1 up R env i w)
  then show ?case by (simp add: published_same)
next
  case (2 up R env i n ns w)
  obtain n1 w1 where h: "(if future (sv_now env i) n then (n, w)
      else publish_and_mark up R (sv_pub env i) (sv_repo env (Suc i)) n w) = (n1, w1)" by (metis surj_pair)
  obtain ns2 w2 where t: "publish_batch up R env (Suc i) ns w1 = (ns2, w2)" by (metis surj_pair)
  have "published_with c w w1"
    using h 2(2) publish_and_mark_correlated [of up R "sv_pub env i" "sv_repo env (Suc i)" n w n1 w1]
    by (auto simp: published_same split: if_splits)
  moreover have "published_with c w1 w2" using 2(1) [OF h [symmetric] refl 2(2) t] by simp
  moreover have "s' = w2" using 2(3) h t by simp
  ultimately show ?case using published_trans by blast
qed

lemma Service_CreateBatch_correlated:
  assumes "\<And>i. pe_correlation (sv_pub env i) = c" "Service_CreateBatch up R env req s = (res, s')"
  shows "published_with c s s'"
proof -
  consider "snd s' = snd s" | ns ns' st where "publish_batch up R env 0 ns (st, snd s) = (ns', s')"
    using assms(2)
    by (auto simp: Service_CreateBatch_def Let_def split: prod.splits sum.splits option.splits if_splits)
  then show ?thesis
  proof cases
    case 1
    then show ?thesis by (rule published_same)
  next
    case 2
    from publish_batch_correlated [OF assms(1) this] show ?thesis by (simp add: published_with_def)
  qed
qed

lemma correlated_pub: "pe_correlation (sv_pub (correlated cx env) i) = GetCorrelationID cx"
  by (simp add: correlated_def)

lemma serve_api_correlated:
  assumes "serve_api E t param w cx rq s = (out, s')"
  shows "published_with (GetCorrelationID cx) s s'"
proof (cases t)
  case ToCreate
  have "snd s' = snd s \<or> (\<exists>req res. Service_Create (se_up E) (se_repo E) (se_trepo E) (correlated cx (se_service E)) req s = (res, s'))"
    using assms ToCreate
    by (auto simp: serve_api_def responded_def Handler_Create_def Let_def split: option.splits if_splits prod.splits sum.splits)
  then show ?thesis using Service_Create_correlated [OF correlated_pub] published_same by blast
next
  case ToCreateBatch
  have "snd s' = snd s \<or> (\<exists>req res. Service_CreateBatch (se_up E) (se_repo E) (correlated cx (se_service E)) req s = (res, s'))"
    using assms ToCreateBatch
    by (auto simp: serve_api_def responded_def Handler_CreateBatch_def Let_def split: option.splits prod.splits sum.splits)
  then show ?thesis using Service_CreateBatch_correlated [OF correlated_pub] published_same by blast
qed (use assms in \<open>auto simp: serve_api_def Let_def split_beta intro: published_same\<close>)

lemma top_router_correlated:
  assumes "top_router E w cx rq s = (out, s')"
  shows "published_with (GetCorrelationID cx) s s'"
proof -
  consider "snd s' = snd s" | t param where "serve_api E t param w cx rq s = (out, s')"
    using assms
    by (auto simp: top_router_def api_router_def contentTypeJSON_def HandleWS_def
        split: chi_match.splits top_target.splits option.splits if_splits)
  then show ?thesis by cases (use serve_api_correlated published_same in blast)+
qed

section \<open>Statuses\<close>

definition api_status :: "int \<Rightarrow> bool" where
  "api_status c \<longleftrightarrow> c \<in> {200, 201, 400, 404, 405, 409, 415, 429, 500, 503}"

lemma respondError_api: "api_status (rs_status (respondError e))"
  using respondError_status [of e] by (auto simp: api_status_def)

lemma api_statuses:
  "api_status (rs_status (fst (Handler_Create up R TR env d body w)))"
  "api_status (rs_status (fst (Handler_CreateBatch up R env body w)))"
  "api_status (rs_status (Handler_GetByID up R ce raw st))"
  "api_status (rs_status (Handler_GetBatchStatus up R ce raw st))"
  "api_status (rs_status (fst (Handler_Cancel up R ce ce' raw st)))"
  "api_status (rs_status (Handler_List R ce cj err_text q st))"
  "api_status (rs_status (fst (TemplateHandler_Create TR ce body st)))"
  "api_status (rs_status (TemplateHandler_GetByID up TR ce raw st))"
  "api_status (rs_status (TemplateHandler_List TR ce st))"
  by (simp_all add: Handler_Create_def Handler_CreateBatch_def Handler_GetByID_def Handler_GetBatchStatus_def
      Handler_Cancel_def Handler_List_def TemplateHandler_Create_def TemplateHandler_GetByID_def TemplateHandler_List_def
      Let_def respondError_api split: option.split sum.split prod.split)
    (simp_all add: api_status_def)

text \<open>Where \<open>chi\<close> sends a request.\<close>

definition goes_to :: "server_env \<Rightarrow> http_req \<Rightarrow> top_target \<Rightarrow> bool" where
  "goes_to E rq t \<longleftrightarrow>
     (case se_chi E (map fst top_routes) (rq_method rq) (rq_path rq) of
        Matched k _ \<Rightarrow> snd (top_routes ! k) = t
      | _ \<Rightarrow> False)"

lemma serve_api_status:
  "\<exists>r. fst (serve_api E t param w cx rq s) = Responded r \<and> api_status (rs_status r)"
  using api_statuses by (cases t) (simp_all add: serve_api_def responded_def Let_def split_beta)

lemma api_router_status:
  "\<exists>r. fst (contentTypeJSON (api_router E ps) w cx rq s) = Responded r \<and> api_status (rs_status r)"
proof -
  have "\<exists>r. fst (api_router E ps w cx rq s) = Responded r \<and> api_status (rs_status r)"
    using serve_api_status
    by (cases "se_chi E (map fst api_routes) (rq_method rq) (ps ''*'')")
      (simp_all add: api_router_def, simp_all add: api_status_def chi_404_def chi_405_def)
  then show ?thesis by (auto simp: contentTypeJSON_def api_status_def)
qed

lemma top_router_status:
  assumes "top_router E w cx rq s = (out, s')" "\<not> goes_to E rq ToSwagger" "\<not> goes_to E rq ToWS"
  shows "(\<exists>r. out = Responded r \<and> api_status (rs_status r)) \<or> out = Panicked \<and> s' = s \<and> goes_to E rq ToMetrics"
proof (cases "se_chi E (map fst top_routes) (rq_method rq) (rq_path rq)")
  case (Matched k ps)
  have health: "api_status (rs_status (Handler_Health env))" for env
    by (simp add: Handler_Health_def collect_health_def api_status_def split_beta Let_def)
  have metrics: "Handler_Metrics env bs st = Some r \<Longrightarrow> api_status (rs_status r)" for env bs st r
    by (auto simp: Handler_Metrics_def api_status_def)
  show ?thesis
    using assms Matched health metrics api_router_status [of E ps w cx rq s]
    by (cases "snd (top_routes ! k)") (auto simp: top_router_def goes_to_def split: option.splits)
qed (use assms(1) in \<open>auto simp: top_router_def api_status_def chi_404_def chi_405_def\<close>)

section \<open>A server for examples\<close>

definition sample_find :: chi_find where
  "sample_find table m path =
     (case find (\<lambda>k. table ! k = (m, path) \<or> (fst (table ! k) = ''*'' \<and> take 8 path = ''/api/v1/'')) [0..<length table] of
        None \<Rightarrow> NotFound
      | Some k \<Rightarrow> Matched k (\<lambda>_. drop 7 path))"

lemma sample_find_ok: "chi_ok sample_find"
  by (auto simp: chi_ok_def sample_find_def find_Some_iff split: option.splits)

definition sample_accept :: "ResponseWriter \<Rightarrow> http_req \<Rightarrow> http_response option" where
  "sample_accept w rq =
     (if implements_Hijacker w then None else Some \<lparr>rs_status = 501, rs_headers = [], rs_body = PlainText []\<rparr>)"

lemma sample_accept_ok: "accept_needs_hijacker sample_accept"
  by (simp add: accept_needs_hijacker_def sample_accept_def)

definition sample_server :: server_env where
  "sample_server = \<lparr>se_chi = sample_find, se_up = sample_uuid_pkg,
     se_repo = postgres_repository sample_uuid_pkg any_server utc_json,
     se_trepo = template_repository sample_uuid_pkg any_server, se_service = sample_service_env,
     se_ce = calm 5 (\<lambda>_. 0), se_ce2 = calm 6 (\<lambda>_. 0),
     se_depth = 0, se_cj = utc_json, se_err_text = (\<lambda>_. []),
     se_health = \<lparr>hc_db = None, hc_mq = None, hc_redis = None\<rparr>, se_metrics = sample_metrics_env, se_breakers = [],
     se_accept = sample_accept, se_ws_events = [], se_swagger = (\<lambda>_. chi_404), se_fresh_id = ''fresh'', se_float = (\<lambda>_. ''0'')\<rparr>"

definition sample_post :: http_req where
  "sample_post = \<lparr>rq_method = ''POST'', rq_path = ''/api/v1/notifications'',
     rq_header = (\<lambda>h. if h = ''X-Correlation-ID'' then ''abc'' else if h = ''Content-Type'' then ''application/json'' else []),
     rq_query = (\<lambda>_. []), rq_body = sample_create_body\<rparr>"

lemma sample_post_top:
  "top_router sample_server w cx sample_post s = contentTypeJSON (api_router sample_server (\<lambda>_. ''/notifications'')) w cx sample_post s"
  by (simp add: top_router_def sample_server_def sample_post_def sample_find_def top_routes_def upt_rec)

lemma sample_post_api:
  "contentTypeJSON (api_router sample_server (\<lambda>_. ''/notifications'')) w cx sample_post s =
   serve_api sample_server ToCreate (\<lambda>_. drop 7 ''/notifications'') w cx sample_post s"
  by (simp add: contentTypeJSON_def api_router_def sample_server_def sample_post_def sample_find_def api_routes_def upt_rec)

lemma sample_post_run:
  "\<exists>r s'. serve sample_server sample_post (keyed_db [], []) = (Responded r, s') \<and> rs_status r = 201 \<and> length (snd s') = 1"
  unfolding serve_unfold sample_post_top sample_post_api
  by (simp add: serve_api_def responded_def sample_server_def sample_post_def correlated_def Handler_Create_def
      Service_Create_def service_eval checkBackpressure_def ThresholdNormal_def resolve_template_def pg_Create_def Let_def)

section \<open>Properties\<close>





text \<open>
  C6. The websocket endpoint can never be used: every request passes \<open>Logging\<close>, whose writer hides that
  the server's writer can be taken over, so that every websocket handshake is refused and no request
  ever ends in a connection that was taken over.
\<close>

theorem websocket_always_refused:
  assumes "accept_needs_hijacker (se_accept E)" "serve E rq s = (out, s')"
  shows "(\<forall>calls. out \<noteq> TakenOver calls) \<and>
    (goes_to E rq ToWS \<longrightarrow> (\<exists>refusal. se_accept E (StatusWriter NetWriter) rq = Some refusal \<and>
       out = with_header (''X-Correlation-ID'', request_correlation (se_fresh_id E) rq) (Responded refusal) \<and> s' = s))"
proof -
  let ?cx = "\<lparr>cx_correlation = Some (request_correlation (se_fresh_id E) rq)\<rparr>"
  obtain out' where run: "top_router E (StatusWriter NetWriter) ?cx rq s = (out', s')"
    and out: "out = with_header (''X-Correlation-ID'', request_correlation (se_fresh_id E) rq) out'"
    using assms(2) unfolding serve_unfold by (auto simp: Let_def split: prod.splits)
  obtain refusal where ref: "se_accept E (StatusWriter NetWriter) rq = Some refusal"
    using assms(1) by (fastforce simp: accept_needs_hijacker_def)
  have ws: "out' = Responded refusal \<and> s' = s" if "goes_to E rq ToWS"
    using that run ref by (auto simp: goes_to_def top_router_def HandleWS_def split: chi_match.splits)
  have "out' \<noteq> TakenOver calls" for calls
  proof (cases "goes_to E rq ToSwagger \<or> goes_to E rq ToWS")
    case True
    then show ?thesis using ws run by (auto simp: goes_to_def top_router_def split: chi_match.splits)
  next
    case False
    then show ?thesis using top_router_status [OF run] by auto
  qed
  then show ?thesis using out ws ref by (cases out') auto
qed

definition sample_ws :: http_req where
  "sample_ws = \<lparr>rq_method = ''GET'', rq_path = ''/api/v1/ws'', rq_header = (\<lambda>_. []), rq_query = (\<lambda>_. []), rq_body = []\<rparr>"

theorem websocket_always_refused_witness:
  "sample_accept NetWriter sample_ws = None \<and>
   (\<exists>r s'. serve sample_server sample_ws (keyed_db [], []) = (Responded r, s') \<and> rs_status r = 501)"
proof -
  obtain out s' where run: "serve sample_server sample_ws (keyed_db [], []) = (out, s')" by (metis surj_pair)
  have "accept_needs_hijacker (se_accept sample_server)" by (simp add: sample_server_def sample_accept_ok)
  moreover have "goes_to sample_server sample_ws ToWS"
    by (simp add: goes_to_def sample_server_def sample_ws_def sample_find_def top_routes_def upt_rec)
  ultimately show ?thesis
    using websocket_always_refused [OF _ run] run by (auto simp: sample_accept_def sample_server_def)
qed

text \<open>
  Only a \<open>POST\<close> that declares a JSON body and a \<open>PATCH\<close> can change the store or publish anything;
  every other request leaves both as they are.
\<close>

theorem safe_methods:
  assumes "chi_ok (se_chi E)" "serve E rq s = (out, s')" "s' \<noteq> s"
  shows "(rq_method rq = ''POST'' \<and> sublist ''application/json'' (rq_header rq ''Content-Type'')) \<or> rq_method rq = ''PATCH''"
proof -
  let ?cx = "\<lparr>cx_correlation = Some (request_correlation (se_fresh_id E) rq)\<rparr>"
  obtain out' where run: "top_router E (StatusWriter NetWriter) ?cx rq s = (out', s')"
    using assms(2) unfolding serve_unfold by (auto simp: Let_def split: prod.splits)
  then obtain ps where guard: "contentTypeJSON (api_router E ps) (StatusWriter NetWriter) ?cx rq s = (out', s')"
    using assms(3) by (auto simp: top_router_def HandleWS_def split: chi_match.splits top_target.splits option.splits)
  then have js: "rq_method rq = ''POST'' \<longrightarrow> sublist ''application/json'' (rq_header rq ''Content-Type'')"
    and "api_router E ps (StatusWriter NetWriter) ?cx rq s = (out', s')"
    using assms(3) by (auto simp: contentTypeJSON_def split: if_splits)
  then obtain k qs where k: "se_chi E (map fst api_routes) (rq_method rq) (ps ''*'') = Matched k qs"
    "serve_api E (snd (api_routes ! k)) qs (StatusWriter NetWriter) ?cx rq s = (out', s')"
    using assms(3) by (auto simp: api_router_def split: chi_match.splits)
  have "k < length api_routes" "fst (fst (api_routes ! k)) = rq_method rq \<or> fst (fst (api_routes ! k)) = ''*''"
    using assms(1) k(1) unfolding chi_ok_def by fastforce+
  moreover have "snd (api_routes ! k) \<in> {ToCreate, ToCreateBatch, ToCancel, ToTemplateCreate}"
    using k(2) assms(3) by (cases "snd (api_routes ! k)") (auto simp: serve_api_def)
  ultimately have "rq_method rq \<in> {''POST'', ''PATCH''}"
    by (auto simp: api_routes_def less_Suc_eq nth_Cons')
  with js show ?thesis by blast
qed

theorem safe_methods_witness: "rq_method sample_post = ''POST'' \<and> sublist ''application/json'' (rq_header sample_post ''Content-Type'')"
proof -
  obtain r s' where run: "serve sample_server sample_post (keyed_db [], []) = (Responded r, s')" "length (snd s') = 1"
    using sample_post_run by blast
  have "chi_ok (se_chi sample_server)" by (simp add: sample_server_def sample_find_ok)
  from safe_methods [OF this run(1)] run(2) show ?thesis by (auto simp: sample_post_def)
qed

end
