(* ===== verification/Provider.thy ===== *)
theory Provider
  imports Domain Rfc3339
begin

text \<open>
  Package \<open>internal/provider\<close>: the webhook client. The remote end is an argument: what
  \<open>http.Client.Do\<close> returns for the request, a transport error or a response with a status code
  and a body. The JSON of the request and of the response is written out. The lemmas: what the
  provider says in its JSON is what \<open>Send\<close> returns, and every outcome is classified.
\<close>

section \<open>Data\<close>

record ProviderResponse =
  pr_MessageID :: string
  pr_Status :: string
  pr_Timestamp :: string

text \<open>The two error types of the package, and every other error.\<close>

datatype provider_error =
    RetryableError int string
  | NonRetryableError int string
  | PlainError string

fun provider_Error :: "provider_error \<Rightarrow> string" where
  "provider_Error (RetryableError code msg) = ''retryable error (status '' @ itoa code @ ''): '' @ msg"
| "provider_Error (NonRetryableError code msg) = ''non-retryable error (status '' @ itoa code @ ''): '' @ msg"
| "provider_Error (PlainError msg) = msg"

record webhookRequest =
  wr_To :: string
  wr_Channel :: string
  wr_Content :: string

text \<open>The HTTP request as it leaves: method, URL, content type and body.\<close>

record http_request =
  hr_Method :: string
  hr_URL :: string
  hr_ContentType :: string
  hr_Body :: string

datatype http_outcome = TransportError string | Response int string

record WebhookProvider =
  wp_webhookURL :: string

text \<open>
  The surroundings of one call: the error \<open>http.NewRequestWithContext\<close> reports for a URL it cannot
  parse, the remote end, the current time and its offset from UTC.
\<close>

record send_env =
  se_bad_url :: "string \<Rightarrow> string option"
  se_remote :: "http_request \<Rightarrow> http_outcome"
  se_now :: time
  se_zone :: "time \<Rightarrow> int"

section \<open>JSON\<close>

text \<open>\<open>json.Marshal\<close> of a request: a struct of strings has no encoding error.\<close>

definition marshal_request :: "webhookRequest \<Rightarrow> string + string" where
  "marshal_request r = Inr (object_text
     [(''to'', json_string (wr_To r)), (''channel'', json_string (wr_Channel r)), (''content'', json_string (wr_Content r))])"

definition decode_response_field :: "string \<times> string \<Rightarrow> ProviderResponse \<times> bool \<Rightarrow> ProviderResponse \<times> bool" where
  "decode_response_field m acc =
     (let (name, raw) = m
      in case find_field [''messageId'', ''status'', ''timestamp''] name of
           None \<Rightarrow> acc
         | Some f \<Rightarrow>
             if f = ''messageId'' then set_string raw (\<lambda>s. pr_MessageID_update (\<lambda>_. s)) acc
             else if f = ''status'' then set_string raw (\<lambda>s. pr_Status_update (\<lambda>_. s)) acc
             else set_string raw (\<lambda>s. pr_Timestamp_update (\<lambda>_. s)) acc)"

definition unmarshal_response :: "string \<Rightarrow> ProviderResponse option" where
  "unmarshal_response =
     unmarshal_object decode_response_field \<lparr>pr_MessageID = [], pr_Status = [], pr_Timestamp = []\<rparr>"

section \<open>Send\<close>

definition webhook_request_of :: "Notification \<Rightarrow> webhookRequest" where
  "webhook_request_of n = \<lparr>wr_To = n_Recipient n, wr_Channel = n_Channel n, wr_Content = n_Content n\<rparr>"

definition post_request :: "WebhookProvider \<Rightarrow> string \<Rightarrow> http_request" where
  "post_request p body =
     \<lparr>hr_Method = ''POST'', hr_URL = wp_webhookURL p, hr_ContentType = ''application/json'', hr_Body = body\<rparr>"

text \<open>The \<open>switch\<close> on the status code; \<open>respBody\<close> is at most 1024 bytes of the body.\<close>

definition interpret_response :: "send_env \<Rightarrow> int \<Rightarrow> string \<Rightarrow> provider_error + ProviderResponse" where
  "interpret_response env code respBody =
     (if code \<ge> 200 \<and> code < 300 then
        (case unmarshal_response respBody of
           Some resp \<Rightarrow> Inr resp
         | None \<Rightarrow> Inr \<lparr>pr_MessageID = [], pr_Status = ''accepted'',
             pr_Timestamp = format_rfc3339 False (se_zone env) (se_now env)\<rparr>)
      else if code = 429 then Inl (RetryableError 429 ''provider rate limited'')
      else if code \<ge> 500 then Inl (RetryableError code respBody)
      else if code \<ge> 400 then Inl (NonRetryableError code respBody)
      else Inl (RetryableError code respBody))"

text \<open>\<open>Send\<close> with the request it has put on the wire, if any.\<close>

definition Send ::
    "send_env \<Rightarrow> WebhookProvider \<Rightarrow> Notification \<Rightarrow> (provider_error + ProviderResponse) \<times> http_request option" where
  "Send env p n =
     (case marshal_request (webhook_request_of n) of
        Inl err \<Rightarrow> (Inl (PlainError (''marshaling request: '' @ err)), None)
      | Inr body \<Rightarrow>
          (case se_bad_url env (wp_webhookURL p) of
             Some err \<Rightarrow> (Inl (PlainError (''creating request: '' @ err)), None)
           | None \<Rightarrow>
               (let req = post_request p body
                in (case se_remote env req of
                      TransportError err \<Rightarrow> (Inl (RetryableError 0 err), Some req)
                    | Response code body \<Rightarrow> (interpret_response env code (take 1024 body), Some req)))))"

section \<open>Classification of outcomes\<close>

fun is_retryable :: "provider_error + ProviderResponse \<Rightarrow> bool" where
  "is_retryable (Inl (RetryableError _ _)) = True"
| "is_retryable _ = False"

fun is_non_retryable :: "provider_error + ProviderResponse \<Rightarrow> bool" where
  "is_non_retryable (Inl (NonRetryableError _ _)) = True"
| "is_non_retryable _ = False"

fun is_success :: "provider_error + ProviderResponse \<Rightarrow> bool" where
  "is_success (Inr _) = True"
| "is_success _ = False"

lemma interpret_success: "is_success (interpret_response env code body) \<longleftrightarrow> 200 \<le> code \<and> code < 300"
  by (auto simp: interpret_response_def split: option.splits)

lemma interpret_non_retryable:
  "is_non_retryable (interpret_response env code body) \<longleftrightarrow> 400 \<le> code \<and> code < 500 \<and> code \<noteq> 429"
  by (auto simp: interpret_response_def split: option.splits)

lemma interpret_retryable:
  "is_retryable (interpret_response env code body) \<longleftrightarrow>
     \<not> (200 \<le> code \<and> code < 300) \<and> \<not> (400 \<le> code \<and> code < 500 \<and> code \<noteq> 429)"
  by (auto simp: interpret_response_def split: option.splits)

text \<open>What a provider answers when it writes an id, a status and a time as a JSON object, with anything in them.\<close>

definition response_text :: "ProviderResponse \<Rightarrow> string" where
  "response_text r = object_text
     [(''messageId'', json_string (pr_MessageID r)), (''status'', json_string (pr_Status r)),
      (''timestamp'', json_string (pr_Timestamp r))]"

lemma response_names_valid:
  "to_valid_utf8 ''messageId'' = ''messageId''" "to_valid_utf8 ''status'' = ''status''"
  "to_valid_utf8 ''timestamp'' = ''timestamp''"
  by code_simp+

lemma response_read:
  "unmarshal_response (response_text r) =
     Some \<lparr>pr_MessageID = to_valid_utf8 (pr_MessageID r), pr_Status = to_valid_utf8 (pr_Status r),
           pr_Timestamp = to_valid_utf8 (pr_Timestamp r)\<rparr>"
  unfolding unmarshal_response_def response_text_def
  by (rule unmarshal_written)
    (simp_all add: value_again_json_string response_names_valid decode_response_field_def find_field_def set_json_string
      del: to_valid_utf8.simps)

text \<open>
  C17. \<open>Send\<close> puts exactly one POST request on the wire, once the URL can be parsed, with the
  notification's recipient, channel and content in JSON, and classifies every outcome: a 2xx status is
  success, a 4xx status other than 429 is a permanent failure, and 429, 5xx, every other status and a
  transport error are retryable. Of a successful response of at most 1024 bytes that is an object with
  id, status and time it returns just these (invalid UTF-8 replaced).
\<close>

theorem send_classification:
  assumes "se_bad_url env (wp_webhookURL p) = None"
  shows "\<exists>body. marshal_request (webhook_request_of n) = Inr body \<and> snd (Send env p n) = Some (post_request p body) \<and>
    (case se_remote env (post_request p body) of
       TransportError err \<Rightarrow> fst (Send env p n) = Inl (RetryableError 0 err)
     | Response code rbody \<Rightarrow>
         is_success (fst (Send env p n)) = (200 \<le> code \<and> code < 300) \<and>
         is_non_retryable (fst (Send env p n)) = (400 \<le> code \<and> code < 500 \<and> code \<noteq> 429) \<and>
         is_retryable (fst (Send env p n)) =
           (code < 200 \<or> 300 \<le> code \<and> code < 400 \<or> code = 429 \<or> 500 \<le> code) \<and>
         (\<forall>r. 200 \<le> code \<and> code < 300 \<and> rbody = response_text r \<and> length rbody \<le> 1024 \<longrightarrow>
            fst (Send env p n) = Inr \<lparr>pr_MessageID = to_valid_utf8 (pr_MessageID r),
              pr_Status = to_valid_utf8 (pr_Status r), pr_Timestamp = to_valid_utf8 (pr_Timestamp r)\<rparr>))"
proof -
  obtain body where body: "marshal_request (webhook_request_of n) = Inr body" by (simp add: marshal_request_def)
  have read: "interpret_response env code (response_text r) =
      Inr \<lparr>pr_MessageID = to_valid_utf8 (pr_MessageID r), pr_Status = to_valid_utf8 (pr_Status r),
           pr_Timestamp = to_valid_utf8 (pr_Timestamp r)\<rparr>"
    if "200 \<le> code" "code < 300" for code r
    using that by (simp add: interpret_response_def response_read)
  show ?thesis
    by (cases "se_remote env (post_request p body)")
      (auto simp: Send_def Let_def body assms read interpret_success interpret_non_retryable interpret_retryable)
qed

definition sample_send_env :: "http_outcome \<Rightarrow> send_env" where
  "sample_send_env out = \<lparr>se_bad_url = (\<lambda>_. None), se_remote = (\<lambda>_. out), se_now = 0, se_zone = (\<lambda>_. 0)\<rparr>"

definition sample_response :: ProviderResponse where
  "sample_response = \<lparr>pr_MessageID = ''m1'', pr_Status = ''accepted'', pr_Timestamp = ''2026''\<rparr>"

lemma empty_response [simp]: "unmarshal_response [] = None"
  by code_simp

theorem send_classification_witness:
  "is_non_retryable (fst (Send (sample_send_env (Response 404 ''gone'')) \<lparr>wp_webhookURL = ''http://x''\<rparr> sample_notification)) \<and>
   map_sum id pr_MessageID (fst (Send (sample_send_env (Response 202 (response_text sample_response)))
     \<lparr>wp_webhookURL = ''http://x''\<rparr> sample_notification)) = Inr ''m1''"
proof -
  let ?p = "\<lparr>wp_webhookURL = ''http://x''\<rparr>"
  have url: "se_bad_url (sample_send_env out) (wp_webhookURL ?p) = None" for out by (simp add: sample_send_env_def)
  have short: "length (response_text sample_response) \<le> 1024" "to_valid_utf8 ''m1'' = ''m1''" by code_simp+
  from send_classification [OF url [of "Response 404 ''gone''"], of sample_notification]
    send_classification [OF url [of "Response 202 (response_text sample_response)"], of sample_notification] short
  show ?thesis by (auto simp: sample_send_env_def sample_response_def simp del: to_valid_utf8.simps)
qed

end
