(* ===== verification/Worker.thy ===== *)
theory Worker
  imports Service Message CircuitBreaker RateLimiter Provider PubSub
begin

text \<open>
  Package \<open>internal/worker\<close>: what a worker does with one delivery. The state is the store, the
  circuit breaker of the channel and the token bucket of the channel in Redis; besides the new
  state, \<open>Process\<close> yields what it does to the outside, in order: settling the delivery, status
  updates, the request to the provider, writes to the repository and delays. Every clock reading,
  every fault and every choice of the scheduler is part of the surroundings \<open>process_env\<close>.
\<close>

section \<open>Backoff\<close>

text \<open>
  Shifting the \<open>int64\<close> 1 by an unsigned count: past 63 nothing is left. The product with a second
  wraps around at 64 bits.
\<close>

definition shl_one :: "nat \<Rightarrow> int" where
  "shl_one k = (if k < 64 then wrap64 (2 ^ k) else 0)"

definition calculateBackoff :: "int \<Rightarrow> int \<Rightarrow> int" where
  "calculateBackoff attempt jitter =
     (let base = 1 * second;
          backoff = wrap64 (base * shl_one (nat (attempt mod 2 ^ 64)));
          maxBackoff = 30 * second;
          backoff = (if backoff > maxBackoff then maxBackoff else backoff)
      in wrap64 (backoff + jitter))"

section \<open>Processing a delivery\<close>

record Processor =
  p_provider :: WebhookProvider
  p_limiter :: RateLimiter
  p_maxRetries :: int

record 'st proc_state =
  ps_store :: 'st
  ps_breaker :: CircuitBreaker
  ps_bucket :: "bucket option"

datatype proc_effect =
    DoAck
  | DoNack bool
  | DoPublish "(string \<times> string) list" StatusUpdate
  | DoSend http_request
  | DoRepo string
  | DoDelay int

record process_env =
  pv_get :: call_env
  pv_now :: time
  pv_until :: time
  pv_cancelled :: bool
  pv_mark :: call_env
  pv_pub1 :: pubsub_env
  pv_allow :: "time \<times> time \<times> time"
  pv_wait :: wait_env
  pv_wait_at :: time
  pv_send :: send_env
  pv_record :: time
  pv_retry_now :: time
  pv_jitter :: int
  pv_write :: call_env
  pv_pub2 :: pubsub_env

text \<open>
  \<open>pv_now\<close> and \<open>pv_until\<close> are the two clock readings of the backoff test, \<open>pv_cancelled\<close> says that
  the context was cancelled during the delay, \<open>pv_write\<close> belongs to whichever of \<open>UpdateSent\<close>,
  \<open>UpdateFailed\<close> and \<open>IncrementRetry\<close> is reached.
\<close>

definition status_pub :: "pubsub_env \<Rightarrow> string \<Rightarrow> string \<Rightarrow> string \<Rightarrow> proc_effect" where
  "status_pub env notificationID status channel =
     (let u = NewStatusUpdate env notificationID status channel in DoPublish (PubSub_Publish env u) u)"

text \<open>After the call of the provider: success, retryable failure, permanent failure, anything else.\<close>

definition Process_outcome :: "uuid_pkg \<Rightarrow> 'st NotificationRepository \<Rightarrow> Processor \<Rightarrow> process_env \<Rightarrow> QueueMessage \<Rightarrow>
    uuid \<Rightarrow> Notification \<Rightarrow> provider_error + ProviderResponse \<Rightarrow> 'st proc_state \<Rightarrow> 'st proc_state \<times> proc_effect list" where
  "Process_outcome up R p env msg i notification result s =
     (case result of
        Inr resp \<Rightarrow>
          (let s = s\<lparr>ps_breaker := RecordSuccess (pv_record env) (ps_breaker s)\<rparr>;
               providerMsgID = pr_MessageID resp;
               (_, st) = repo_UpdateSent R (pv_write env) i providerMsgID (ps_store s)
           in (s\<lparr>ps_store := st\<rparr>,
               [DoRepo ''UpdateSent'', DoAck, status_pub (pv_pub2 env) (uuid_String up i) StatusSent (qm_Channel msg)]))
      | Inl (RetryableError code message) \<Rightarrow>
          (let s = s\<lparr>ps_breaker := RecordFailure (pv_record env) (ps_breaker s)\<rparr>
           in if n_RetryCount notification < p_maxRetries p then
                (let nextRetry = pv_retry_now env + calculateBackoff (n_RetryCount notification) (pv_jitter env);
                     (_, st) = repo_IncrementRetry R (pv_write env) i nextRetry (ps_store s)
                 in (s\<lparr>ps_store := st\<rparr>, [DoRepo ''IncrementRetry'', DoNack True]))
              else
                (let errMsg = ''max retries exceeded: '' @ message;
                     (_, st) = repo_UpdateFailed R (pv_write env) i errMsg (ps_store s)
                 in (s\<lparr>ps_store := st\<rparr>,
                     [DoRepo ''UpdateFailed'', DoNack False,
                      status_pub (pv_pub2 env) (uuid_String up i) StatusFailed (qm_Channel msg)])))
      | Inl (NonRetryableError code message) \<Rightarrow>
          (let s = s\<lparr>ps_breaker := RecordFailure (pv_record env) (ps_breaker s)\<rparr>;
               errMsg = ''permanent failure (HTTP '' @ itoa code @ ''): '' @ message;
               (_, st) = repo_UpdateFailed R (pv_write env) i errMsg (ps_store s)
           in (s\<lparr>ps_store := st\<rparr>,
               [DoRepo ''UpdateFailed'', DoNack False,
                status_pub (pv_pub2 env) (uuid_String up i) StatusFailed (qm_Channel msg)]))
      | Inl (PlainError _) \<Rightarrow>
          (s\<lparr>ps_breaker := RecordFailure (pv_record env) (ps_breaker s)\<rparr>, [DoNack True]))"

text \<open>From marking the row \<open>processing\<close> to the call of the provider.\<close>

definition Process_deliver :: "uuid_pkg \<Rightarrow> 'st NotificationRepository \<Rightarrow> Processor \<Rightarrow> process_env \<Rightarrow> QueueMessage \<Rightarrow>
    uuid \<Rightarrow> Notification \<Rightarrow> 'st proc_state \<Rightarrow> 'st proc_state \<times> proc_effect list" where
  "Process_deliver up R p env msg i notification s =
     (case repo_UpdateStatus R (pv_mark env) i StatusProcessing (ps_store s) of
        (Some _, st) \<Rightarrow> (s\<lparr>ps_store := st\<rparr>, [DoRepo ''UpdateStatus'', DoNack True])
      | (None, st) \<Rightarrow>
          (let s = s\<lparr>ps_store := st\<rparr>;
               marked = [DoRepo ''UpdateStatus'',
                  status_pub (pv_pub1 env) (uuid_String up i) StatusProcessing (qm_Channel msg)];
               (t0, t1, t2) = pv_allow env;
               (allowed, cb) = Allow t0 t1 t2 (ps_breaker s);
               s = s\<lparr>ps_breaker := cb\<rparr>
           in if \<not> allowed then (s, marked @ [DoNack True, DoDelay (1 * second)])
              else
                (let (err, bkt, _) = Wait (p_limiter p) (pv_wait env) (pv_wait_at env) (ps_bucket s);
                     s = s\<lparr>ps_bucket := bkt\<rparr>
                 in if err \<noteq> None then (s, marked @ [DoNack True])
                    else
                      (let (result, req) = Send (pv_send env) (p_provider p) notification;
                           (s, effects) = Process_outcome up R p env msg i notification result s
                       in (s, marked @ (case req of None \<Rightarrow> [] | Some r \<Rightarrow> [DoSend r]) @ effects)))))"

definition Process :: "uuid_pkg \<Rightarrow> 'st NotificationRepository \<Rightarrow> Processor \<Rightarrow> process_env \<Rightarrow> string \<Rightarrow>
    'st proc_state \<Rightarrow> 'st proc_state \<times> proc_effect list" where
  "Process up R p env body s =
     (case unmarshal_message body of
        None \<Rightarrow> (s, [DoAck])
      | Some msg \<Rightarrow>
          (case uuid_Parse up (qm_ID msg) of
             None \<Rightarrow> (s, [DoAck])
           | Some i \<Rightarrow>
               (case repo_GetByID R (pv_get env) i (ps_store s) of
                  Inl _ \<Rightarrow> (s, [DoNack True])
                | Inr notification \<Rightarrow>
                    (case n_NextRetryAt notification of
                       None \<Rightarrow> Process_deliver up R p env msg i notification s
                     | Some due \<Rightarrow>
                         if pv_now env < due then
                           (let delay = due - pv_until env
                            in if pv_cancelled env then (s, [DoDelay delay, DoNack True])
                               else (let (s, effects) = Process_deliver up R p env msg i notification s
                                     in (s, DoDelay delay # effects)))
                         else Process_deliver up R p env msg i notification s))))"

section \<open>The delay before a retry\<close>

lemma backoff_small:
  assumes "0 \<le> attempt" "attempt \<le> 33" "0 \<le> jitter" "jitter < 500 * millisecond"
  shows "calculateBackoff attempt jitter = min (second * 2 ^ nat attempt) (30 * second) + jitter \<and>
    second \<le> calculateBackoff attempt jitter \<and> 2 * calculateBackoff attempt jitter < 61 * second"
proof -
  define v :: int where "v = 2 ^ nat attempt"
  have "(2::int) ^ nat attempt \<le> 2 ^ 33" using assms by (intro power_increasing) auto
  then have v: "1 \<le> v" "v \<le> 8589934592" by (simp_all add: v_def)
  have "attempt mod 2 ^ 64 = attempt" "nat attempt < 64" using assms(1,2) by simp_all
  moreover have "wrap64 v = v" using v by (simp add: wrap64_id in_int64_def)
  ultimately have "shl_one (nat (attempt mod 2 ^ 64)) = v"
    unfolding shl_one_def v_def by simp
  moreover have "wrap64 (1 * second * v) = second * v"
    using v by (simp add: wrap64_id in_int64_def)
  ultimately have eq: "calculateBackoff attempt jitter = min (second * v) (30 * second) + jitter"
    unfolding calculateBackoff_def Let_def using assms(3,4) v by (auto simp: wrap64_id in_int64_def min_def)
  show ?thesis
    unfolding eq v_def [symmetric] using v(1) assms(3,4) by (auto simp: min_def)
qed

lemma backoff_large:
  assumes "0 \<le> jitter" "jitter < 500 * millisecond"
  shows "calculateBackoff 34 jitter < 0 \<and>
    (\<forall>attempt. 55 \<le> attempt \<and> attempt < 2 ^ 63 \<longrightarrow> calculateBackoff attempt jitter = jitter)"
proof (intro conjI allI impI)
  show "calculateBackoff 34 jitter < 0"
    using assms by (simp add: calculateBackoff_def shl_one_def wrap64_def Let_def)
next
  fix attempt :: int assume a: "55 \<le> attempt \<and> attempt < 2 ^ 63"
  then have "attempt mod 2 ^ 64 = attempt" by simp
  moreover have "wrap64 (second * shl_one (nat attempt)) = 0"
  proof (cases "attempt < 64")
    case True
    with a have "nat attempt \<in> {55, 56, 57, 58, 59, 60, 61, 62, 63}" by auto
    then show ?thesis by (auto simp: shl_one_def wrap64_def)
  next
    case False
    then show ?thesis by (simp add: shl_one_def wrap64_def)
  qed
  ultimately show "calculateBackoff attempt jitter = jitter"
    using assms by (simp add: calculateBackoff_def Let_def wrap64_id in_int64_def)
qed

text \<open>
  C27. The delay before the next retry. For the attempts 0 to 33 it is \<open>2\<close> to the attempt in seconds, at
  most 30, plus the jitter, so between one second and 30.5. From 34 on the 64-bit product overflows: at
  34 the delay is negative, so that the next retry is due in the past, and from 55 on nothing is left of
  it but the jitter.
\<close>

theorem backoff_by_attempt:
  assumes "0 \<le> jitter" "jitter < 500 * millisecond"
  shows "(\<forall>attempt. 0 \<le> attempt \<and> attempt \<le> 33 \<longrightarrow>
      calculateBackoff attempt jitter = min (second * 2 ^ nat attempt) (30 * second) + jitter \<and>
      second \<le> calculateBackoff attempt jitter \<and> 2 * calculateBackoff attempt jitter < 61 * second) \<and>
    calculateBackoff 34 jitter < 0 \<and>
    (\<forall>attempt. 55 \<le> attempt \<and> attempt < 2 ^ 63 \<longrightarrow> calculateBackoff attempt jitter = jitter)"
  using backoff_small [OF _ _ assms] backoff_large [OF assms] by blast

theorem backoff_by_attempt_witness:
  "calculateBackoff 4 7 = 16000000007 \<and> calculateBackoff 5 7 = 30000000007 \<and> calculateBackoff 34 7 < 0 \<and>
   calculateBackoff 60 7 = 7"
proof -
  note b = backoff_by_attempt [of 7]
  have "calculateBackoff 4 7 = min (second * 2 ^ nat 4) (30 * second) + 7"
    "calculateBackoff 5 7 = min (second * 2 ^ nat 5) (30 * second) + 7" using b by simp_all
  moreover have "calculateBackoff 34 7 < 0" "calculateBackoff 60 7 = 7" using b by simp_all
  ultimately show ?thesis by simp
qed

section \<open>Settling\<close>

fun is_settle :: "proc_effect \<Rightarrow> bool" where
  "is_settle DoAck = True"
| "is_settle (DoNack _) = True"
| "is_settle _ = False"

fun is_send :: "proc_effect \<Rightarrow> bool" where
  "is_send (DoSend _) = True"
| "is_send _ = False"

lemma status_pub_plain [simp]: "\<not> is_settle (status_pub e i st ch)" "\<not> is_send (status_pub e i st ch)"
  "status_pub e i st ch \<noteq> DoAck" "status_pub e i st ch \<noteq> DoNack b" "DoNack b \<noteq> status_pub e i st ch"
  by (simp_all add: status_pub_def Let_def)

lemma outcome_settles:
  "length (filter is_settle (snd (Process_outcome up R p env msg i n result s))) = 1 \<and>
   filter is_send (snd (Process_outcome up R p env msg i n result s)) = []"
  by (auto simp: Process_outcome_def Let_def split: sum.split provider_error.split prod.split)

lemma outcome_no_send: "Process_outcome up R p env msg i n result s = (s', eff) \<Longrightarrow> filter is_send eff = []"
  by (metis outcome_settles snd_conv)

lemma deliver_settles:
  "length (filter is_settle (snd (Process_deliver up R p env msg i n s))) = 1 \<and>
   length (filter is_send (snd (Process_deliver up R p env msg i n s))) \<le> 1"
  by (simp add: Process_deliver_def Let_def split_beta outcome_settles [simplified] split: option.split)

lemma process_settles_one: "length (filter is_settle (snd (Process up R p env body s))) = 1"
  by (simp add: Process_def Let_def split_beta deliver_settles [simplified] split: sum.split option.split)

lemma process_sends: "length (filter is_send (snd (Process up R p env body s))) \<le> 1"
  by (simp add: Process_def Let_def split_beta deliver_settles [simplified] split: sum.split option.split)

text \<open>
  C28. Whatever happens, one call of \<open>Process\<close> settles its delivery exactly once, by an
  acknowledgement or a rejection, and calls the provider at most once.
\<close>

theorem process_settles_once:
  "length (filter is_settle (snd (Process up R p env body s))) = 1 \<and>
   length (filter is_send (snd (Process up R p env body s))) \<le> 1"
  using process_settles_one process_sends by blast

section \<open>The row a delivery is about\<close>

definition outcome_write :: "int \<Rightarrow> Notification \<Rightarrow> (Notification \<Rightarrow> Notification) \<Rightarrow> bool" where
  "outcome_write maxRetries n f \<longleftrightarrow> (\<exists>m t. f = set_sent m t) \<or> (\<exists>m t. f = set_failed m t) \<or>
     (n_RetryCount n < maxRetries \<and> (\<exists>d t. f = set_retry d t))"

text \<open>
  What may become of a row: nothing, \<open>processing\<close>, or \<open>processing\<close> and then one of the three outcomes,
  a retry only below the limit.
\<close>

definition processed :: "int \<Rightarrow> Notification \<Rightarrow> Notification \<Rightarrow> bool" where
  "processed maxRetries n n' \<longleftrightarrow> n' = n \<or> (\<exists>t. n' = set_status StatusProcessing t n \<or>
     (\<exists>f. outcome_write maxRetries n f \<and> n' = f (set_status StatusProcessing t n)))"

definition row_processed :: "int \<Rightarrow> uuid \<Rightarrow> (uuid \<rightharpoonup> Notification) \<Rightarrow> (uuid \<rightharpoonup> Notification) \<Rightarrow> bool" where
  "row_processed maxRetries i m m' \<longleftrightarrow> frame {i} m m' \<and>
     (case m i of None \<Rightarrow> m' i = None | Some n \<Rightarrow> \<exists>n'. m' i = Some n' \<and> processed maxRetries n n')"

lemma row_processed_refl: "row_processed k i m m"
  by (auto simp: row_processed_def frame_def processed_def split: option.splits)

lemma row_processed_marked:
  "row_write m m' i (set_status StatusProcessing t) must \<Longrightarrow> row_processed k i m m'"
  by (auto simp: row_processed_def row_write_def frame_def processed_def split: option.splits)

lemma processed_outcome: "outcome_write k n f \<Longrightarrow> processed k n (f (set_status StatusProcessing t n))"
  unfolding processed_def by blast

lemma row_processed_outcome:
  assumes "row_write m m1 i (set_status StatusProcessing t) True" "row_write m1 m' i f must" "outcome_write k n f"
    "m i = Some n"
  shows "row_processed k i m m'"
proof -
  have "m1 = m(i \<mapsto> set_status StatusProcessing t n)"
    using row_write_must [OF assms(1)] assms(4) by auto
  with assms(2,4) processed_outcome [OF assms(3)] show ?thesis
    by (auto simp: row_processed_def row_write_def frame_def) (simp add: processed_def, blast)
qed

text \<open>
  The deliveries of one message: it is delivered again as long as it is requeued, in surroundings
  of its own each time.
\<close>

fun redeliver :: "uuid_pkg \<Rightarrow> 'st NotificationRepository \<Rightarrow> Processor \<Rightarrow> process_env list \<Rightarrow> string \<Rightarrow>
    'st proc_state \<Rightarrow> 'st proc_state \<times> proc_effect list" where
  "redeliver up R p [] body s = (s, [])"
| "redeliver up R p (env # envs) body s =
     (let (s1, eff1) = Process up R p env body s
      in if DoNack True \<in> set eff1
         then (let (s2, eff2) = redeliver up R p envs body s1 in (s2, eff1 @ eff2))
         else (s1, eff1))"

lemma Send_request:
  "Send env p n = (result, req) \<Longrightarrow>
   (case result of Inl (PlainError _) \<Rightarrow> req = None | _ \<Rightarrow> (\<exists>r. req = Some r))"
  by (auto simp: Send_def Let_def interpret_response_def split: sum.splits option.splits http_outcome.splits if_splits)

text \<open>The four ways through the middle part, for any repository.\<close>

definition allow_call :: "process_env \<Rightarrow> CircuitBreaker \<Rightarrow> bool \<times> CircuitBreaker" where
  "allow_call env cb = (case pv_allow env of (t0, t1, t2) \<Rightarrow> Allow t0 t1 t2 cb)"

definition wait_call :: "Processor \<Rightarrow> process_env \<Rightarrow> bucket option \<Rightarrow> go_error option \<times> bucket option \<times> nat \<times> time" where
  "wait_call p env b = Wait (p_limiter p) (pv_wait env) (pv_wait_at env) b"

definition marked_effects :: "uuid_pkg \<Rightarrow> process_env \<Rightarrow> QueueMessage \<Rightarrow> uuid \<Rightarrow> proc_effect list" where
  "marked_effects up env msg i =
     [DoRepo ''UpdateStatus'', status_pub (pv_pub1 env) (uuid_String up i) StatusProcessing (qm_Channel msg)]"

definition send_effects :: "http_request option \<Rightarrow> proc_effect list" where
  "send_effects req = (case req of None \<Rightarrow> [] | Some r \<Rightarrow> [DoSend r])"

lemma effects_plain [simp]:
  "filter is_settle (marked_effects up env msg i) = []" "filter is_send (marked_effects up env msg i) = []"
  "DoNack b \<notin> set (marked_effects up env msg i)" "filter is_settle (send_effects req) = []"
  "DoNack b \<notin> set (send_effects req)" "filter is_send (send_effects req) = send_effects req"
  by (auto simp: marked_effects_def send_effects_def split: option.splits)

lemma deliver_cases [consumes 1, case_names unmarked denied limited called]:
  assumes "Process_deliver up R p env msg i n s = (s', eff)"
  obtains e st where "repo_UpdateStatus R (pv_mark env) i StatusProcessing (ps_store s) = (Some e, st)"
      "s' = s\<lparr>ps_store := st\<rparr>" "eff = [DoRepo ''UpdateStatus'', DoNack True]"
  | st cb where "repo_UpdateStatus R (pv_mark env) i StatusProcessing (ps_store s) = (None, st)"
      "allow_call env (ps_breaker s) = (False, cb)" "s' = s\<lparr>ps_store := st, ps_breaker := cb\<rparr>"
      "eff = marked_effects up env msg i @ [DoNack True, DoDelay (1 * second)]"
  | st cb e b k where "repo_UpdateStatus R (pv_mark env) i StatusProcessing (ps_store s) = (None, st)"
      "allow_call env (ps_breaker s) = (True, cb)" "wait_call p env (ps_bucket s) = (Some e, b, k)"
      "s' = s\<lparr>ps_store := st, ps_breaker := cb, ps_bucket := b\<rparr>" "eff = marked_effects up env msg i @ [DoNack True]"
  | st cb b k result req eff' where "repo_UpdateStatus R (pv_mark env) i StatusProcessing (ps_store s) = (None, st)"
      "allow_call env (ps_breaker s) = (True, cb)" "wait_call p env (ps_bucket s) = (None, b, k)"
      "Send (pv_send env) (p_provider p) n = (result, req)"
      "Process_outcome up R p env msg i n result (s\<lparr>ps_store := st, ps_breaker := cb, ps_bucket := b\<rparr>) = (s', eff')"
      "eff = marked_effects up env msg i @ send_effects req @ eff'"
proof -
  obtain e st where mark: "repo_UpdateStatus R (pv_mark env) i StatusProcessing (ps_store s) = (e, st)" by force
  obtain t0 t1 t2 where ts: "pv_allow env = (t0, t1, t2)" by (metis prod_cases3)
  obtain ok cb where al: "Allow t0 t1 t2 (ps_breaker s) = (ok, cb)" by force
  obtain err b k where wt: "Wait (p_limiter p) (pv_wait env) (pv_wait_at env) (ps_bucket s) = (err, b, k)"
    by (metis prod_cases3)
  obtain result req where sd: "Send (pv_send env) (p_provider p) n = (result, req)" by force
  obtain s2 eff' where po: "Process_outcome up R p env msg i n result
      (s\<lparr>ps_store := st, ps_breaker := cb, ps_bucket := b\<rparr>) = (s2, eff')" by force
  note calls = mark ts al wt sd po allow_call_def wait_call_def marked_effects_def send_effects_def
  show thesis
  proof (cases e)
    case (Some e')
    with assms show thesis by (intro that(1)) (auto simp: calls Process_deliver_def)
  next
    case None
    show thesis
    proof (cases ok)
      case False
      with assms None show thesis by (intro that(2)) (auto simp: calls Process_deliver_def)
    next
      case True
      show thesis
      proof (cases err)
        case (Some e')
        with assms None True show thesis by (intro that(3)) (auto simp: calls Process_deliver_def)
      next
        case noerr: None
        with assms None True show thesis by (intro that(4)) (auto simp: calls Process_deliver_def)
      qed
    qed
  qed
qed

lemma process_cases [consumes 1, case_names bad unknown interrupted delivered]:
  assumes "Process up R p env body s = (s', eff)"
  obtains "s' = s" "eff = [DoAck]"
      "unmarshal_message body = None \<or> (\<exists>msg. unmarshal_message body = Some msg \<and> uuid_Parse up (qm_ID msg) = None)"
  | msg i e where "unmarshal_message body = Some msg" "uuid_Parse up (qm_ID msg) = Some i"
      "repo_GetByID R (pv_get env) i (ps_store s) = Inl e" "s' = s" "eff = [DoNack True]"
  | msg i n d where "unmarshal_message body = Some msg" "uuid_Parse up (qm_ID msg) = Some i"
      "repo_GetByID R (pv_get env) i (ps_store s) = Inr n" "s' = s" "pv_cancelled env" "eff = [DoDelay d, DoNack True]"
  | msg i n delays eff' where "unmarshal_message body = Some msg" "uuid_Parse up (qm_ID msg) = Some i"
      "repo_GetByID R (pv_get env) i (ps_store s) = Inr n" "delays = [] \<or> (\<exists>d. delays = [DoDelay d])"
      "Process_deliver up R p env msg i n s = (s', eff')" "eff = delays @ eff'"
proof (cases "\<exists>msg i n. unmarshal_message body = Some msg \<and> uuid_Parse up (qm_ID msg) = Some i \<and>
    repo_GetByID R (pv_get env) i (ps_store s) = Inr n")
  case False
  with assms show thesis
    by (auto simp: Process_def split: sum.splits option.splits intro: that(1,2))
next
  case True
  then obtain msg i n where get: "unmarshal_message body = Some msg" "uuid_Parse up (qm_ID msg) = Some i"
    "repo_GetByID R (pv_get env) i (ps_store s) = Inr n" by blast
  obtain s2 eff' where dl: "Process_deliver up R p env msg i n s = (s2, eff')" by force
  consider "pv_cancelled env" "\<exists>d. eff = [DoDelay d, DoNack True]" "s' = s"
    | "s' = s2" "eff = eff'" | d where "s' = s2" "eff = DoDelay d # eff'"
    using assms get dl by (auto simp: Process_def Let_def split: option.splits if_splits)
  then show thesis
    by cases (use get dl that(3) that(4) in \<open>fastforce+\<close>)
qed

text \<open>What each outcome of the provider leads to when the repository does not fail;
  \<open>stamp\<close> and \<open>txt_of\<close> are the forms in which the store keeps an instant and a text.\<close>

definition outcome_row_is :: "(time \<Rightarrow> time) \<Rightarrow> (string \<Rightarrow> string) \<Rightarrow> Processor \<Rightarrow> process_env \<Rightarrow> Notification \<Rightarrow> provider_error + ProviderResponse \<Rightarrow>
    Notification option \<Rightarrow> proc_effect list \<Rightarrow> bool" where
  "outcome_row_is stamp txt_of p env n result row settled \<longleftrightarrow>
     (let q = set_status StatusProcessing (ce_now (pv_mark env)) n; t = ce_now (pv_write env)
      in case result of
           Inr resp \<Rightarrow> settled = [DoAck] \<and>
             (utf8_length (pr_MessageID resp) \<le> 255 \<longrightarrow> row = Some (set_sent (txt_of (pr_MessageID resp)) t q))
         | Inl (RetryableError code msg) \<Rightarrow>
             if n_RetryCount n < p_maxRetries p
             then settled = [DoNack True] \<and> (n_RetryCount n < 2 ^ 31 - 1 \<longrightarrow>
               row = Some (set_retry (stamp (pv_retry_now env + calculateBackoff (n_RetryCount n) (pv_jitter env))) t q))
             else settled = [DoNack False] \<and> row = Some (set_failed (''max retries exceeded: '' @ msg) t q)
         | Inl (NonRetryableError code msg) \<Rightarrow> settled = [DoNack False] \<and>
             row = Some (set_failed (''permanent failure (HTTP '' @ itoa code @ ''): '' @ msg) t q)
         | Inl (PlainError msg) \<Rightarrow> settled = [DoNack True] \<and> row = Some q)"

lemma outcome_requeued:
  assumes "outcome_row_is stamp txt_of p env n result row settled" "DoNack True \<in> set settled"
  shows "(\<exists>c m r. result = Inl (RetryableError c m) \<and> n_RetryCount n < p_maxRetries p \<and>
      (n_RetryCount n < 2 ^ 31 - 1 \<longrightarrow> row = Some r \<and> n_RetryCount r = n_RetryCount n + 1)) \<or>
    (\<exists>m r. result = Inl (PlainError m) \<and> row = Some r \<and> n_RetryCount r = n_RetryCount n)"
proof (cases result)
  case (Inr resp)
  with assms show ?thesis by (auto simp: outcome_row_is_def Let_def)
next
  case (Inl e)
  with assms show ?thesis
    by (cases e) (auto simp: outcome_row_is_def Let_def set_retry_def split: if_splits)
qed

context notification_store
begin

lemma outcome_row:
  assumes "wf (ps_store s)" "Process_outcome up R p env msg i n result s = (s', eff)"
  shows "wf (ps_store s') \<and>
    (\<exists>f must. outcome_write (p_maxRetries p) n f \<and> row_write (rows (ps_store s)) (rows (ps_store s')) i f must)"
proof -
  have same: "row_write m m j f False" for m j f by (simp add: row_write_def)
  consider (sent) m e where "repo_UpdateSent R (pv_write env) i m (ps_store s) = (e, ps_store s')"
    | (failed) m e where "repo_UpdateFailed R (pv_write env) i m (ps_store s) = (e, ps_store s')"
    | (retry) t e where "n_RetryCount n < p_maxRetries p"
        "repo_IncrementRetry R (pv_write env) i t (ps_store s) = (e, ps_store s')"
    | (none) "ps_store s' = ps_store s"
    using assms(2)
    by (auto simp: Process_outcome_def Let_def split: sum.splits provider_error.splits prod.splits if_splits)
  then show ?thesis
  proof cases
    case sent
    from sent_writes [OF assms(1) this] show ?thesis unfolding outcome_write_def by blast
  next
    case failed
    from failed_writes [OF assms(1) this] show ?thesis unfolding outcome_write_def by blast
  next
    case retry
    from retry_writes [OF assms(1) this(2)] retry(1) show ?thesis unfolding outcome_write_def by blast
  next
    case none
    then show ?thesis unfolding none outcome_write_def using assms(1) same by blast
  qed
qed

lemma deliver_row:
  assumes "wf (ps_store s)" "rows (ps_store s) i = Some n" "Process_deliver up R p env msg i n s = (s', eff)"
  shows "wf (ps_store s') \<and> row_processed (p_maxRetries p) i (rows (ps_store s)) (rows (ps_store s'))"
proof -
  obtain e st where mark: "repo_UpdateStatus R (pv_mark env) i StatusProcessing (ps_store s) = (e, st)" by force
  from status_writes [OF assms(1) mark] have st: "wf st"
    "row_write (rows (ps_store s)) (rows st) i (set_status StatusProcessing (ce_now (pv_mark env))) (e = None)" by auto
  from assms(3) show ?thesis
  proof (cases rule: deliver_cases)
    case (called st' cb b k result req eff')
    then have st': "st' = st" "e = None" using mark by simp_all
    then obtain f must where out: "wf (ps_store s')" "outcome_write (p_maxRetries p) n f"
      "row_write (rows st) (rows (ps_store s')) i f must"
      using outcome_row [OF _ called(5)] st(1) by auto
    have "row_write (rows (ps_store s)) (rows st) i (set_status StatusProcessing (ce_now (pv_mark env))) True"
      using st(2) st'(2) by simp
    from row_processed_outcome [OF this out(3,2) assms(2)] out(1) show ?thesis by blast
  qed (use st mark row_processed_marked in auto)
qed

lemma process_row:
  assumes "wf (ps_store s)" "Process up R p env body s = (s', eff)"
  shows "wf (ps_store s') \<and>
    (case unmarshal_message body of
       None \<Rightarrow> s' = s
     | Some msg \<Rightarrow> (case uuid_Parse up (qm_ID msg) of
         None \<Rightarrow> s' = s
       | Some i \<Rightarrow> row_processed (p_maxRetries p) i (rows (ps_store s)) (rows (ps_store s'))))"
  using assms(2)
proof (cases rule: process_cases)
  case (delivered msg i n delays eff')
  from deliver_row [OF assms(1) get_sound [OF assms(1) delivered(3)] delivered(5)] show ?thesis
    by (simp add: delivered(1,2))
qed (use assms(1) row_processed_refl in \<open>auto split: sum.splits option.splits\<close>)

lemma write_outcome:
  assumes "wf st" "rows st i = Some q" "faultless ce"
  shows "utf8_length m \<le> 255 \<Longrightarrow> rows (snd (repo_UpdateSent R ce i m st)) i = Some (set_sent (txt_of m) (ce_now ce) q)"
    "rows (snd (repo_UpdateFailed R ce i m st)) i = Some (set_failed m (ce_now ce) q)"
    "n_RetryCount q < 2 ^ 31 - 1 \<Longrightarrow>
     rows (snd (repo_IncrementRetry R ce i d st)) i = Some (set_retry (stamp d) (ce_now ce) q)"
  using assms sent_complete [OF assms(1,3,2), of m] sent_writes [OF assms(1), of ce i m]
    failed_complete [OF assms(1,3,2), of m] failed_writes [OF assms(1), of ce i m]
    retry_complete [OF assms(1,3,2), of d] retry_writes [OF assms(1), of ce i d]
  by (auto dest!: row_write_must simp: prod_eq_iff) 

lemma outcome_written:
  assumes "wf (ps_store s)" "rows (ps_store s) i = Some (set_status StatusProcessing (ce_now (pv_mark env)) n)"
    and "faultless (pv_write env)" "Process_outcome up R p env msg i n result s = (s', eff)"
  shows "outcome_row_is stamp txt_of p env n result (rows (ps_store s') i) (filter is_settle eff)"
  using assms(2,4) write_outcome [OF assms(1-3)]
  by (auto simp: outcome_row_is_def Process_outcome_def Let_def split_beta
      split: sum.splits provider_error.splits if_splits)

lemma process_outcomes:
  assumes "wf (ps_store s)" "unmarshal_message body = Some msg" "uuid_Parse up (qm_ID msg) = Some i"
    "rows (ps_store s) i = Some n" "faultless (pv_get env)" "faultless (pv_mark env)" "faultless (pv_write env)"
    "\<not> pv_cancelled env" "fst (allow_call env (ps_breaker s))" "fst (wait_call p env (ps_bucket s)) = None"
    "Process up R p env body s = (s', eff)"
  shows "outcome_row_is stamp txt_of p env n (fst (Send (pv_send env) (p_provider p) n)) (rows (ps_store s') i)
    (filter is_settle eff) \<and> filter is_send eff = send_effects (snd (Send (pv_send env) (p_provider p) n))"
proof -
  have get: "repo_GetByID R (pv_get env) i (ps_store s) = Inr n"
    by (rule get_complete [OF assms(1,5,4)])
  have mark: "fst (repo_UpdateStatus R (pv_mark env) i StatusProcessing (ps_store s)) = None"
    using status_complete [OF assms(1,6,4)] by (simp add: legal_status_def)
  from assms(11) obtain delays eff' where dl: "Process_deliver up R p env msg i n s = (s', eff')"
    and eff: "eff = delays @ eff'" "delays = [] \<or> (\<exists>d. delays = [DoDelay d])"
    by (cases rule: process_cases) (use assms(2,3,8) get in auto)
  from dl show ?thesis
  proof (cases rule: deliver_cases)
    case (called st cb b k result req eff2)
    from status_written [OF assms(1) called(1)] assms(4)
    have row: "rows st i = Some (set_status StatusProcessing (ce_now (pv_mark env)) n)" by auto
    have "wf st" using status_writes [OF assms(1) called(1)] by simp
    with outcome_written [OF _ _ assms(7) called(5)] row
    have "outcome_row_is stamp txt_of p env n result (rows (ps_store s') i) (filter is_settle eff2)" by simp
    then show ?thesis using eff called(4,6) outcome_no_send [OF called(5)] by auto
  qed (use mark assms(9,10) in simp_all)
qed

lemma requeue_counts:
  assumes "wf (ps_store s)" "unmarshal_message body = Some msg" "uuid_Parse up (qm_ID msg) = Some i"
    "rows (ps_store s) i = Some n" "faultless (pv_write env)" "p_maxRetries p < 2 ^ 31"
    "Process up R p env body s = (s', eff)" "DoNack True \<in> set eff"
  shows "\<exists>n'. rows (ps_store s') i = Some n' \<and>
    n_RetryCount n' = n_RetryCount n + int (length (filter is_send eff)) \<and>
    (filter is_send eff \<noteq> [] \<longrightarrow> n_RetryCount n < p_maxRetries p)"
  using assms(7)
proof (cases rule: process_cases)
  case bad
  with assms(8) show ?thesis by simp
next
  case (unknown msg' i' e)
  with assms(4) show ?thesis by simp
next
  case (interrupted msg' i' n' d)
  with assms(4) show ?thesis by simp
next
  case (delivered msg' i' n0 delays eff')
  then have same: "msg' = msg" "i' = i" "n0 = n"
    using assms(2,3,4) get_sound [OF assms(1) delivered(3)] by auto
  have eff: "filter is_send eff = filter is_send eff'" "DoNack True \<in> set eff'"
    using delivered(4,6) assms(8) by auto
  from delivered(5) show ?thesis
    unfolding same
  proof (cases rule: deliver_cases)
    case (unmarked e st)
    from row_write_at [OF conjunct2 [OF status_writes [OF assms(1) unmarked(1)]] assms(4)] unmarked eff
    show ?thesis by auto
  next
    case (denied st cb)
    from row_write_at [OF conjunct2 [OF status_writes [OF assms(1) denied(1)]] assms(4)] denied eff
    show ?thesis by auto
  next
    case (limited st cb e b k)
    from row_write_at [OF conjunct2 [OF status_writes [OF assms(1) limited(1)]] assms(4)] limited eff
    show ?thesis by auto
  next
    case (called st cb b k result req eff2)
    from status_written [OF assms(1) called(1)] assms(4)
    have row: "rows st i = Some (set_status StatusProcessing (ce_now (pv_mark env)) n)" by auto
    have "wf st" using status_writes [OF assms(1) called(1)] by simp
    with outcome_written [OF _ _ assms(5) called(5)] row
    have out: "outcome_row_is stamp txt_of p env n result (rows (ps_store s') i) (filter is_settle eff2)" by simp
    have settle: "DoNack True \<in> set (filter is_settle eff2)" "filter is_send eff2 = []"
      using eff(2) called(6) outcome_no_send [OF called(5)] by auto
    have req: "length (send_effects req) \<le> 1" "\<And>m. result = Inl (PlainError m) \<Longrightarrow> req = None"
      "\<And>c m. result = Inl (RetryableError c m) \<Longrightarrow> send_effects req \<noteq> []"
      using Send_request [OF called(4)] by (auto simp: send_effects_def split: option.splits)
    have sends: "filter is_send eff = send_effects req" using eff(1) called(6) settle(2) by simp
    from outcome_requeued [OF out settle(1)] show ?thesis
      unfolding sends using req assms(6) by (cases "send_effects req") (auto simp: send_effects_def)
  qed
qed

lemma redeliver_sends:
  assumes "uuid_Parse up (qm_ID msg) = Some i" "p_maxRetries p < 2 ^ 31" "unmarshal_message body = Some msg"
  shows "\<lbrakk>list_all (\<lambda>env. faultless (pv_write env)) envs;
      wf (ps_store s); rows (ps_store s) i = Some n\<rbrakk> \<Longrightarrow>
    length (filter is_send (snd (redeliver up R p envs body s))) \<le> nat (p_maxRetries p - n_RetryCount n) + 1"
proof (induction envs arbitrary: s n)
  case Nil
  then show ?case by simp
next
  case (Cons env envs)
  obtain s1 eff1 where run: "Process up R p env body s = (s1, eff1)" by force
  have one: "length (filter is_send eff1) \<le> 1"
    using process_sends [of up R p env body s] run by simp
  show ?case
  proof (cases "DoNack True \<in> set eff1")
    case False
    with run one show ?thesis by simp
  next
    case True
    have env: "faultless (pv_write env)" using Cons.prems(1) by simp
    from requeue_counts [OF Cons.prems(2) assms(3,1) Cons.prems(3) env assms(2) run True]
    obtain n1 where n1: "rows (ps_store s1) i = Some n1"
      "n_RetryCount n1 = n_RetryCount n + int (length (filter is_send eff1))"
      "filter is_send eff1 \<noteq> [] \<longrightarrow> n_RetryCount n < p_maxRetries p" by blast
    have "wf (ps_store s1)" using process_row [OF Cons.prems(2) run] by simp
    with Cons.IH [OF _ _ n1(1)] Cons.prems(1)
    have "length (filter is_send (snd (redeliver up R p envs body s1))) \<le> nat (p_maxRetries p - n_RetryCount n1) + 1"
      by simp
    then show ?thesis
      using run True one n1(2,3) by (cases "filter is_send eff1") (auto simp: split_beta)
  qed
qed

end

section \<open>Surroundings for examples\<close>

text \<open>
  A row with id 1 that was cancelled, a message that names it, and a worker that meets no faults and
  whose provider answers as given.
\<close>

definition cancelled_row :: Notification where
  "cancelled_row = sample_notification\<lparr>n_Status := ''cancelled''\<rparr>"

definition sample_processor :: Processor where
  "sample_processor = \<lparr>p_provider = \<lparr>wp_webhookURL = ''http://x''\<rparr>, p_limiter = NewRateLimiter ''sms'' 100, p_maxRetries = 3\<rparr>"

definition sample_pubsub_env :: pubsub_env where
  "sample_pubsub_env = \<lparr>pu_now = 0, pu_fault = NoFault\<rparr>"

definition sample_message :: QueueMessage where
  "sample_message = delivered_message (message_of sample_uuid_pkg sample_notification)"

definition sample_body :: string where
  "sample_body = object_text (message_members (message_of sample_uuid_pkg sample_notification) [])"

lemma sample_body_reads [simp]: "unmarshal_message sample_body = Some sample_message"
proof -
  have m: "m_Metadata (message_of sample_uuid_pkg sample_notification) = None"
    by (simp add: message_of_def sample_notification_def)
  then show ?thesis
    using marshal_unmarshal [of "message_of sample_uuid_pkg sample_notification"] marshal_plain [OF m]
    by (auto simp: sample_body_def sample_message_def)
qed

definition sample_wait_env :: wait_env where
  "sample_wait_env = \<lparr>we_fault = (\<lambda>_. NoFault), we_latency = (\<lambda>_. nat (5 * second)), we_redis = (\<lambda>t. unix_seconds t),
     we_done = None, we_pick = (\<lambda>_. SelTimer)\<rparr>"

definition sample_process_env :: "http_outcome \<Rightarrow> process_env" where
  "sample_process_env answer = \<lparr>pv_get = calm 1 (\<lambda>_. 0), pv_now = 1,
     pv_until = 1, pv_cancelled = False, pv_mark = calm 2 (\<lambda>_. 0), pv_pub1 = sample_pubsub_env, pv_allow = (0, 0, 0),
     pv_wait = sample_wait_env, pv_wait_at = 0, pv_send = sample_send_env answer, pv_record = 3, pv_retry_now = 3,
     pv_jitter = 0, pv_write = calm 4 (\<lambda>_. 0), pv_pub2 = sample_pubsub_env\<rparr>"

definition sample_proc_state :: "pg_state proc_state" where
  "sample_proc_state = \<lparr>ps_store = keyed_db [cancelled_row], ps_breaker = CircuitBreaker.New 0, ps_bucket = None\<rparr>"

lemma cancelled_db_wf: "pg_wf any_server (keyed_db [cancelled_row])"
  by (simp add: pg_wf_def) (simp add: keyed_db_def cancelled_row_def sample_notification_def idempotency_keys_def
      row_checks_def int4_def chk_channel_def chk_status_def chk_priority_def)

lemma cancelled_db_row: "pg_rows (keyed_db [cancelled_row]) 1 = Some cancelled_row"
  by (simp add: pg_rows_def keyed_db_def cancelled_row_def sample_notification_def)

lemma sample_message_id: "uuid_Parse sample_uuid_pkg (qm_ID sample_message) = Some 1"
proof -
  have "to_valid_utf8 (uuid_String sample_uuid_pkg 1) = uuid_String sample_uuid_pkg 1"
    by (rule ascii_valid) (auto simp: sample_uuid_pkg_def list_all_iff)
  then show ?thesis
    using sample_uuid_roundtrip
    by (simp add: uuid_roundtrip_def sample_message_def delivered_message_def message_of_def sample_notification_def)
qed

lemma sample_env_simps [simp]:
  "faultless (pv_get (sample_process_env answer))"
  "faultless (pv_mark (sample_process_env answer))" "faultless (pv_write (sample_process_env answer))"
  "\<not> pv_cancelled (sample_process_env answer)" "pv_send (sample_process_env answer) = sample_send_env answer"
  by (simp_all add: sample_process_env_def)

lemma sample_admitted:
  "fst (allow_call (sample_process_env answer) (CircuitBreaker.New 0))"
  "fst (wait_call sample_processor (sample_process_env answer) None) = None"
proof -
  show "fst (allow_call (sample_process_env answer) (CircuitBreaker.New 0))"
    by (simp add: allow_call_def sample_process_env_def Allow_def CircuitBreaker.New_def resetWindowIfExpired_def)
  have "fst (RateLimiter_Allow (we_fault sample_wait_env 0) 0 (we_redis sample_wait_env 0)
      (NewRateLimiter ''sms'' 100) None) \<noteq> Inr False"
    by (simp add: RateLimiter_Allow_def sample_wait_env_def tokenBucketScript_def live_bucket_def NewRateLimiter_def
        unix_seconds_def)
  from wait_first_call [OF this]
  show "fst (wait_call sample_processor (sample_process_env answer) None) = None"
    by (simp add: wait_call_def sample_process_env_def sample_processor_def)
qed

text \<open>
  A worker changes at most the row its message names, and that row only from where it was to
  \<open>processing\<close> and from there to sent, failed, or, below the limit, one retry more; the table stays well-formed. This
  holds under all faults.
\<close>

theorem process_touches_one_row:
  assumes "pg_wf srv (ps_store s)" "Process up (postgres_repository up srv cj) p env body s = (s', eff)"
  shows "pg_wf srv (ps_store s') \<and>
    (case unmarshal_message body of
       None \<Rightarrow> s' = s
     | Some msg \<Rightarrow> (case uuid_Parse up (qm_ID msg) of
         None \<Rightarrow> s' = s
       | Some i \<Rightarrow> row_processed (p_maxRetries p) i (pg_rows (ps_store s)) (pg_rows (ps_store s'))))"
  by (rule pg.process_row [OF assms])

theorem process_touches_one_row_witness:
  "pg_wf any_server (ps_store (fst (Process sample_uuid_pkg (postgres_repository sample_uuid_pkg any_server utc_json)
     sample_processor (sample_process_env (Response 503 ''busy'')) sample_body sample_proc_state)))"
proof -
  have "pg_wf any_server (ps_store sample_proc_state)" by (simp add: sample_proc_state_def cancelled_db_wf)
  from process_touches_one_row [OF this prod.collapse [symmetric]] show ?thesis by blast
qed





section \<open>A half-open breaker without a probe\<close>

text \<open>A worker that goes through deliveries one after another.\<close>

fun process_all :: "uuid_pkg \<Rightarrow> 'st NotificationRepository \<Rightarrow> Processor \<Rightarrow> (process_env \<times> string) list \<Rightarrow>
    'st proc_state \<Rightarrow> 'st proc_state \<times> proc_effect list" where
  "process_all up R p [] s = (s, [])"
| "process_all up R p ((env, body) # runs) s =
     (let (s1, eff1) = Process up R p env body s;
          (s2, eff2) = process_all up R p runs s1
      in (s2, eff1 @ eff2))"

lemma half_open_denies:
  "cb_state cb = HalfOpen \<Longrightarrow> \<not> fst (allow_call env cb) \<and> cb_state (snd (allow_call env cb)) = HalfOpen"
  by (auto simp: allow_call_def Allow_def resetWindowIfExpired_def reset_def Let_def split: prod.splits)

lemma half_open_process:
  assumes "cb_state (ps_breaker s) = HalfOpen" "Process up R p env body s = (s', eff)"
  shows "cb_state (ps_breaker s') = HalfOpen \<and> filter is_send eff = []"
  using assms(2)
proof (cases rule: process_cases)
  case (delivered msg i n delays eff')
  from delivered(5) show ?thesis
    by (cases rule: deliver_cases) (use half_open_denies [OF assms(1), of env] assms(1) delivered(4,6) in auto)
qed (use assms(1) in auto)

lemma half_open_forever:
  "cb_state (ps_breaker s) = HalfOpen \<Longrightarrow> filter is_send (snd (process_all up R p runs s)) = []"
proof (induction runs arbitrary: s)
  case Nil
  then show ?case by simp
next
  case (Cons run runs)
  obtain env body where "run = (env, body)" by force
  with Cons half_open_process [OF Cons.prems] show ?case
    by (simp add: split_beta) (metis prod.collapse)
qed

text \<open>
  C31. When an open breaker admits its probe and the rate limiter then fails, no outcome is recorded:
  the breaker stays half-open, and the worker never calls the provider again, whatever it is given
  to process.
\<close>

theorem limiter_failure_wedges_breaker:
  assumes "unmarshal_message body = Some msg" "uuid_Parse up (qm_ID msg) = Some i"
    "repo_GetByID R (pv_get env) i (ps_store s) = Inr n" "n_NextRetryAt n = None"
    "fst (repo_UpdateStatus R (pv_mark env) i StatusProcessing (ps_store s)) = None"
    "cb_state (ps_breaker s) = Open" "fst (allow_call env (ps_breaker s))"
    "fst (wait_call p env (ps_bucket s)) \<noteq> None"
  shows "filter is_send (snd (process_all up R p ((env, body) # runs) s)) = []"
proof -
  obtain s' eff where run: "Process up R p env body s = (s', eff)" by force
  then have dl: "Process_deliver up R p env msg i n s = (s', eff)"
    using assms(1-4) by (simp add: Process_def)
  have probe: "cb_state (snd (allow_call env (ps_breaker s))) = HalfOpen"
    using assms(6,7) by (auto simp: allow_call_def Allow_def resetWindowIfExpired_def reset_def Let_def
        split: prod.splits if_splits)
  from dl have "cb_state (ps_breaker s') = HalfOpen \<and> filter is_send eff = []"
    by (cases rule: deliver_cases) (use assms(5,7,8) probe in auto)
  then show ?thesis using run half_open_forever [of s' up R p runs] by (simp add: split_beta)
qed

text \<open>An open breaker whose time is up, an empty bucket, and a limiter that answers after five seconds.\<close>

definition wedged_state :: "pg_state proc_state" where
  "wedged_state = sample_proc_state\<lparr>ps_breaker := (CircuitBreaker.New 0)\<lparr>cb_state := Open\<rparr>,
     ps_bucket := Some \<lparr>bk_tokens = 0, bk_last = 0, bk_expires = 2\<rparr>\<rparr>"

lemma wedged_probe:
  "fst (allow_call (sample_process_env answer) (ps_breaker wedged_state))"
  "fst (wait_call sample_processor (sample_process_env answer) (ps_bucket wedged_state)) \<noteq> None"
proof -
  show "fst (allow_call (sample_process_env answer) (ps_breaker wedged_state))"
    by (simp add: wedged_state_def allow_call_def sample_process_env_def Allow_def CircuitBreaker.New_def
        resetWindowIfExpired_def zero_time_def)
  show "fst (wait_call sample_processor (sample_process_env answer) (ps_bucket wedged_state)) \<noteq> None"
    unfolding wait_call_def Wait_def
    by (subst wait_loop.simps)
      (simp add: wedged_state_def sample_process_env_def sample_processor_def sample_wait_env_def RateLimiter_Allow_def
        tokenBucketScript_def live_bucket_def NewRateLimiter_def unix_seconds_def select_next_def first_ready_def)
qed

theorem limiter_failure_wedges_breaker_witness:
  "filter is_send (snd (process_all sample_uuid_pkg (postgres_repository sample_uuid_pkg any_server utc_json)
     sample_processor ((sample_process_env (Response 200 []), sample_body) #
       replicate 50 (sample_process_env (Response 200 []), sample_body)) wedged_state)) = []"
proof (rule limiter_failure_wedges_breaker [OF sample_body_reads sample_message_id])
  let ?env = "sample_process_env (Response 200 [])"
  have store: "ps_store wedged_state = keyed_db [cancelled_row]"
    by (simp add: wedged_state_def sample_proc_state_def)
  show "repo_GetByID (postgres_repository sample_uuid_pkg any_server utc_json) (pv_get ?env) 1 (ps_store wedged_state) =
      Inr cancelled_row"
    using pg_GetByID_complete [OF cancelled_db_wf _ cancelled_db_row] by (simp add: store)
  show "n_NextRetryAt cancelled_row = None" by (simp add: cancelled_row_def sample_notification_def)
  show "fst (repo_UpdateStatus (postgres_repository sample_uuid_pkg any_server utc_json) (pv_mark ?env) 1
      StatusProcessing (ps_store wedged_state)) = None"
    using pg_UpdateStatus_succeeds [OF cancelled_db_wf _ cancelled_db_row] by (simp add: store legal_status_def)
  show "cb_state (ps_breaker wedged_state) = Open" by (simp add: wedged_state_def)
qed (rule wedged_probe)+

end
