(* ===== verification/Dispatcher.thy ===== *)
theory Dispatcher
  imports Worker
begin

text \<open>
  \<open>internal/worker/dispatcher.go\<close>: starting the consumer of a channel. The workers of a dispatcher
  share one stream of deliveries; \<open>runs\<close> is the order in which the deliveries that arrive before the
  consumer is cancelled are processed, each in its own surroundings. The calls to the AMQP channel
  are recorded in order.
\<close>

record Dispatcher =
  d_channel :: string
  d_queueName :: string
  d_workerCount :: int

datatype disp_call =
    OpenChannel
  | SetQos int
  | Consume string string
  | CancelConsumer string
  | CloseChannel

record disp_env =
  de_open :: "string option"
  de_qos :: "string option"
  de_consume :: "string option"

definition Dispatcher_Channel :: "Dispatcher \<Rightarrow> string" where
  "Dispatcher_Channel d = d_channel d"

definition consumerTag :: "Dispatcher \<Rightarrow> string" where
  "consumerTag d = ''worker-'' @ d_channel d"

definition Dispatcher_Start :: "uuid_pkg \<Rightarrow> 'st NotificationRepository \<Rightarrow> Processor \<Rightarrow> Dispatcher \<Rightarrow> disp_env \<Rightarrow>
    (process_env \<times> string) list \<Rightarrow> 'st proc_state \<Rightarrow>
    go_error option \<times> disp_call list \<times> 'st proc_state \<times> proc_effect list" where
  "Dispatcher_Start up R p d env runs s =
     (case Connection_Channel (de_open env) of
        Some e \<Rightarrow>
          (Some (ErrOther (''opening channel for '' @ d_channel d @ '' dispatcher: '' @ Error e)), [OpenChannel], s, [])
      | None \<Rightarrow>
          (case de_qos env of
             Some e \<Rightarrow>
               (Some (ErrOther (''setting QoS for '' @ d_channel d @ '': '' @ e)),
                [OpenChannel, SetQos (d_workerCount d), CloseChannel], s, [])
           | None \<Rightarrow>
               (case de_consume env of
                  Some e \<Rightarrow>
                    (Some (ErrOther (''consuming from '' @ d_queueName d @ '': '' @ e)),
                     [OpenChannel, SetQos (d_workerCount d), Consume (d_queueName d) (consumerTag d), CloseChannel], s, [])
                | None \<Rightarrow>
                    (let (s, effects) = process_all up R p runs s
                     in (None,
                         [OpenChannel, SetQos (d_workerCount d), Consume (d_queueName d) (consumerTag d),
                          CancelConsumer (consumerTag d), CloseChannel], s, effects)))))"

lemma process_all_settles: "length (filter is_settle (snd (process_all up R p runs s))) = length runs"
proof (induction runs arbitrary: s)
  case Nil
  then show ?case by simp
next
  case (Cons run runs)
  obtain env body where run: "run = (env, body)" by force
  show ?case
    using Cons process_settles_one [of up R p env body s] by (simp add: run split_beta)
qed



end
