(* ===== verification/Server.thy ===== *)
theory Server
  imports Router Dispatcher
begin

text \<open>
  \<open>cmd/server/main.go\<close> and \<open>internal/config\<close>: the configuration, the order in which the program
  acquires what it needs and gives up when it cannot, the workers it builds for each channel, and
  the order of shutting down. The package that reads the environment is an argument.
\<close>

section \<open>Configuration\<close>

record Config =
  cf_Port :: int
  cf_DatabaseURL :: string
  cf_RabbitMQURL :: string
  cf_RedisURL :: string
  cf_WebhookURL :: string
  cf_WorkerCount :: int
  cf_MaxRetries :: int
  cf_RateLimit :: int
  cf_LogLevel :: string

text \<open>The tags of the fields: the variable, and its default or that it is required.\<close>

definition config_tags :: "(string \<times> string option) list" where
  "config_tags = [(''PORT'', Some ''8080''), (''DATABASE_URL'', None), (''RABBITMQ_URL'', None), (''REDIS_URL'', None),
     (''WEBHOOK_URL'', None), (''WORKER_COUNT'', Some ''3''), (''MAX_RETRIES'', Some ''3''), (''RATE_LIMIT'', Some ''100''),
     (''LOG_LEVEL'', Some ''info'')]"

definition Load :: "((string \<times> string option) list \<Rightarrow> string + Config) \<Rightarrow> go_error + Config" where
  "Load env_Parse =
     (case env_Parse config_tags of
        Inl err \<Rightarrow> Inl (ErrOther (''parsing config: '' @ err))
      | Inr cfg \<Rightarrow> Inr cfg)"

datatype log_level = LevelDebug | LevelInfo | LevelWarn | LevelError

definition parseLogLevel :: "string \<Rightarrow> log_level" where
  "parseLogLevel level =
     (if level = ''debug'' then LevelDebug
      else if level = ''info'' then LevelInfo
      else if level = ''warn'' then LevelWarn
      else if level = ''error'' then LevelError
      else LevelInfo)"

section \<open>Starting\<close>

record boot_env =
  bo_config :: "(string \<times> string option) list \<Rightarrow> string + Config"
  bo_open_db :: "string option"
  bo_ping_db :: "string option"
  bo_dial :: "nat \<Rightarrow> string + unit"
  bo_declare_channel :: "string option"
  bo_declare :: "nat \<Rightarrow> string option"
  bo_producer :: "string option"
  bo_redis_url :: "string option"
  bo_ping_redis :: "string option"

datatype resource = ResDB | ResMQ | ResProducer | ResRedis

text \<open>
  Start-up either ends in \<open>os.Exit(1)\<close>, with the line it logs and what it holds at that moment (deferred
  closes do not run), or has everything it needs.
\<close>

definition boot :: "boot_env \<Rightarrow> (string \<times> resource list) + (Config \<times> resource list)" where
  "boot env =
     (case Load (bo_config env) of
        Inl _ \<Rightarrow> Inl (''failed to load config'', [])
      | Inr cfg \<Rightarrow>
          if bo_open_db env \<noteq> None then Inl (''failed to open database'', [])
          else if bo_ping_db env \<noteq> None then Inl (''failed to ping database'', [ResDB])
          else
            (case fst (NewConnection (bo_dial env)) of
               Inl _ \<Rightarrow> Inl (''failed to connect to rabbitmq'', [ResDB])
             | Inr _ \<Rightarrow>
                 if fst (DeclareInfrastructure (bo_declare_channel env) (bo_declare env)) \<noteq> None
                   then Inl (''failed to declare rabbitmq infrastructure'', [ResDB, ResMQ])
                 else if NewProducer (bo_producer env) \<noteq> None
                   then Inl (''failed to create producer'', [ResDB, ResMQ])
                 else if bo_redis_url env \<noteq> None
                   then Inl (''failed to parse redis URL'', [ResDB, ResMQ, ResProducer])
                 else if bo_ping_redis env \<noteq> None
                   then Inl (''failed to ping redis'', [ResDB, ResMQ, ResProducer, ResRedis])
                 else Inr (cfg, [ResDB, ResMQ, ResProducer, ResRedis])))"

section \<open>The workers\<close>

definition worker_channels :: "(string \<times> string) list" where
  "worker_channels = [(ChannelSMS, QueueSMS), (ChannelEmail, QueueEmail), (ChannelPush, QueuePush)]"

definition processor_for :: "Config \<Rightarrow> string \<Rightarrow> Processor" where
  "processor_for cfg channel =
     \<lparr>p_provider = \<lparr>wp_webhookURL = cf_WebhookURL cfg\<rparr>, p_limiter = NewRateLimiter channel (cf_RateLimit cfg),
      p_maxRetries = cf_MaxRetries cfg\<rparr>"

record channel_workers =
  cw_breaker :: "string \<times> CircuitBreaker"
  cw_processor :: Processor
  cw_dispatcher :: Dispatcher

text \<open>The loop over the channels; the breakers collected on the way are what the metrics report.\<close>

definition start_workers :: "Config \<Rightarrow> time \<Rightarrow> channel_workers list" where
  "start_workers cfg now =
     map (\<lambda>(name, queueName).
        \<lparr>cw_breaker = (name, CircuitBreaker.New now), cw_processor = processor_for cfg name,
         cw_dispatcher = \<lparr>d_channel = name, d_queueName = queueName, d_workerCount = cf_WorkerCount cfg\<rparr>\<rparr>)
       worker_channels"

definition breakers :: "channel_workers list \<Rightarrow> (string \<times> CircuitBreaker) list" where
  "breakers ws = map cw_breaker ws"

section \<open>Running and stopping\<close>

datatype main_step = GoPoller | GoDispatcher string | GoScheduler int | GoListen int | AwaitSignal | CancelWorkers
  | WaitDispatchers | ShutdownHTTP int | CloseRes resource

text \<open>
  What \<open>main\<close> does once started: the goroutines in order, then, at a signal, the workers are cancelled
  and waited for before the HTTP server is shut down, and the deferred closes run last, latest first.
\<close>

definition main_steps :: "boot_env \<Rightarrow> time \<Rightarrow> string + main_step list" where
  "main_steps env now =
     (case boot env of
        Inl (msg, _) \<Rightarrow> Inl msg
      | Inr (cfg, res) \<Rightarrow>
          Inr ([GoPoller] @ map (\<lambda>w. GoDispatcher (d_channel (cw_dispatcher w))) (start_workers cfg now) @
            [GoScheduler (5 * second), GoListen (cf_Port cfg), AwaitSignal, CancelWorkers, WaitDispatchers,
             ShutdownHTTP (10 * second)] @ map CloseRes (rev res)))"

lemma declare_all_done: "fst (declare_all fault i cs) = None \<Longrightarrow> snd (declare_all fault i cs) = cs"
  by (induction fault i cs rule: declare_all.induct) (auto simp: split_beta Let_def split: option.splits)

lemma boot_declared:
  "boot env = Inr (cfg, res) \<Longrightarrow> snd (DeclareInfrastructure (bo_declare_channel env) (bo_declare env)) = infrastructure"
  using declare_all_done [of "bo_declare env" 0 infrastructure]
  by (auto simp: boot_def DeclareInfrastructure_def split: sum.splits if_splits option.splits)

text \<open>
  Start-up gets through exactly when every dependency answers, RabbitMQ within five attempts, and then
  holds all four resources; otherwise it exits with the first that did not.
\<close>

lemma boot_ok_iff:
  "(\<exists>cfg. boot env = Inr (cfg, res)) \<longleftrightarrow>
     res = [ResDB, ResMQ, ResProducer, ResRedis] \<and> (\<exists>cfg. bo_config env config_tags = Inr cfg) \<and>
     bo_open_db env = None \<and> bo_ping_db env = None \<and> (\<exists>j < 5. \<exists>c. bo_dial env j = Inr c) \<and>
     fst (DeclareInfrastructure (bo_declare_channel env) (bo_declare env)) = None \<and> bo_producer env = None \<and>
     bo_redis_url env = None \<and> bo_ping_redis env = None"
proof -
  have dial: "(\<exists>c. fst (NewConnection (bo_dial env)) = Inr c) \<longleftrightarrow> (\<exists>j < 5. \<exists>c. bo_dial env j = Inr c)"
  proof
    assume "\<exists>c. fst (NewConnection (bo_dial env)) = Inr c"
    then obtain c k where d: "dial_loop (bo_dial env) 5 0 [] = (Inr c, k)"
      unfolding NewConnection_def by (metis prod.collapse)
    from d [unfolded dial_loop_success] show "\<exists>j < 5. \<exists>c. bo_dial env j = Inr c" by auto
  next
    assume ex: "\<exists>j < 5. \<exists>c. bo_dial env j = Inr c"
    then obtain j where least: "\<exists>c. bo_dial env j = Inr c" "\<forall>l < j. \<not> (\<exists>c. bo_dial env l = Inr c)"
      using exists_least_iff [of "\<lambda>j. \<exists>c. bo_dial env j = Inr c"] by blast
    then obtain c where "bo_dial env j = Inr c" by blast
    moreover have "j < 5" using ex least(2) by (meson le_less_trans not_le_imp_less)
    moreover have "\<forall>l < j. \<exists>e. bo_dial env l = Inl e" using least(2) by (meson obj_sumE)
    ultimately have "dial_loop (bo_dial env) 5 0 [] = (Inr c, Suc j)" by (subst dial_loop_success) auto
    then show "\<exists>c. fst (NewConnection (bo_dial env)) = Inr c" by (simp add: NewConnection_def)
  qed
  show ?thesis unfolding dial [symmetric]
    by (auto simp: boot_def Load_def NewProducer_def Connection_Channel_def split: sum.splits if_splits)
qed

lemma distinct_ex1: "distinct (map f xs) \<Longrightarrow> y \<in> set (map f xs) \<Longrightarrow> \<exists>!x. x \<in> set xs \<and> f x = y"
  by (auto simp: distinct_map inj_on_def)

section \<open>Properties\<close>


definition sample_config :: Config where
  "sample_config = \<lparr>cf_Port = 8080, cf_DatabaseURL = ''db'', cf_RabbitMQURL = ''mq'', cf_RedisURL = ''redis'',
     cf_WebhookURL = ''http://x'', cf_WorkerCount = 3, cf_MaxRetries = 3, cf_RateLimit = 100, cf_LogLevel = ''info''\<rparr>"

definition sample_boot :: boot_env where
  "sample_boot = \<lparr>bo_config = (\<lambda>_. Inr sample_config), bo_open_db = None, bo_ping_db = None,
     bo_dial = (\<lambda>i. if i = 2 then Inr () else Inl ''refused''), bo_declare_channel = None, bo_declare = (\<lambda>_. None),
     bo_producer = None, bo_redis_url = None, bo_ping_redis = None\<rparr>"


end
