(* ===== verification/Scheduler.thy ===== *)
theory Scheduler
  imports Service
begin

text \<open>
  Package \<open>internal/scheduler\<close>: the poller that hands notifications to the queue when they are
  due. One poll is a function of the store and the broker; \<open>Start\<close> is the loop over what its
  \<open>select\<close> receives, a tick or the cancellation of the context.
\<close>

section \<open>Operations\<close>

record poll_env =
  po_ready :: call_env
  po_pub :: "nat \<Rightarrow> publish_env"
  po_mark :: "nat \<Rightarrow> call_env"

fun poll_loop :: "uuid_pkg \<Rightarrow> 'st NotificationRepository \<Rightarrow> poll_env \<Rightarrow> nat \<Rightarrow> Notification list \<Rightarrow>
    'st \<times> Publishing list \<Rightarrow> 'st \<times> Publishing list" where
  "poll_loop up R env i [] w = w"
| "poll_loop up R env i (n # ns) w =
     (let (s, out) = w;
          (err, pub) = Publish up (po_pub env i) n;
          out = out @ (case pub of None \<Rightarrow> [] | Some p \<Rightarrow> [p])
      in case err of
           Some _ \<Rightarrow> poll_loop up R env (Suc i) ns (s, out)
         | None \<Rightarrow>
             (case repo_UpdateStatus R (po_mark env i) (n_ID n) StatusQueued s of
                (_, s) \<Rightarrow> poll_loop up R env (Suc i) ns (s, out)))"

definition poll :: "uuid_pkg \<Rightarrow> 'st NotificationRepository \<Rightarrow> poll_env \<Rightarrow> 'st \<times> Publishing list \<Rightarrow> 'st \<times> Publishing list" where
  "poll up R env w =
     (case repo_GetScheduledReady R (po_ready env) 100 (fst w) of
        Inl _ \<Rightarrow> w
      | Inr notifications \<Rightarrow>
          if notifications = [] then w else poll_loop up R env 0 notifications w)"

datatype sched_event = Tick poll_env | CtxDone

fun Scheduler_Start :: "uuid_pkg \<Rightarrow> 'st NotificationRepository \<Rightarrow> sched_event list \<Rightarrow> 'st \<times> Publishing list \<Rightarrow>
    'st \<times> Publishing list" where
  "Scheduler_Start up R [] w = w"
| "Scheduler_Start up R (CtxDone # evs) w = w"
| "Scheduler_Start up R (Tick env # evs) w = Scheduler_Start up R evs (poll up R env w)"

section \<open>A poll is a batch of due notifications\<close>

definition poll_service_env :: "poll_env \<Rightarrow> service_env" where
  "poll_service_env env = \<lparr>sv_repo = (\<lambda>k. po_mark env (k - 1)), sv_template = po_ready env, sv_pub = po_pub env,
     sv_now = (\<lambda>_. ce_now (po_ready env)), sv_batch = 0, sv_order1 = [], sv_order2 = []\<rparr>"

lemma poll_loop_as_batch:
  "\<forall>n \<in> set ns. \<not> future (ce_now (po_ready env)) n \<Longrightarrow>
   poll_loop up R env i ns w = snd (publish_batch up R (poll_service_env env) i ns w)"
proof (induction ns arbitrary: i w)
  case Nil
  then show ?case by simp
next
  case (Cons n ns)
  obtain s out where w: "w = (s, out)" by force
  obtain err pub where pub: "Publish up (po_pub env i) n = (err, pub)" by force
  obtain e s1 where upd: "repo_UpdateStatus R (po_mark env i) (n_ID n) StatusQueued s = (e, s1)" by force
  have env: "sv_pub (poll_service_env env) = po_pub env" "sv_repo (poll_service_env env) (Suc i) = po_mark env i"
    "sv_now (poll_service_env env) i = ce_now (po_ready env)" by (simp_all add: poll_service_env_def)
  from Cons show ?case
    by (cases err; cases e) (simp_all add: w pub upd env publish_and_mark_def split_beta)
qed

text \<open>
  What a poll has done: the notifications it took up were pending and due, nothing else has changed,
  and each has been handed over.
\<close>

definition polled :: "uuid_pkg \<Rightarrow> time \<Rightarrow> (uuid \<rightharpoonup> Notification) \<Rightarrow> (uuid \<rightharpoonup> Notification) \<Rightarrow> Publishing list \<Rightarrow> bool" where
  "polled up now m m' pubs \<longleftrightarrow>
     (\<exists>ns ns' pubss. distinct (map n_ID ns) \<and> length ns \<le> 100 \<and> pubs = concat pubss \<and>
        length pubss = length ns \<and> length ns' = length ns \<and> frame (n_ID ` set ns) m m' \<and>
        (\<forall>k < length ns. m (n_ID (ns ! k)) = Some (ns ! k) \<and> n_Status (ns ! k) = StatusPending \<and>
           (\<exists>t. n_ScheduledAt (ns ! k) = Some t \<and> t \<le> now) \<and>
           handed_over up now (ns ! k) m' (pubss ! k) (ns' ! k)))"

lemma polled_nothing: "polled up now m m []"
  unfolding polled_def by (intro exI [of _ "[]"]) (simp add: frame_def)

text \<open>The ids of the rows that are pending and due.\<close>

definition due_rows :: "time \<Rightarrow> (uuid \<rightharpoonup> Notification) \<Rightarrow> uuid set" where
  "due_rows now m = {i. \<exists>n t. m i = Some n \<and> n_Status n = StatusPending \<and> n_ScheduledAt n = Some t \<and> t \<le> now}"

lemma pending_not_queued: "StatusPending \<noteq> StatusQueued"
  by (simp add: domain_consts)

context notification_store
begin

lemma poll_polled:
  assumes "wf s" "scans_all (po_ready env)" "poll up R env (s, out) = (s', out')"
  shows "wf s' \<and> (\<exists>pubs. out' = out @ pubs \<and> polled up (ce_now (po_ready env)) (rows s) (rows s') pubs)"
proof (cases "repo_GetScheduledReady R (po_ready env) 100 s")
  case (Inl e)
  with assms polled_nothing show ?thesis by (auto simp: poll_def)
next
  case (Inr ns)
  note sound = scheduled_sound [OF assms(1,2) Inr]
  have due: "\<forall>n \<in> set ns. \<not> future (ce_now (po_ready env)) n"
    using sound by (fastforce simp: future_def)
  have dist: "distinct (map n_ID ns)" "length ns \<le> 100"
    using scheduled_distinct [OF assms(1,2) Inr] by auto
  have "poll_loop up R env 0 ns (s, out) = (s', out')"
    using assms(3) Inr by (auto simp: poll_def split: if_splits)
  then obtain ns' where "publish_batch up R (poll_service_env env) 0 ns (s, out) = (ns', s', out')"
    unfolding poll_loop_as_batch [OF due] by (metis prod.collapse)
  from publish_batch_hands_over [OF assms(1) dist(1) _ this] sound obtain pubss where
    "wf s'" "frame (n_ID ` set ns) (rows s) (rows s')" "out' = out @ concat pubss" "length pubss = length ns"
    "length ns' = length ns"
    "\<forall>k < length ns. handed_over up (ce_now (po_ready env)) (ns ! k) (rows s') (pubss ! k) (ns' ! k)"
    by (auto simp: poll_service_env_def)
  moreover have "rows s (n_ID (ns ! k)) = Some (ns ! k) \<and> n_Status (ns ! k) = StatusPending \<and>
      (\<exists>t. n_ScheduledAt (ns ! k) = Some t \<and> t \<le> ce_now (po_ready env))" if "k < length ns" for k
    using sound [of "ns ! k"] that by simp
  ultimately show ?thesis unfolding polled_def using dist by blast
qed

lemma mark_calm:
  assumes "wf s" "rows s (n_ID n) = Some n" "faultless ce" "Publish up pe n = (None, pub)"
  shows "fst (publish_and_mark up R pe ce n (s, out)) = n\<lparr>n_Status := StatusQueued\<rparr>"
  using status_complete [OF assms(1,3,2), of StatusQueued] assms(4)
  by (auto simp: publish_and_mark_def legal_status_def split: prod.splits option.splits)

lemma batch_calm:
  "\<lbrakk>wf s; distinct (map n_ID ns); \<forall>n \<in> set ns. rows s (n_ID n) = Some n;
    \<forall>n \<in> set ns. \<forall>k. \<not> future (sv_now env k) n; \<forall>k. faultless (sv_repo env k);
    \<forall>k. \<forall>n \<in> set ns. fst (Publish up (sv_pub env k) n) = None\<rbrakk> \<Longrightarrow>
   fst (publish_batch up R env i ns (s, out)) = map (\<lambda>n. n\<lparr>n_Status := StatusQueued\<rparr>) ns"
proof (induction ns arbitrary: i s out)
  case Nil
  then show ?case by simp
next
  case (Cons n ns)
  obtain n1 s1 out1 where one: "publish_and_mark up R (sv_pub env i) (sv_repo env (Suc i)) n (s, out) = (n1, s1, out1)"
    by (metis prod_cases3)
  have row: "rows s (n_ID n) = Some n" and now: "\<not> future (sv_now env i) n" using Cons.prems by auto
  have "n1 = n\<lparr>n_Status := StatusQueued\<rparr>"
    using mark_calm [OF Cons.prems(1) row, of "sv_repo env (Suc i)" up "sv_pub env i" _ out] Cons.prems(5,6) one
    by (metis fst_conv list.set_intros(1) prod.collapse)
  moreover from publish_and_mark_hands_over [OF Cons.prems(1) row now one]
  have s1: "wf s1" "frame {n_ID n} (rows s) (rows s1)" by auto
  then have "\<forall>q \<in> set ns. rows s1 (n_ID q) = Some q"
    using Cons.prems(2,3) by (auto simp: frame_def image_iff)
  with Cons.IH [OF s1(1), of "Suc i" out1] Cons.prems
  have "fst (publish_batch up R env (Suc i) ns (s1, out1)) = map (\<lambda>n. n\<lparr>n_Status := StatusQueued\<rparr>) ns" by simp
  ultimately show ?case using one now by (simp add: split_beta)
qed

text \<open>With fewer than 100 due rows the query returns just these.\<close>

lemma ready_is_due:
  assumes "wf s" "faultless ce" "scans_all ce" "finite (due_rows (ce_now ce) (rows s))"
    "card (due_rows (ce_now ce) (rows s)) < 100"
  obtains ns where "repo_GetScheduledReady R ce 100 s = Inr ns" "due_rows (ce_now ce) (rows s) = n_ID ` set ns"
    "length ns = card (due_rows (ce_now ce) (rows s))"
proof -
  let ?now = "ce_now ce"
  obtain ns where get: "repo_GetScheduledReady R ce 100 s = Inr ns" and
    all: "length ns < 100 \<Longrightarrow> \<forall>i n t. rows s i = Some n \<longrightarrow> n_Status n = StatusPending \<longrightarrow> n_ScheduledAt n = Some t \<longrightarrow>
       t \<le> ?now \<longrightarrow> n \<in> set ns"
    using scheduled_complete [OF assms(1-3), of 100] by auto
  note sound = scheduled_sound [OF assms(1,3) get]
  have dist: "distinct (map n_ID ns)" using scheduled_distinct [OF assms(1,3) get] by simp
  have sub: "n_ID ` set ns \<subseteq> due_rows ?now (rows s)" using sound by (fastforce simp: due_rows_def)
  have "length ns = card (n_ID ` set ns)" using distinct_card [OF dist] by simp
  also have "\<dots> \<le> card (due_rows ?now (rows s))" by (rule card_mono [OF assms(4) sub])
  finally have "length ns < 100" using assms(5) by simp
  with all have "due_rows ?now (rows s) \<subseteq> n_ID ` set ns"
    using row_id [OF assms(1)] by (fastforce simp: due_rows_def image_iff)
  with sub have ids: "due_rows ?now (rows s) = n_ID ` set ns" by blast
  with get distinct_card [OF dist] show thesis by (intro that [of ns]) simp_all
qed

lemma poll_calm:
  assumes "wf s" "faultless (po_ready env)" "scans_all (po_ready env)" "\<forall>k. faultless (po_mark env k)"
    "\<forall>i n k. rows s i = Some n \<longrightarrow> fst (Publish up (po_pub env k) n) = None" "poll up R env (s, out) = (s', out')"
    "finite (due_rows (ce_now (po_ready env)) (rows s))" "card (due_rows (ce_now (po_ready env)) (rows s)) < 100"
  shows "due_rows (ce_now (po_ready env)) (rows s') = {} \<and>
    (\<exists>pubs. out' = out @ pubs \<and> length pubs = card (due_rows (ce_now (po_ready env)) (rows s)))"
proof -
  let ?now = "ce_now (po_ready env)"
  obtain ns where get: "repo_GetScheduledReady R (po_ready env) 100 s = Inr ns" and
    ids: "due_rows ?now (rows s) = n_ID ` set ns" and len: "length ns = card (due_rows ?now (rows s))"
    using ready_is_due [OF assms(1-3,7,8)] by blast
  note sound = scheduled_sound [OF assms(1,3) get]
  have dist: "distinct (map n_ID ns)" using scheduled_distinct [OF assms(1,3) get] by simp
  have due: "\<forall>n \<in> set ns. \<not> future ?now n" using sound by (fastforce simp: future_def)
  have rows: "\<forall>n \<in> set ns. rows s (n_ID n) = Some n" using sound by blast
  have "poll_loop up R env 0 ns (s, out) = (s', out')"
    using assms(6) get by (auto simp: poll_def split: if_splits)
  then obtain ns' where pb: "publish_batch up R (poll_service_env env) 0 ns (s, out) = (ns', s', out')"
    unfolding poll_loop_as_batch [OF due] by (metis prod.collapse)
  have "\<forall>k. \<forall>n \<in> set ns. fst (Publish up (po_pub env k) n) = None" using rows assms(5) by blast
  then have ns': "ns' = map (\<lambda>n. n\<lparr>n_Status := StatusQueued\<rparr>) ns"
    using batch_calm [OF assms(1) dist rows, of "poll_service_env env" up 0 out] due assms(4) pb
    by (simp add: poll_service_env_def)
  from publish_batch_hands_over [OF assms(1) dist rows pb] obtain pubss where
    fr: "frame (n_ID ` set ns) (rows s) (rows s')" and pubs: "out' = out @ concat pubss" "length pubss = length ns" and
    ho: "\<And>k. k < length ns \<Longrightarrow> handed_over up ?now (ns ! k) (rows s') (pubss ! k) (ns' ! k)"
    by (auto simp: poll_service_env_def)
  have each: "length (pubss ! k) = 1 \<and> map_option n_Status (rows s' (n_ID (ns ! k))) = Some StatusQueued"
    if k: "k < length ns" for k
  proof -
    have "n_Status (ns ! k) = StatusPending" "n_Status (ns' ! k) = StatusQueued"
      using sound [of "ns ! k"] k by (simp_all add: ns')
    then have "ns' ! k \<noteq> ns ! k" using pending_not_queued by auto
    with ho [OF k] show ?thesis by (cases "pubss ! k") (auto simp: handed_over_def)
  qed
  have "map length pubss = replicate (length ns) 1"
    using each pubs(2) by (intro nth_equalityI) simp_all
  then have "length (concat pubss) = length ns" by (simp add: length_concat sum_list_replicate)
  moreover have "due_rows ?now (rows s') = {}"
  proof -
    have "i \<notin> due_rows ?now (rows s')" for i
    proof (cases "i \<in> n_ID ` set ns")
      case True
      then obtain k where "k < length ns" "i = n_ID (ns ! k)" by (auto simp: in_set_conv_nth)
      with each [of k] pending_not_queued show ?thesis by (auto simp: due_rows_def)
    next
      case False
      with fr have "rows s' i = rows s i" by (simp add: frame_def)
      with False ids show ?thesis by (auto simp: due_rows_def)
    qed
    then show ?thesis by blast
  qed
  ultimately show ?thesis using pubs(1) len by auto
qed

end

text \<open>
  C32. A poll publishes only notifications that are pending and due, each at most once and with the
  routing key and priority of its row; it changes no other row, and of these only the status, to
  \<open>queued\<close>, and only when the message is out. At most 100 are taken up. All faults included.
\<close>

theorem poll_publishes_due:
  assumes "pg_wf srv s" "scans_all (po_ready env)"
    and "poll up (postgres_repository up srv cj) env (s, out) = (s', out')"
  shows "pg_wf srv s' \<and> (\<exists>pubs. out' = out @ pubs \<and> polled up (ce_now (po_ready env)) (pg_rows s) (pg_rows s') pubs)"
  by (rule pg.poll_polled [OF assms])


text \<open>A row that fell due.\<close>

definition due_row :: Notification where
  "due_row = sample_notification\<lparr>n_Status := ''pending'', n_ScheduledAt := Some 3\<rparr>"

definition sample_poll_env :: poll_env where
  "sample_poll_env = \<lparr>po_ready = calm 5 (\<lambda>_. 0), po_pub = (\<lambda>_. sample_publish_env), po_mark = (\<lambda>_. calm 5 (\<lambda>_. 0))\<rparr>"

lemma due_db_wf: "pg_wf any_server (keyed_db [due_row])"
  by (simp add: pg_wf_def) (simp add: keyed_db_def due_row_def sample_notification_def idempotency_keys_def
      row_checks_def int4_def chk_channel_def chk_status_def chk_priority_def)

lemma due_db_rows: "due_rows 5 (pg_rows (keyed_db [due_row])) = {1}"
  by (auto simp: due_rows_def pg_rows_def keyed_db_def due_row_def sample_notification_def StatusPending_def
      split: if_splits)

theorem poll_publishes_due_witness:
  "pg_wf any_server (fst (poll sample_uuid_pkg (postgres_repository sample_uuid_pkg any_server utc_json)
     sample_poll_env (keyed_db [due_row], [])))"
proof -
  have "scans_all (po_ready sample_poll_env)" by (simp add: sample_poll_env_def)
  from poll_publishes_due [OF due_db_wf this prod.collapse [symmetric]] show ?thesis by blast
qed


end
