(* ===== verification/Lifecycle.thy ===== *)
theory Lifecycle
  imports Worker Scheduler
begin

text \<open>
  The life of one notification: the writes that occur to a row, as a step relation, and what holds of
  a row on every path. Each operation of the service, the scheduler and the workers moves each row
  along such a path; this is the abstract machine the system is shown to follow in \<open>System\<close>.
\<close>

section \<open>Steps of a row\<close>

inductive row_step :: "int \<Rightarrow> Notification \<Rightarrow> Notification \<Rightarrow> bool" for maxRetries where
  mark_queued: "n_Status n = StatusPending \<Longrightarrow> row_step maxRetries n (set_status StatusQueued t n)"
| cancel: "n_Status n \<in> {StatusPending, StatusQueued} \<Longrightarrow> row_step maxRetries n (set_status StatusCancelled t n)"
| take_up: "row_step maxRetries n (set_status StatusProcessing t n)"
| deliver: "n_Status n = StatusProcessing \<Longrightarrow> row_step maxRetries n (set_sent m t n)"
| give_up: "n_Status n = StatusProcessing \<Longrightarrow> row_step maxRetries n (set_failed m t n)"
| retry: "n_Status n = StatusProcessing \<Longrightarrow> n_RetryCount n < maxRetries \<Longrightarrow> row_step maxRetries n (set_retry d t n)"

inductive row_path :: "int \<Rightarrow> Notification \<Rightarrow> Notification \<Rightarrow> bool" for maxRetries where
  path_refl: "row_path maxRetries n n"
| path_step: "row_path maxRetries n n1 \<Longrightarrow> row_step maxRetries n1 n2 \<Longrightarrow> row_path maxRetries n n2"

inductive_cases row_stepE: "row_step k n n'"

lemma path_trans: "row_path k n1 n2 \<Longrightarrow> row_path k n0 n1 \<Longrightarrow> row_path k n0 n2"
  by (induction rule: row_path.induct) (auto intro: path_step)

lemma path_one: "row_step k n n' \<Longrightarrow> row_path k n n'"
  by (auto intro: path_refl path_step)

lemma status_of_writes [simp]:
  "n_Status (set_status st t n) = st" "n_Status (set_sent m t n) = StatusSent"
  "n_Status (set_failed m t n) = StatusFailed" "n_Status (set_retry d t n) = n_Status n"
  by (simp_all add: row_write_defs)

section \<open>What every row keeps\<close>

text \<open>The fields no operation changes.\<close>

definition same_notification :: "Notification \<Rightarrow> Notification \<Rightarrow> bool" where
  "same_notification n n' \<longleftrightarrow> n_ID n' = n_ID n \<and> n_BatchID n' = n_BatchID n \<and>
     n_IdempotencyKey n' = n_IdempotencyKey n \<and> n_Recipient n' = n_Recipient n \<and> n_Channel n' = n_Channel n \<and>
     n_Content n' = n_Content n \<and> n_Subject n' = n_Subject n \<and> n_Priority n' = n_Priority n \<and>
     n_MaxRetries n' = n_MaxRetries n \<and> n_ScheduledAt n' = n_ScheduledAt n \<and> n_Metadata n' = n_Metadata n \<and>
     n_CreatedAt n' = n_CreatedAt n"

lemma path_same: "row_path k n n' \<Longrightarrow> same_notification n n'"
  by (induction rule: row_path.induct)
    (auto simp: same_notification_def row_write_defs elim!: row_stepE)

text \<open>
  The status is one of six (\<open>delivered\<close> is never reached), a sent row has the time it was sent and a
  failed one the time and the reason, and the retries stay within the limit.
\<close>

definition row_inv :: "int \<Rightarrow> Notification \<Rightarrow> bool" where
  "row_inv maxRetries n \<longleftrightarrow>
     n_Status n \<in> {StatusPending, StatusQueued, StatusProcessing, StatusSent, StatusFailed, StatusCancelled} \<and>
     (n_Status n = StatusSent \<longrightarrow> n_SentAt n \<noteq> None \<and> n_ProviderMessageID n \<noteq> None) \<and>
     (n_Status n = StatusFailed \<longrightarrow> n_FailedAt n \<noteq> None \<and> n_ErrorMessage n \<noteq> None) \<and>
     0 \<le> n_RetryCount n \<and> n_RetryCount n \<le> max 0 maxRetries"

lemma fresh_inv: "fresh n \<Longrightarrow> row_inv k n"
  by (simp add: fresh_def row_inv_def domain_consts)

lemma step_inv: "row_step k n n' \<Longrightarrow> row_inv k n \<Longrightarrow> row_inv k n'"
  by (erule row_stepE) (simp_all add: row_inv_def row_write_defs domain_consts)

lemma path_inv: "row_path k n n' \<Longrightarrow> row_inv k n \<Longrightarrow> row_inv k n'"
  by (induction rule: row_path.induct) (auto intro: step_inv)

text \<open>The edges of the status, and that a path of a row is a path along them.\<close>

definition status_edge :: "string \<Rightarrow> string \<Rightarrow> bool" where
  "status_edge st st' \<longleftrightarrow>
     (st, st') \<in> {(StatusPending, StatusQueued), (StatusPending, StatusCancelled), (StatusQueued, StatusCancelled),
        (StatusProcessing, StatusSent), (StatusProcessing, StatusFailed)} \<or> st' = StatusProcessing"

lemma step_edge: "row_step k n n' \<Longrightarrow> n_Status n' = n_Status n \<or> status_edge (n_Status n) (n_Status n')"
  by (erule row_stepE) (auto simp: status_edge_def)

lemma path_edges: "row_path k n n' \<Longrightarrow> status_edge\<^sup>*\<^sup>* (n_Status n) (n_Status n')"
proof (induction rule: row_path.induct)
  case (path_refl n)
  then show ?case by simp
next
  case (path_step n n1 n2)
  then show ?case using step_edge [OF path_step(2)] by (metis rtranclp.rtrancl_into_rtrancl)
qed

lemma path_retries: "row_path k n n' \<Longrightarrow> n_RetryCount n \<le> n_RetryCount n'"
  by (induction rule: row_path.induct) (auto simp: row_write_defs elim!: row_stepE)

section \<open>Tables\<close>

text \<open>Every row that was there moves along a path, and every other row comes from a fresh one.\<close>

definition rows_evolve :: "int \<Rightarrow> (uuid \<rightharpoonup> Notification) \<Rightarrow> (uuid \<rightharpoonup> Notification) \<Rightarrow> bool" where
  "rows_evolve k m m' \<longleftrightarrow>
     (\<forall>i n. m i = Some n \<longrightarrow> (\<exists>n'. m' i = Some n' \<and> row_path k n n')) \<and>
     (\<forall>i n'. m i = None \<longrightarrow> m' i = Some n' \<longrightarrow> (\<exists>n. fresh n \<and> row_path k n n'))"

lemma evolve_refl: "rows_evolve k m m"
  by (auto simp: rows_evolve_def intro: path_refl)

lemma evolve_old: "rows_evolve k m m' \<Longrightarrow> m i = Some n \<Longrightarrow> \<exists>n'. m' i = Some n' \<and> row_path k n n'"
  and evolve_new: "rows_evolve k m m' \<Longrightarrow> m i = None \<Longrightarrow> m' i = Some n' \<Longrightarrow> \<exists>n. fresh n \<and> row_path k n n'"
  unfolding rows_evolve_def by blast+

lemma evolve_trans:
  assumes "rows_evolve k m m1" "rows_evolve k m1 m2"
  shows "rows_evolve k m m2"
  unfolding rows_evolve_def
proof (intro conjI allI impI)
  fix i n assume "m i = Some n"
  then obtain n1 where "m1 i = Some n1" "row_path k n n1" using evolve_old [OF assms(1)] by blast
  then show "\<exists>n'. m2 i = Some n' \<and> row_path k n n'"
    using evolve_old [OF assms(2)] path_trans by blast
next
  fix i n' assume m: "m i = None" "m2 i = Some n'"
  show "\<exists>n. fresh n \<and> row_path k n n'"
  proof (cases "m1 i")
    case None
    then show ?thesis using evolve_new [OF assms(2)] m(2) by blast
  next
    case (Some n1)
    then obtain n2 where "m2 i = Some n2" "row_path k n1 n2" using evolve_old [OF assms(2)] by blast
    moreover obtain n where "fresh n" "row_path k n n1" using evolve_new [OF assms(1) m(1)] Some by blast
    ultimately show ?thesis using m(2) path_trans by fastforce
  qed
qed

lemma evolve_one:
  assumes "frame {i} m m'" "m i = Some n" "m' i = Some n'" "row_path k n n'"
  shows "rows_evolve k m m'"
  unfolding rows_evolve_def
proof (intro conjI allI impI)
  fix j q assume "m j = Some q"
  then show "\<exists>q'. m' j = Some q' \<and> row_path k q q'"
    using assms path_refl by (cases "j = i") (auto simp: frame_def)
next
  fix j q assume "m j = None" "m' j = Some q"
  then show "\<exists>n. fresh n \<and> row_path k n q" using assms by (cases "j = i") (auto simp: frame_def)
qed

lemma evolve_added: "rows_added m m' rs \<Longrightarrow> list_all fresh rs \<Longrightarrow> rows_evolve k m m'"
  unfolding rows_evolve_def
proof (intro conjI allI impI)
  fix i n assume "rows_added m m' rs" "m i = Some n"
  then show "\<exists>n'. m' i = Some n' \<and> row_path k n n'" using rows_added_keeps path_refl by blast
next
  fix i n' assume a: "rows_added m m' rs" "list_all fresh rs" "m i = None" "m' i = Some n'"
  then have "i \<in> n_ID ` set rs" by (auto simp: rows_added_def)
  with a have "n' \<in> set rs" by (auto simp: rows_added_def)
  with a(2) show "\<exists>n. fresh n \<and> row_path k n n'" using path_refl by (auto simp: list_all_iff)
qed

text \<open>Rows that have been handed over, new or pending ones.\<close>

lemma handed_over_path:
  assumes "handed_over up now n m' pubs n'" "n_Status n = StatusPending"
  shows "\<exists>r. m' (n_ID n) = Some r \<and> row_path k n r"
  using assms unfolding handed_over_def by (metis mark_queued path_one path_refl)

lemma evolve_handed_over:
  assumes "frame (n_ID ` set ns) m m'" "\<And>n. n \<in> set ns \<Longrightarrow> \<exists>r. m' (n_ID n) = Some r \<and> row_path k n r"
    and "(\<forall>n \<in> set ns. m (n_ID n) = Some n) \<or> (\<forall>n \<in> set ns. m (n_ID n) = None \<and> fresh n)"
  shows "rows_evolve k m m'"
  unfolding rows_evolve_def
proof (intro conjI allI impI)
  fix i n assume m: "m i = Some n"
  show "\<exists>n'. m' i = Some n' \<and> row_path k n n'"
  proof (cases "i \<in> n_ID ` set ns")
    case True
    then obtain q where "q \<in> set ns" "i = n_ID q" by blast
    then show ?thesis using assms(2) [of q] assms(3) m by auto
  next
    case False
    then show ?thesis using assms(1) m path_refl by (auto simp: frame_def)
  qed
next
  fix i n' assume m: "m i = None" "m' i = Some n'"
  show "\<exists>n. fresh n \<and> row_path k n n'"
  proof (cases "i \<in> n_ID ` set ns")
    case True
    then obtain q where "q \<in> set ns" "i = n_ID q" by blast
    then show ?thesis using assms(2) [of q] assms(3) m by auto
  next
    case False
    then show ?thesis using assms(1) m by (auto simp: frame_def)
  qed
qed

text \<open>A row a worker has processed.\<close>

lemma processed_path: "processed k n n' \<Longrightarrow> row_path k n n'"
proof -
  assume p: "processed k n n'"
  have mark: "row_path k n (set_status StatusProcessing t n)" for t by (intro path_one take_up)
  have "row_step k (set_status StatusProcessing t n) (f (set_status StatusProcessing t n))"
    if "outcome_write k n f" for f t
    using that by (auto simp: outcome_write_def intro: row_step.intros)
  with mark p show ?thesis unfolding processed_def by (metis path_refl path_step)
qed

lemma evolve_processed: "row_processed k i m m' \<Longrightarrow> rows_evolve k m m'"
proof (cases "m i")
  case None
  assume "row_processed k i m m'"
  with None have "m' j = m j" for j by (cases "j = i") (auto simp: row_processed_def frame_def)
  then have "m' = m" by blast
  then show "rows_evolve k m m'" by (simp add: evolve_refl)
next
  case (Some n)
  then show "row_processed k i m m' \<Longrightarrow> rows_evolve k m m'"
    by (auto simp: row_processed_def intro: evolve_one processed_path)
qed

lemma evolve_cancelled:
  assumes "row_write m m' i (set_status StatusCancelled t) must"
    and "m' \<noteq> m \<longrightarrow> (\<exists>n. m i = Some n \<and> n_Status n \<in> {StatusPending, StatusQueued})"
  shows "rows_evolve k m m'"
proof (cases "m' = m")
  case True
  then show ?thesis by (simp add: evolve_refl)
next
  case False
  with assms obtain n where n: "m i = Some n" "m' = m(i \<mapsto> set_status StatusCancelled t n)"
    "n_Status n \<in> {StatusPending, StatusQueued}" by (auto simp: row_write_def)
  then show ?thesis by (intro evolve_one [of i m m' n]) (auto simp: frame_def intro: path_one cancel)
qed

lemma evolve_polled: "polled up now m m' pubs \<Longrightarrow> rows_evolve k m m'"
proof -
  assume "polled up now m m' pubs"
  then obtain ns ns' pubss where p: "frame (n_ID ` set ns) m m'"
    "\<forall>j < length ns. m (n_ID (ns ! j)) = Some (ns ! j) \<and> n_Status (ns ! j) = StatusPending \<and>
       handed_over up now (ns ! j) m' (pubss ! j) (ns' ! j)"
    unfolding polled_def by blast
  have "\<exists>r. m' (n_ID n) = Some r \<and> row_path k n r" if "n \<in> set ns" for n
    using that p(2) handed_over_path by (metis in_set_conv_nth)
  moreover have "\<forall>n \<in> set ns. m (n_ID n) = Some n" using p(2) by (metis in_set_conv_nth)
  ultimately show ?thesis using evolve_handed_over [OF p(1)] by blast
qed

section \<open>Messages\<close>

text \<open>Every message is that of a stored row.\<close>

definition messages_ok :: "uuid_pkg \<Rightarrow> (uuid \<rightharpoonup> Notification) \<Rightarrow> Publishing list \<Rightarrow> bool" where
  "messages_ok up m pubs \<longleftrightarrow> list_all (\<lambda>p. \<exists>i n. m i = Some n \<and> message_for up n p) pubs"

lemma message_for_same: "same_notification n n' \<Longrightarrow> message_for up n p \<Longrightarrow> message_for up n' p"
  by (simp add: same_notification_def message_for_def message_of_def)

lemma Publish_message_for: "Publish up pe n = (err, Some p) \<Longrightarrow> message_for up n p"
  using Publish_message [of up pe n err p] by (simp add: message_for_def)

end
