(* ===== verification/Interleaving.thy ===== *)
theory Interleaving
  imports Lifecycle Handler
begin

text \<open>
  Operations whose statements interleave with those of others. Every operation of the service, the
  scheduler and the workers is a function of the repository it is given; given one that lets other
  operations act before each of its calls, the same function is that operation in a concurrent
  system. What the others may do (the rely condition) is any number of the statements the program
  has; that each call of an operation is one of them (the guarantee) is part of what is shown, so
  that the operations are fit for one another.
\<close>

section \<open>Statements\<close>

text \<open>
  What one statement does to a row. Unlike \<open>row_step\<close> most have no condition on the status: the program
  has tested it, if at all, by an earlier statement.
\<close>

inductive stmt_step :: "Notification \<Rightarrow> Notification \<Rightarrow> bool" where
  stmt_queued: "stmt_step n (set_status StatusQueued t n)"
| stmt_cancel: "n_Status n \<in> {StatusPending, StatusQueued} \<Longrightarrow> stmt_step n (set_status StatusCancelled t n)"
| stmt_take_up: "stmt_step n (set_status StatusProcessing t n)"
| stmt_sent: "stmt_step n (set_sent m t n)"
| stmt_failed: "stmt_step n (set_failed m t n)"
| stmt_retry: "stmt_step n (set_retry d t n)"

inductive_cases stmt_stepE: "stmt_step n n'"

text \<open>What one statement does to the table: nothing, new rows, or one row.\<close>

inductive statement :: "(uuid \<rightharpoonup> Notification) \<Rightarrow> (uuid \<rightharpoonup> Notification) \<Rightarrow> bool" where
  st_none: "statement m m"
| st_insert: "rows_added m m' rs \<Longrightarrow> list_all fresh rs \<Longrightarrow> statement m m'"
| st_update: "m i = Some n \<Longrightarrow> stmt_step n n' \<Longrightarrow> statement m (m(i \<mapsto> n'))"

text \<open>
  What every row keeps under any sequence of statements: the notification itself, the retries counted,
  and that a sent or failed row says when and what.
\<close>

definition row_sound :: "Notification \<Rightarrow> bool" where
  "row_sound n \<longleftrightarrow>
     n_Status n \<in> {StatusPending, StatusQueued, StatusProcessing, StatusSent, StatusFailed, StatusCancelled} \<and>
     (n_Status n = StatusSent \<longrightarrow> n_SentAt n \<noteq> None \<and> n_ProviderMessageID n \<noteq> None) \<and>
     (n_Status n = StatusFailed \<longrightarrow> n_FailedAt n \<noteq> None \<and> n_ErrorMessage n \<noteq> None) \<and> 0 \<le> n_RetryCount n"

definition keeps :: "Notification \<Rightarrow> Notification \<Rightarrow> bool" where
  "keeps n n' \<longleftrightarrow> same_notification n n' \<and> n_RetryCount n \<le> n_RetryCount n' \<and> (row_sound n \<longrightarrow> row_sound n')"

definition table_keeps :: "(uuid \<rightharpoonup> Notification) \<Rightarrow> (uuid \<rightharpoonup> Notification) \<Rightarrow> bool" where
  "table_keeps m m' \<longleftrightarrow> (\<forall>i n. m i = Some n \<longrightarrow> (\<exists>n'. m' i = Some n' \<and> keeps n n')) \<and>
     (\<forall>i n'. m i = None \<longrightarrow> m' i = Some n' \<longrightarrow> row_sound n')"

lemma same_refl [simp]: "same_notification n n"
  by (simp add: same_notification_def)

lemma keeps_refl [simp]: "keeps n n"
  by (simp add: keeps_def)

lemma keeps_trans: "keeps n n1 \<Longrightarrow> keeps n1 n2 \<Longrightarrow> keeps n n2"
  by (auto simp: keeps_def same_notification_def)

lemma stmt_keeps: "stmt_step n n' \<Longrightarrow> keeps n n'"
  by (erule stmt_stepE) (simp_all add: keeps_def same_notification_def row_sound_def row_write_defs domain_consts)

lemma fresh_sound: "fresh n \<Longrightarrow> row_sound n"
  by (simp add: fresh_def row_sound_def domain_consts)

lemma statement_keeps: "statement m m' \<Longrightarrow> table_keeps m m'"
proof -
  assume "statement m m'"
  then show ?thesis
  proof cases
    case st_none
    then show ?thesis by (simp add: table_keeps_def)
  next
    case (st_insert rs)
    have "\<exists>n'. m' i = Some n' \<and> keeps n n'" if "m i = Some n" for i n
      using that st_insert(1) rows_added_keeps keeps_refl by blast
    moreover have "row_sound n'" if "m i = None" "m' i = Some n'" for i n'
    proof -
      have "i \<in> n_ID ` set rs" using that st_insert(1) by (auto simp: rows_added_def)
      then have "n' \<in> set rs" using st_insert(1) that(2) by (auto simp: rows_added_def)
      then show ?thesis using st_insert(2) fresh_sound by (simp add: list_all_iff)
    qed
    ultimately show ?thesis by (simp add: table_keeps_def)
  next
    case (st_update i n n')
    then show ?thesis using stmt_keeps by (auto simp: table_keeps_def)
  qed
qed

lemma table_keeps_trans:
  assumes "table_keeps m m1" "table_keeps m1 m2"
  shows "table_keeps m m2"
  unfolding table_keeps_def
proof (intro conjI allI impI)
  fix i n assume "m i = Some n"
  then obtain n1 where "m1 i = Some n1" "keeps n n1" using assms(1) unfolding table_keeps_def by blast
  moreover from this(1) obtain n2 where "m2 i = Some n2" "keeps n1 n2" using assms(2) unfolding table_keeps_def by blast
  ultimately show "\<exists>n'. m2 i = Some n' \<and> keeps n n'" using keeps_trans by blast
next
  fix i n' assume m: "m i = None" "m2 i = Some n'"
  show "row_sound n'"
  proof (cases "m1 i")
    case None
    then show ?thesis using m(2) assms(2) unfolding table_keeps_def by blast
  next
    case (Some n1)
    then have "row_sound n1" using m(1) assms(1) unfolding table_keeps_def by blast
    moreover obtain n2 where "m2 i = Some n2" "keeps n1 n2" using Some assms(2) unfolding table_keeps_def by blast
    ultimately show ?thesis using m(2) by (simp add: keeps_def)
  qed
qed

lemma statements_keep: "statement\<^sup>*\<^sup>* m m' \<Longrightarrow> table_keeps m m'"
proof (induction rule: rtranclp_induct)
  case base
  then show ?case using statement_keeps st_none by blast
next
  case (step m1 m2)
  then show ?case using statement_keeps table_keeps_trans by blast
qed

text \<open>The writes of the contract are statements.\<close>

lemma row_write_statement:
  assumes "row_write m m' i f must" "\<And>n. m i = Some n \<Longrightarrow> m' \<noteq> m \<Longrightarrow> stmt_step n (f n)"
  shows "statement m m'"
proof (cases "m' = m")
  case True
  then show ?thesis by (simp add: st_none)
next
  case False
  with assms(1) obtain n where "m i = Some n" "m' = m(i \<mapsto> f n)" by (auto simp: row_write_def)
  with assms(2) False show ?thesis by (simp add: st_update)
qed

section \<open>A repository others work on\<close>

text \<open>
  The store, what others do to it before each of the calls to come, and what the calls so far have done:
  the store before and after each. Before a call, \<open>fst\<close> of the next entry happens before the reads that
  precede it and \<open>snd\<close> between them and the call.
\<close>

record 'st run =
  ru_store :: 'st
  ru_others :: "(('st \<Rightarrow> 'st) \<times> ('st \<Rightarrow> 'st)) list"
  ru_log :: "('st \<times> 'st) list"

definition read_store :: "'st run \<Rightarrow> 'st" where
  "read_store w = (case ru_others w of [] \<Rightarrow> ru_store w | (f, _) # _ \<Rightarrow> f (ru_store w))"

definition call_store :: "'st run \<Rightarrow> 'st" where
  "call_store w = (case ru_others w of [] \<Rightarrow> ru_store w | (f, g) # _ \<Rightarrow> g (f (ru_store w)))"

definition called :: "('st \<Rightarrow> 'r \<times> 'st) \<Rightarrow> 'st run \<Rightarrow> 'r \<times> 'st run" where
  "called op w =
     (let s = call_store w; (r, s') = op s
      in (r, \<lparr>ru_store = s', ru_others = tl (ru_others w), ru_log = ru_log w @ [(s, s')]\<rparr>))"

definition interleaved :: "'st NotificationRepository \<Rightarrow> 'st run NotificationRepository" where
  "interleaved R =
     \<lparr>repo_Create = (\<lambda>ce n. called (repo_Create R ce n)),
      repo_CreateBatch = (\<lambda>ce ns. called (repo_CreateBatch R ce ns)),
      repo_GetByID = (\<lambda>ce i w. repo_GetByID R ce i (read_store w)),
      repo_GetByBatchID = (\<lambda>ce i w. repo_GetByBatchID R ce i (read_store w)),
      repo_List = (\<lambda>ce fl c k w. repo_List R ce fl c k (read_store w)),
      repo_UpdateStatus = (\<lambda>ce i st. called (repo_UpdateStatus R ce i st)),
      repo_UpdateSent = (\<lambda>ce i m. called (repo_UpdateSent R ce i m)),
      repo_UpdateFailed = (\<lambda>ce i m. called (repo_UpdateFailed R ce i m)),
      repo_IncrementRetry = (\<lambda>ce i t. called (repo_IncrementRetry R ce i t)),
      repo_Cancel = (\<lambda>ce i. called (repo_Cancel R ce i)),
      repo_GetScheduledReady = (\<lambda>ce k w. repo_GetScheduledReady R ce k (read_store w))\<rparr>"

definition interleaved_templates :: "'st TemplateRepository \<Rightarrow> 'st run TemplateRepository" where
  "interleaved_templates TR =
     \<lparr>trepo_Create = (\<lambda>ce t. called (trepo_Create TR ce t)),
      trepo_GetByID = (\<lambda>ce i w. trepo_GetByID TR ce i (read_store w)),
      trepo_List = (\<lambda>ce k w. trepo_List TR ce k (read_store w))\<rparr>"

lemma interleaved_simps [simp]:
  "repo_Create (interleaved R) ce n = called (repo_Create R ce n)"
  "repo_CreateBatch (interleaved R) ce ns = called (repo_CreateBatch R ce ns)"
  "repo_GetByID (interleaved R) ce i w = repo_GetByID R ce i (read_store w)"
  "repo_UpdateStatus (interleaved R) ce i st = called (repo_UpdateStatus R ce i st)"
  "repo_UpdateSent (interleaved R) ce i m = called (repo_UpdateSent R ce i m)"
  "repo_UpdateFailed (interleaved R) ce i m = called (repo_UpdateFailed R ce i m)"
  "repo_IncrementRetry (interleaved R) ce i t = called (repo_IncrementRetry R ce i t)"
  "repo_Cancel (interleaved R) ce i = called (repo_Cancel R ce i)"
  "repo_GetScheduledReady (interleaved R) ce k w = repo_GetScheduledReady R ce k (read_store w)"
  by (simp_all add: interleaved_def)

text \<open>
  What others may do, and what a run may have come to (the rely and the guarantee), for a store with the
  well-formedness \<open>W\<close> and the table \<open>rows\<close>: any number of statements, each call of the run's own
  one of them.
\<close>

definition others_ok :: "('st \<Rightarrow> bool) \<Rightarrow> ('st \<Rightarrow> uuid \<rightharpoonup> Notification) \<Rightarrow> ('st \<Rightarrow> 'st) \<Rightarrow> bool" where
  "others_ok W rows f \<longleftrightarrow> (\<forall>s. W s \<longrightarrow> W (f s) \<and> statement\<^sup>*\<^sup>* (rows s) (rows (f s)))"

definition run_ok :: "('st \<Rightarrow> bool) \<Rightarrow> ('st \<Rightarrow> uuid \<rightharpoonup> Notification) \<Rightarrow> 'st run \<Rightarrow> bool" where
  "run_ok W rows w \<longleftrightarrow> W (ru_store w) \<and> list_all (\<lambda>(f, g). others_ok W rows f \<and> others_ok W rows g) (ru_others w) \<and>
     list_all (\<lambda>(s, s'). statement (rows s) (rows s')) (ru_log w)"

context notification_store
begin

abbreviation ok :: "'st run \<Rightarrow> bool" where
  "ok \<equiv> run_ok wf rows"

text \<open>What an operation comes to for the next reader.\<close>

definition moves :: "'st run \<Rightarrow> 'st run \<Rightarrow> bool" where
  "moves w w' \<longleftrightarrow> ok w' \<and> statement\<^sup>*\<^sup>* (rows (read_store w)) (rows (read_store w'))"

lemma moves_refl: "ok w \<Longrightarrow> moves w w"
  by (simp add: moves_def)

lemma moves_trans: "moves w w1 \<Longrightarrow> moves w1 w2 \<Longrightarrow> moves w w2"
  by (auto simp: moves_def intro: rtranclp_trans)

lemma moves_ok: "moves w w' \<Longrightarrow> ok w'"
  by (simp add: moves_def)

lemma read_ok: "ok w \<Longrightarrow> wf (read_store w) \<and> statement\<^sup>*\<^sup>* (rows (ru_store w)) (rows (read_store w))"
  by (auto simp: run_ok_def read_store_def others_ok_def split: list.splits)

lemma call_ok: "ok w \<Longrightarrow> wf (call_store w) \<and> statement\<^sup>*\<^sup>* (rows (read_store w)) (rows (call_store w))"
  by (auto simp: run_ok_def read_store_def call_store_def others_ok_def split: list.splits)

lemma called_moves:
  assumes "ok w" "called op w = (r, w')"
    and op: "\<And>s'. op (call_store w) = (r, s') \<Longrightarrow> wf s' \<and> statement (rows (call_store w)) (rows s')"
  shows "moves w w'"
proof -
  obtain s' where s': "op (call_store w) = (r, s')"
    "w' = \<lparr>ru_store = s', ru_others = tl (ru_others w), ru_log = ru_log w @ [(call_store w, s')]\<rparr>"
    using assms(2) by (auto simp: called_def Let_def split: prod.splits)
  have "list_all (\<lambda>(f, g). others_ok wf rows f \<and> others_ok wf rows g) (tl (ru_others w))"
    using assms(1) by (cases "ru_others w") (auto simp: run_ok_def)
  then have w': "ok w'" using assms(1) op [OF s'(1)] by (simp add: run_ok_def s'(2))
  have "statement\<^sup>*\<^sup>* (rows (read_store w)) (rows (ru_store w'))"
    using call_ok [OF assms(1)] op [OF s'(1)] by (simp add: s'(2)) (meson rtranclp.rtrancl_into_rtrancl)
  then show ?thesis using w' read_ok [OF w'] by (auto simp: moves_def intro: rtranclp_trans)
qed

lemma interleaved_status:
  assumes "ok w" "called (repo_UpdateStatus R ce i st) w = (e, w')" "st \<in> {StatusQueued, StatusProcessing}"
  shows "moves w w'"
proof (rule called_moves [OF assms(1,2)])
  fix s' assume "repo_UpdateStatus R ce i st (call_store w) = (e, s')"
  from status_writes [OF conjunct1 [OF call_ok [OF assms(1)]] this] assms(3)
  show "wf s' \<and> statement (rows (call_store w)) (rows s')"
    by (blast intro: row_write_statement stmt_queued stmt_take_up)
qed

lemma interleaved_outcome:
  assumes "ok w"
  shows "called (repo_UpdateSent R ce i m) w = (e, w') \<Longrightarrow> moves w w'"
    "called (repo_UpdateFailed R ce i m) w = (e, w') \<Longrightarrow> moves w w'"
    "called (repo_IncrementRetry R ce i t) w = (e, w') \<Longrightarrow> moves w w'"
    "called (repo_Cancel R ce i) w = (e, w') \<Longrightarrow> moves w w'"
proof -
  have wf: "wf (call_store w)" using call_ok [OF assms] by simp
  show "called (repo_UpdateSent R ce i m) w = (e, w') \<Longrightarrow> moves w w'"
    by (erule called_moves [OF assms], drule sent_writes [OF wf]) (blast intro: row_write_statement stmt_sent)
  show "called (repo_UpdateFailed R ce i m) w = (e, w') \<Longrightarrow> moves w w'"
    by (erule called_moves [OF assms], drule failed_writes [OF wf]) (blast intro: row_write_statement stmt_failed)
  show "called (repo_IncrementRetry R ce i t) w = (e, w') \<Longrightarrow> moves w w'"
    by (erule called_moves [OF assms], drule retry_writes [OF wf]) (blast intro: row_write_statement stmt_retry)
  show "called (repo_Cancel R ce i) w = (e, w') \<Longrightarrow> moves w w'"
  proof (erule called_moves [OF assms])
    fix s' assume "repo_Cancel R ce i (call_store w) = (e, s')"
    from cancel_writes [OF wf this] have c: "wf s'"
      "row_write (rows (call_store w)) (rows s') i (set_status StatusCancelled (ce_now ce)) (e = None)"
      "rows s' \<noteq> rows (call_store w) \<longrightarrow> (\<exists>n. rows (call_store w) i = Some n \<and> n_Status n \<in> {StatusPending, StatusQueued})"
      by auto
    from row_write_statement [OF c(2)] c(1,3) show "wf s' \<and> statement (rows (call_store w)) (rows s')"
      by (metis option.inject stmt_cancel)
  qed
qed

section \<open>Operations\<close>

text \<open>An operation's notification is that of a row, as far as the next reader sees.\<close>

definition known :: "Notification \<Rightarrow> 'st run \<Rightarrow> bool" where
  "known n w \<longleftrightarrow> (\<exists>r. rows (read_store w) (n_ID n) = Some r \<and> same_notification n r)"

definition advances :: "uuid_pkg \<Rightarrow> 'st run \<times> Publishing list \<Rightarrow> 'st run \<times> Publishing list \<Rightarrow> bool" where
  "advances up x x' \<longleftrightarrow> moves (fst x) (fst x') \<and>
     (\<exists>pubs. snd x' = snd x @ pubs \<and> messages_ok up (rows (read_store (fst x'))) pubs)"

lemma moves_keep: "moves w w' \<Longrightarrow> table_keeps (rows (read_store w)) (rows (read_store w'))"
  by (simp add: moves_def statements_keep)

lemma known_moves: "known n w \<Longrightarrow> moves w w' \<Longrightarrow> known n w'"
  by (drule moves_keep) (force simp: known_def table_keeps_def keeps_def same_notification_def)

lemma messages_move: "messages_ok up (rows (read_store w)) pubs \<Longrightarrow> moves w w' \<Longrightarrow> messages_ok up (rows (read_store w')) pubs"
  unfolding messages_ok_def list_all_iff
  by (metis keeps_def message_for_same moves_keep table_keeps_def)

lemma advances_silent: "moves w w' \<Longrightarrow> advances up (w, out) (w', out)"
  by (simp add: advances_def messages_ok_def)

lemma advances_refl: "ok (fst x) \<Longrightarrow> advances up x x"
  by (simp add: advances_def moves_refl messages_ok_def)

lemma advances_trans:
  assumes "advances up x x1" "advances up x1 x2"
  shows "advances up x x2"
proof -
  obtain p1 where p1: "snd x1 = snd x @ p1" "messages_ok up (rows (read_store (fst x1))) p1" "moves (fst x) (fst x1)"
    using assms(1) by (auto simp: advances_def)
  obtain p2 where p2: "snd x2 = snd x1 @ p2" "messages_ok up (rows (read_store (fst x2))) p2" "moves (fst x1) (fst x2)"
    using assms(2) by (auto simp: advances_def)
  have "messages_ok up (rows (read_store (fst x2))) (p1 @ p2)"
    using p2(2) messages_move [OF p1(2) p2(3)] by (simp add: messages_ok_def)
  then show ?thesis using p1 p2 moves_trans by (auto simp: advances_def)
qed

lemma advances_published:
  assumes "ok w" "known n w" "Publish up pe n = (err, pub)"
  shows "advances up (w, out) (w, out @ (case pub of None \<Rightarrow> [] | Some p \<Rightarrow> [p]))"
proof -
  have "messages_ok up (rows (read_store w)) (case pub of None \<Rightarrow> [] | Some p \<Rightarrow> [p])"
  proof (cases pub)
    case (Some p)
    then have "message_for up n p" using assms(3) Publish_message_for by blast
    obtain r where "rows (read_store w) (n_ID n) = Some r" "same_notification n r"
      using assms(2) by (auto simp: known_def)
    with message_for_same [OF this(2) \<open>message_for up n p\<close>] show ?thesis by (auto simp: messages_ok_def Some)
  qed (simp add: messages_ok_def)
  then show ?thesis using moves_refl [OF assms(1)] by (simp add: advances_def)
qed

lemma interleaved_publish:
  assumes "ok w" "known n w" "publish_and_mark up (interleaved R) pe ce n (w, out) = (n', x')"
  shows "advances up (w, out) x'"
proof -
  obtain err pub where pub: "Publish up pe n = (err, pub)" by force
  obtain e w1 where upd: "called (repo_UpdateStatus R ce (n_ID n) StatusQueued) w = (e, w1)" by force
  let ?out = "out @ (case pub of None \<Rightarrow> [] | Some p \<Rightarrow> [p])"
  have p: "advances up (w, out) (w, ?out)" by (rule advances_published [OF assms(1,2) pub])
  have "advances up (w, ?out) (w1, ?out)"
    using interleaved_status [OF assms(1) upd] advances_silent by simp
  with p advances_trans have m: "advances up (w, out) (w1, ?out)" by blast
  have "x' = (w, ?out) \<or> x' = (w1, ?out)"
    using assms(3) by (auto simp: publish_and_mark_def pub upd Let_def split: option.splits)
  with p m show ?thesis by auto
qed

lemma interleaved_batch:
  "\<lbrakk>ok (fst x); \<forall>n \<in> set ns. known n (fst x); publish_batch up (interleaved R) env i ns x = (ns', x')\<rbrakk> \<Longrightarrow>
   advances up x x'"
proof (induction ns arbitrary: i x ns')
  case Nil
  then show ?case by (simp add: advances_refl)
next
  case (Cons n ns)
  obtain w out where x: "x = (w, out)" by force
  obtain n1 x1 where one: "(if future (sv_now env i) n then (n, x)
      else publish_and_mark up (interleaved R) (sv_pub env i) (sv_repo env (Suc i)) n x) = (n1, x1)" by (metis surj_pair)
  have a1: "advances up x x1"
    using one Cons.prems(1,2) interleaved_publish advances_refl by (auto simp: x split: if_splits)
  obtain ns1 where rest: "publish_batch up (interleaved R) env (Suc i) ns x1 = (ns1, x')"
    using Cons.prems(3) one by (auto split: prod.splits)
  have "ok (fst x1)" "\<forall>n \<in> set ns. known n (fst x1)"
    using a1 Cons.prems(2) known_moves moves_ok by (auto simp: advances_def)
  from Cons.IH [OF this rest] a1 show ?case by (rule advances_trans [rotated])
qed

lemma interleaved_create:
  assumes "ok w" "called (repo_Create R ce (notification_of_request b req)) w = (res, w')"
  shows "moves w w' \<and> (\<forall>n. res = Inr n \<longrightarrow> known n w')"
proof -
  let ?n = "notification_of_request b req"
  have wf: "wf (call_store w)" using call_ok [OF assms(1)] by simp
  have "moves w w'"
  proof (rule called_moves [OF assms])
    fix s' assume run: "repo_Create R ce ?n (call_store w) = (res, s')"
    show "wf s' \<and> statement (rows (call_store w)) (rows s')"
    proof (cases res)
      case (Inl e)
      with create_keeps [OF wf] run st_none show ?thesis
        by (metis list.pred_inject stored_fresh st_insert)
    next
      case (Inr n)
      with create_inserts [OF wf] run show ?thesis
        by (metis list.pred_inject stored_fresh st_insert)
    qed
  qed
  moreover have "known n w'" if res: "res = Inr n" for n
  proof -
    obtain s' where s': "repo_Create R ce ?n (call_store w) = (Inr n, s')" "ru_store w' = s'"
      using assms(2) res by (auto simp: called_def Let_def split: prod.splits)
    have "rows s' (n_ID n) = Some n" using create_inserts [OF wf s'(1)] by (simp add: rows_added_def)
    then show ?thesis
      using read_ok [OF moves_ok [OF \<open>moves w w'\<close>]] s'(2) statements_keep
      by (fastforce simp: known_def table_keeps_def keeps_def)
  qed
  ultimately show ?thesis by blast
qed

lemma interleaved_insert_batch:
  assumes "ok w" "called (repo_CreateBatch R ce (map (notification_of_request b) reqs)) w = (res, w')"
  shows "moves w w' \<and> (\<forall>ns. res = Inr ns \<longrightarrow> (\<forall>n \<in> set ns. known n w'))"
proof -
  let ?ns = "map (notification_of_request b) reqs"
  have wf: "wf (call_store w)" using call_ok [OF assms(1)] by simp
  have fresh: "list_all2 stored_from ?ns ns \<Longrightarrow> list_all fresh ns" for ns
    by (auto simp: list_all2_conv_all_nth list_all_length intro: stored_fresh)
  have "moves w w'"
  proof (rule called_moves [OF assms])
    fix s' assume run: "repo_CreateBatch R ce ?ns (call_store w) = (res, s')"
    show "wf s' \<and> statement (rows (call_store w)) (rows s')"
    proof (cases res)
      case (Inl e)
      with batch_keeps [OF wf] run st_none fresh show ?thesis by (metis st_insert)
    next
      case (Inr n)
      with batch_inserts [OF wf] run fresh show ?thesis by (metis st_insert)
    qed
  qed
  moreover have "known n w'" if res: "res = Inr ns" "n \<in> set ns" for ns n
  proof -
    obtain s' where s': "repo_CreateBatch R ce ?ns (call_store w) = (Inr ns, s')" "ru_store w' = s'"
      using assms(2) res by (auto simp: called_def Let_def split: prod.splits)
    have "rows s' (n_ID n) = Some n" using batch_inserts [OF wf s'(1)] res(2) by (simp add: rows_added_def)
    then show ?thesis
      using read_ok [OF moves_ok [OF \<open>moves w w'\<close>]] s'(2) statements_keep
      by (fastforce simp: known_def table_keeps_def keeps_def)
  qed
  ultimately show ?thesis by blast
qed

lemma interleaved_service_create:
  assumes "ok w" "Service_Create up (interleaved R) TR env req (w, out) = (res, x')"
  shows "advances up (w, out) x'"
proof -
  have silent: "advances up (w, out) (w, out)" using advances_refl assms(1) by simp
  consider "x' = (w, out)"
    | req' res1 w1 where "called (repo_Create R (sv_repo env 0) (notification_of_request None req')) w = (res1, w1)"
      "case res1 of Inl e \<Rightarrow> x' = (w1, out)
       | Inr n \<Rightarrow> x' = (w1, out) \<or> x' = snd (publish_and_mark up (interleaved R) (sv_pub env 0) (sv_repo env 1) n (w1, out))"
    using assms(2)
    by (auto simp: Service_Create_def Let_def split: prod.splits option.splits sum.splits if_splits)
  then show ?thesis
  proof cases
    case 1
    then show ?thesis using silent by simp
  next
    case (2 req' res1 w1)
    note c = interleaved_create [OF assms(1) 2(1)]
    have a: "advances up (w, out) (w1, out)" using c advances_silent by blast
    have "advances up (w1, out) (snd (publish_and_mark up (interleaved R) (sv_pub env 0) (sv_repo env 1) n (w1, out)))"
      if "res1 = Inr n" for n
      using interleaved_publish [OF moves_ok, of w w1 n] c that by (metis prod.collapse)
    moreover have "advances up (w1, out) (w1, out)" by (rule advances_refl) (use c moves_ok in auto)
    ultimately have "advances up (w1, out) x'" using 2(2) by (cases res1) auto
    then show ?thesis by (rule advances_trans [OF a])
  qed
qed

lemma interleaved_service_batch:
  assumes "ok w" "Service_CreateBatch up (interleaved R) env req (w, out) = (res, x')"
  shows "advances up (w, out) x'"
proof -
  consider "x' = (w, out)"
    | reqs res1 w1 where
      "called (repo_CreateBatch R (sv_repo env 0) (map (notification_of_request (Some (sv_batch env))) reqs)) w = (res1, w1)"
      "case res1 of Inl e \<Rightarrow> x' = (w1, out) | Inr ns \<Rightarrow> x' = snd (publish_batch up (interleaved R) env 0 ns (w1, out))"
    using assms(2)
    by (auto simp: Service_CreateBatch_def Let_def split: prod.splits option.splits sum.splits)
  then show ?thesis
  proof cases
    case 1
    then show ?thesis using advances_refl assms(1) by simp
  next
    case (2 reqs res1 w1)
    note c = interleaved_insert_batch [OF assms(1) 2(1)]
    have a: "advances up (w, out) (w1, out)" using c advances_silent by blast
    have "advances up (w1, out) (snd (publish_batch up (interleaved R) env 0 ns (w1, out)))" if "res1 = Inr ns" for ns
      using interleaved_batch [of "(w1, out)" ns] c that moves_ok by (metis fst_conv prod.collapse)
    moreover have "advances up (w1, out) (w1, out)" by (rule advances_refl) (use c moves_ok in auto)
    ultimately have "advances up (w1, out) x'" using 2(2) by (cases res1) auto
    then show ?thesis by (rule advances_trans [OF a])
  qed
qed

lemma interleaved_cancel:
  assumes "ok w" "Service_Cancel (interleaved R) ce ce' i w = (res, w')"
  shows "moves w w'"
proof -
  obtain e w1 where c: "called (repo_Cancel R ce i) w = (e, w1)" by force
  then have "w' = w1" using assms(2) by (auto simp: Service_Cancel_def split: option.splits)
  then show ?thesis using interleaved_outcome(4) [OF assms(1) c] by simp
qed

lemma interleaved_poll_loop:
  "\<lbrakk>ok (fst x); \<forall>n \<in> set ns. known n (fst x); poll_loop up (interleaved R) env i ns x = x'\<rbrakk> \<Longrightarrow> advances up x x'"
proof (induction ns arbitrary: i x)
  case Nil
  then show ?case by (simp add: advances_refl)
next
  case (Cons n ns)
  obtain w out where x: "x = (w, out)" by force
  obtain err pub where pub: "Publish up (po_pub env i) n = (err, pub)" by force
  obtain e w1 where upd: "called (repo_UpdateStatus R (po_mark env i) (n_ID n) StatusQueued) w = (e, w1)" by force
  let ?out = "out @ (case pub of None \<Rightarrow> [] | Some p \<Rightarrow> [p])"
  have w: "ok w" "known n w" using Cons.prems(1,2) by (simp_all add: x)
  define w2 where "w2 = (case err of Some _ \<Rightarrow> w | None \<Rightarrow> w1)"
  have p: "advances up (w, out) (w, ?out)" by (rule advances_published [OF w pub])
  have "moves w w2"
    using moves_refl [OF w(1)] interleaved_status [OF w(1) upd] by (simp add: w2_def split: option.splits)
  then have a: "advances up x (w2, ?out)" using advances_trans [OF p advances_silent] by (simp add: x)
  have rest: "poll_loop up (interleaved R) env (Suc i) ns (w2, ?out) = x'"
    using Cons.prems(3) by (simp add: x pub upd w2_def Let_def split: option.splits)
  have "ok w2" "\<forall>n \<in> set ns. known n w2"
    using \<open>moves w w2\<close> Cons.prems(2) known_moves moves_ok by (auto simp: x)
  then show ?case using Cons.IH [OF _ _ rest] a advances_trans by auto
qed

lemma interleaved_poll:
  assumes "ok (fst x)" "scans_all (po_ready env)" "poll up (interleaved R) env x = x'"
  shows "advances up x x'"
proof (cases "repo_GetScheduledReady R (po_ready env) 100 (read_store (fst x))")
  case (Inl e)
  then show ?thesis using assms advances_refl by (auto simp: poll_def)
next
  case (Inr ns)
  have "wf (read_store (fst x))" using read_ok [OF assms(1)] by simp
  from scheduled_sound [OF this assms(2) Inr] have "\<forall>n \<in> set ns. known n (fst x)"
    by (auto simp: known_def)
  then show ?thesis
    using assms Inr advances_refl interleaved_poll_loop by (auto simp: poll_def split: if_splits)
qed

lemma interleaved_process_outcome:
  assumes "ok (ps_store s)" "Process_outcome up (interleaved R) p env msg i n result s = (s', eff)"
  shows "moves (ps_store s) (ps_store s')"
  using assms(2) moves_refl [OF assms(1)] interleaved_outcome(1-3) [OF assms(1)]
  by (auto simp: Process_outcome_def Let_def split: sum.splits provider_error.splits prod.splits if_splits)

lemma interleaved_process:
  assumes "ok (ps_store s)" "Process up (interleaved R) p env body s = (s', eff)"
  shows "moves (ps_store s) (ps_store s')"
proof -
  have deliver: "moves (ps_store s) (ps_store s1)"
    if run: "Process_deliver up (interleaved R) p env msg i n s = (s1, eff1)" for msg i n s1 eff1
  proof -
    obtain e w1 where upd: "called (repo_UpdateStatus R (pv_mark env) i StatusProcessing) (ps_store s) = (e, w1)" by force
    have m: "moves (ps_store s) w1" using interleaved_status [OF assms(1) upd] by simp
    consider "ps_store s1 = w1"
      | result cb bk eff2 where "Process_outcome up (interleaved R) p env msg i n result
          (s\<lparr>ps_store := w1, ps_breaker := cb, ps_bucket := bk\<rparr>) = (s1, eff2)"
      using run by (auto simp: Process_deliver_def upd Let_def split: option.splits prod.splits if_splits)
    then show ?thesis
    proof cases
      case 1
      then show ?thesis using m by simp
    next
      case (2 result cb bk eff2)
      from interleaved_process_outcome [OF _ 2] moves_ok [OF m] have "moves w1 (ps_store s1)" by simp
      with m show ?thesis by (rule moves_trans)
    qed
  qed
  show ?thesis
    using assms(2) deliver moves_refl [OF assms(1)]
    by (auto simp: Process_def Let_def split: option.splits sum.splits if_splits prod.splits)
qed

end

section \<open>The operations of the program\<close>

text \<open>
  The requests that write, a poll and the processing of a delivery, each on a repository that lets
  others act between its calls.
\<close>

inductive operation :: "uuid_pkg \<Rightarrow> pg_server \<Rightarrow> cursor_json \<Rightarrow> pg_state run \<times> Publishing list \<Rightarrow>
    pg_state run \<times> Publishing list \<Rightarrow> bool" for up srv cj where
  op_create: "Handler_Create up (interleaved (postgres_repository up srv cj)) (interleaved_templates (template_repository up srv))
      env depth body x = (resp, x') \<Longrightarrow> operation up srv cj x x'"
| op_create_batch: "Handler_CreateBatch up (interleaved (postgres_repository up srv cj)) env body x = (resp, x') \<Longrightarrow>
    operation up srv cj x x'"
| op_cancel: "Handler_Cancel up (interleaved (postgres_repository up srv cj)) ce ce' raw w = (resp, w') \<Longrightarrow>
    operation up srv cj (w, out) (w', out)"
| op_poll: "scans_all (po_ready env) \<Longrightarrow> poll up (interleaved (postgres_repository up srv cj)) env x = x' \<Longrightarrow>
    operation up srv cj x x'"
| op_process: "Process up (interleaved (postgres_repository up srv cj)) p env' body
      \<lparr>ps_store = w, ps_breaker = cb, ps_bucket = bk\<rparr> = (s', eff) \<Longrightarrow>
    operation up srv cj (w, out) (ps_store s', out)"

lemma operation_advances:
  assumes "operation up srv cj x x'" "run_ok (pg_wf srv) pg_rows (fst x)"
  shows "pg.advances srv up x x'"
  using assms(1)
proof cases
  case (op_create env depth body resp)
  consider "x' = x" | req res where "Service_Create up (interleaved (postgres_repository up srv cj))
      (interleaved_templates (template_repository up srv)) env req x = (res, x')"
    using op_create by (auto simp: Handler_Create_def Let_def split: option.splits if_splits prod.splits sum.splits)
  then show ?thesis
    by cases (use assms(2) pg.advances_refl pg.interleaved_service_create in \<open>metis prod.collapse\<close>)+
next
  case (op_create_batch env body resp)
  consider "x' = x" | req res where "Service_CreateBatch up (interleaved (postgres_repository up srv cj)) env req x = (res, x')"
    using op_create_batch by (auto simp: Handler_CreateBatch_def split: option.splits prod.splits sum.splits)
  then show ?thesis
    by cases (use assms(2) pg.advances_refl pg.interleaved_service_batch in \<open>metis prod.collapse\<close>)+
next
  case (op_cancel ce ce' raw w resp w' out)
  consider "w' = w" | i res where "Service_Cancel (interleaved (postgres_repository up srv cj)) ce ce' i w = (res, w')"
    using op_cancel(3) by (auto simp: Handler_Cancel_def split: option.splits prod.splits sum.splits)
  then have "pg.moves srv w w'"
    by cases (use assms(2) op_cancel(1) pg.moves_refl pg.interleaved_cancel in auto)
  then show ?thesis using pg.advances_silent op_cancel by simp
next
  case (op_poll env)
  then show ?thesis using pg.interleaved_poll assms(2) by blast
next
  case (op_process p env' body w cb bk s' eff out)
  then have "pg.moves srv w (ps_store s')" using pg.interleaved_process [OF _ op_process(3)] assms(2) by simp
  then show ?thesis using pg.advances_silent op_process by simp
qed

section \<open>Properties\<close>

text \<open>
  C5. Operations are safe for each other down to their statements. Let any number of the program's
  statements act before each read and each call of a request, a poll or the processing of a delivery:
  the table stays well-formed; every call of the operation is itself one of the statements that the
  others have to reckon with; from what the operation first read to what is read after it no row
  disappears, changes the notification it holds or loses a retry, and sound rows (the time and the
  provider's id when sent, the time and the reason when failed) stay sound and new ones are sound; and
  every message it publishes names a stored row. What fails under interleaving is only the order of the
  statuses, as in the property before.
\<close>

theorem interleaved_operations:
  assumes "operation up srv cj (w, out) (w', out')" "run_ok (pg_wf srv) pg_rows w"
  shows "run_ok (pg_wf srv) pg_rows w' \<and>
    statement\<^sup>*\<^sup>* (pg_rows (read_store w)) (pg_rows (read_store w')) \<and>
    table_keeps (pg_rows (read_store w)) (pg_rows (read_store w')) \<and>
    (\<exists>pubs. out' = out @ pubs \<and> messages_ok up (pg_rows (read_store w')) pubs)"
proof -
  have a: "pg.advances srv up (w, out) (w', out')" using operation_advances [OF assms(1)] assms(2) by simp
  then have m: "pg.moves srv w w'" by (simp add: pg.advances_def)
  show ?thesis using a m pg.moves_keep [OF m] by (simp add: pg.advances_def pg.moves_def)
qed

text \<open>A cancellation before whose statement a worker takes the row up.\<close>

definition taken_up :: "pg_state \<Rightarrow> pg_state" where
  "taken_up s = snd (pg_UpdateStatus sample_uuid_pkg any_server (calm 5 (\<lambda>_. 0)) 1 StatusProcessing s)"

definition raced :: "pg_state run" where
  "raced = \<lparr>ru_store = keyed_db [keyed_row], ru_others = [(id, taken_up)], ru_log = []\<rparr>"

lemma taken_up_ok: "others_ok (pg_wf any_server) pg_rows taken_up"
  unfolding others_ok_def
proof (intro allI impI)
  fix s assume wf: "pg_wf any_server s"
  have upd: "repo_UpdateStatus (postgres_repository sample_uuid_pkg any_server utc_json) (calm 5 (\<lambda>_. 0)) 1 StatusProcessing s =
      (fst (pg_UpdateStatus sample_uuid_pkg any_server (calm 5 (\<lambda>_. 0)) 1 StatusProcessing s), taken_up s)"
    by (simp add: taken_up_def)
  from pg.status_writes [OF wf upd] have "pg_wf any_server (taken_up s) \<and> statement (pg_rows s) (pg_rows (taken_up s))"
    by (blast intro: row_write_statement stmt_take_up)
  then show "pg_wf any_server (taken_up s) \<and> statement\<^sup>*\<^sup>* (pg_rows s) (pg_rows (taken_up s))" by blast
qed

lemma keyed_row_wf: "pg_wf any_server (keyed_db [keyed_row])"
  by (simp add: pg_wf_def) (simp add: keyed_db_def keyed_row_def sample_notification_def idempotency_keys_def
      row_checks_def int4_def chk_channel_def chk_status_def chk_priority_def)

lemma raced_taken_up: "taken_up (keyed_db [keyed_row]) =
    keyed_db [keyed_row\<lparr>n_Status := StatusProcessing, n_UpdatedAt := 5\<rparr>]"
  by (simp add: taken_up_def pg_UpdateStatus_def affected_rows_def exec_update_def run_stmt_def calm_def
      update_status_row_def check_row_def keyed_db_def keyed_row_def sample_notification_def any_server_def
      trigger_set_updated_at_def row_checks_def int4_def chk_channel_def chk_status_def chk_priority_def StatusProcessing_def
      utf8_length_def)

lemma cancel_refused: "\<exists>m. pg_Cancel sample_uuid_pkg any_server (calm 6 (\<lambda>_. 0)) 1
      (keyed_db [keyed_row\<lparr>n_Status := StatusProcessing, n_UpdatedAt := 5\<rparr>]) =
    (Some (ErrConflict m), keyed_db [keyed_row\<lparr>n_Status := StatusProcessing, n_UpdatedAt := 5\<rparr>])"
  by (simp add: pg_Cancel_def exec_update_def run_stmt_def calm_def cancellable_def keyed_db_def keyed_row_def
      sample_notification_def StatusProcessing_def)

lemma raced_cancel:
  assumes "Handler_Cancel sample_uuid_pkg (interleaved (postgres_repository sample_uuid_pkg any_server utc_json))
      (calm 6 (\<lambda>_. 0)) (calm 7 (\<lambda>_. 0)) (uuid_String sample_uuid_pkg 1) raced = (resp, w')"
  shows "rs_status resp = 409 \<and> map_option n_Status (pg_rows (ru_store w') 1) = Some StatusProcessing"
proof -
  obtain m where m: "pg_Cancel sample_uuid_pkg any_server (calm 6 (\<lambda>_. 0)) 1
      (keyed_db [keyed_row\<lparr>n_Status := StatusProcessing, n_UpdatedAt := 5\<rparr>]) =
    (Some (ErrConflict m), keyed_db [keyed_row\<lparr>n_Status := StatusProcessing, n_UpdatedAt := 5\<rparr>])"
    using cancel_refused by blast
  have "uuid_Parse sample_uuid_pkg (uuid_String sample_uuid_pkg 1) = Some 1"
    using sample_uuid_roundtrip by (simp add: uuid_roundtrip_def)
  with assms m show ?thesis
    by (auto simp: Handler_Cancel_def Service_Cancel_def called_def Let_def raced_def call_store_def raced_taken_up
        parseUUIDParam_def respondError_def respondJSON_def)
      (simp add: pg_rows_def keyed_db_def keyed_row_def sample_notification_def)
qed

lemma id_ok: "others_ok W rows id"
  by (simp add: others_ok_def)

theorem interleaved_operations_witness:
  "\<exists>resp w'. Handler_Cancel sample_uuid_pkg (interleaved (postgres_repository sample_uuid_pkg any_server utc_json))
      (calm 6 (\<lambda>_. 0)) (calm 7 (\<lambda>_. 0)) (uuid_String sample_uuid_pkg 1) raced = (resp, w') \<and> rs_status resp = 409 \<and>
    run_ok (pg_wf any_server) pg_rows w' \<and> map_option n_Status (pg_rows (ru_store w') 1) = Some StatusProcessing \<and>
    table_keeps (pg_rows (keyed_db [keyed_row])) (pg_rows (read_store w'))"
proof -
  obtain resp w' where run: "Handler_Cancel sample_uuid_pkg
      (interleaved (postgres_repository sample_uuid_pkg any_server utc_json))
      (calm 6 (\<lambda>_. 0)) (calm 7 (\<lambda>_. 0)) (uuid_String sample_uuid_pkg 1) raced = (resp, w')" by force
  have "run_ok (pg_wf any_server) pg_rows raced"
    using taken_up_ok id_ok keyed_row_wf by (simp add: run_ok_def raced_def)
  with interleaved_operations [OF op_cancel [OF run], of "[]"] run raced_cancel [OF run] show ?thesis
    by (simp add: read_store_def raced_def)
qed

end
