(* ===== verification/System.thy ===== *)
theory System
  imports Server Interleaving
begin

text \<open>
  The system as a whole: the API, the scheduler and the workers of the three channels acting in any
  order on the database, the broker, the breakers and the buckets. A step is one request, one poll
  or the processing of one delivery, with all faults and choices open. What holds when the single
  statements of such steps interleave is the subject of \<open>Interleaving\<close>; what does not, the order of
  the statuses, is shown here, at the end.
\<close>

section \<open>State and steps\<close>

record sys_params =
  sp_up :: uuid_pkg
  sp_srv :: pg_server
  sp_cj :: cursor_json
  sp_cfg :: Config

abbreviation sp_maxRetries :: "sys_params \<Rightarrow> int" where
  "sp_maxRetries P \<equiv> cf_MaxRetries (sp_cfg P)"

text \<open>
  \<open>y_queue\<close> holds the messages that are not settled, \<open>y_taken\<close> all that the broker ever took and
  \<open>y_dead\<close> the dead-lettered ones; breakers and buckets are kept per channel.
\<close>

record sys =
  y_store :: pg_state
  y_queue :: "Publishing list"
  y_taken :: "Publishing list"
  y_dead :: "Publishing list"
  y_breaker :: "string \<Rightarrow> CircuitBreaker"
  y_bucket :: "string \<Rightarrow> bucket option"

definition sys_repo :: "sys_params \<Rightarrow> pg_state NotificationRepository" where
  "sys_repo P = postgres_repository (sp_up P) (sp_srv P) (sp_cj P)"

definition sys_trepo :: "sys_params \<Rightarrow> pg_state TemplateRepository" where
  "sys_trepo P = template_repository (sp_up P) (sp_srv P)"

definition absorb :: "pg_state \<times> Publishing list \<Rightarrow> sys \<Rightarrow> sys" where
  "absorb w s = s\<lparr>y_store := fst w, y_queue := y_queue s @ snd w, y_taken := y_taken s @ snd w\<rparr>"

definition proc_view :: "string \<Rightarrow> sys \<Rightarrow> pg_state proc_state" where
  "proc_view ch s = \<lparr>ps_store = y_store s, ps_breaker = y_breaker s ch, ps_bucket = y_bucket s ch\<rparr>"

text \<open>After the \<open>k\<close>-th message has been processed: requeued, acknowledged or dead-lettered.\<close>

definition after_work :: "nat \<Rightarrow> pg_state proc_state \<Rightarrow> proc_effect list \<Rightarrow> sys \<Rightarrow> sys" where
  "after_work k ps eff s =
     (let p = y_queue s ! k; ch = pub_RoutingKey p
      in s\<lparr>y_store := ps_store ps, y_breaker := (y_breaker s)(ch := ps_breaker ps), y_bucket := (y_bucket s)(ch := ps_bucket ps),
           y_queue := (if DoNack True \<in> set eff then y_queue s else take k (y_queue s) @ drop (Suc k) (y_queue s)),
           y_dead := (if DoNack False \<in> set eff then y_dead s @ [p] else y_dead s)\<rparr>)"

definition sys_init :: "time \<Rightarrow> sys" where
  "sys_init now = \<lparr>y_store = \<lparr>pg_notifications = [], pg_templates = []\<rparr>, y_queue = [], y_taken = [], y_dead = [],
     y_breaker = (\<lambda>_. CircuitBreaker.New now), y_bucket = (\<lambda>_. None)\<rparr>"

inductive sys_step :: "sys_params \<Rightarrow> sys \<Rightarrow> sys \<Rightarrow> bool" for P where
  request: "se_up E = sp_up P \<Longrightarrow> se_repo E = sys_repo P \<Longrightarrow> se_trepo E = sys_trepo P \<Longrightarrow>
     serve E rq (y_store s, []) = (out, w) \<Longrightarrow> sys_step P s (absorb w s)"
| tick: "scans_all (po_ready penv) \<Longrightarrow> poll (sp_up P) (sys_repo P) penv (y_store s, []) = w \<Longrightarrow>
     sys_step P s (absorb w s)"
| work: "k < length (y_queue s) \<Longrightarrow> ch = pub_RoutingKey (y_queue s ! k) \<Longrightarrow>
     Process (sp_up P) (sys_repo P) (processor_for (sp_cfg P) ch) pv (pub_Body (y_queue s ! k)) (proc_view ch s) = (ps, eff) \<Longrightarrow>
     sys_step P s (after_work k ps eff s)"

inductive reachable :: "sys_params \<Rightarrow> sys \<Rightarrow> sys \<Rightarrow> bool" for P where
  reach_refl: "reachable P s s"
| reach_step: "reachable P s s1 \<Longrightarrow> sys_step P s1 s2 \<Longrightarrow> reachable P s s2"

inductive_cases sys_stepE: "sys_step P s s'"

section \<open>One operation\<close>

lemma message_for_reads:
  "message_for up n p \<Longrightarrow> readable_metadata (n_Metadata n) \<Longrightarrow>
   unmarshal_message (pub_Body p) = Some (delivered_message (message_of up n))"
  using marshal_unmarshal [of "message_of up n"] by (simp add: message_for_def message_of_def)

lemma messages_evolve: "rows_evolve k m m' \<Longrightarrow> messages_ok up m pubs \<Longrightarrow> messages_ok up m' pubs"
  unfolding messages_ok_def list_all_iff
  by (metis evolve_old message_for_same path_same)

lemma messages_handed_over:
  "handed_over up now n m' pubs n' \<Longrightarrow> n_Status n = StatusPending \<Longrightarrow> messages_ok up m' pubs"
  unfolding messages_ok_def list_all_iff
  by (metis handed_over_def handed_over_path list_all_iff message_for_same path_same)

lemma messages_concat: "messages_ok up m (concat pss) \<longleftrightarrow> (\<forall>ps \<in> set pss. messages_ok up m ps)"
  by (auto simp: messages_ok_def list_all_iff)

text \<open>What an operation of the API or the scheduler does to rows and broker.\<close>

definition op_ok :: "int \<Rightarrow> uuid_pkg \<Rightarrow> pg_server \<Rightarrow> pg_state \<Rightarrow> pg_state \<times> Publishing list \<Rightarrow> bool" where
  "op_ok k up srv s w \<longleftrightarrow> pg_wf srv (fst w) \<and> rows_evolve k (pg_rows s) (pg_rows (fst w)) \<and>
     messages_ok up (pg_rows (fst w)) (snd w)"

lemma op_nothing: "pg_wf srv s \<Longrightarrow> op_ok k up srv s (s, [])"
  by (simp add: op_ok_def evolve_refl messages_ok_def)

lemma op_added: "pg_wf srv s' \<Longrightarrow> s' = s \<or> (\<exists>rs. list_all fresh rs \<and> rows_added (pg_rows s) (pg_rows s') rs) \<Longrightarrow>
   op_ok k up srv s (s', [])"
  by (auto simp: op_ok_def evolve_refl messages_ok_def intro: evolve_added)

lemma op_batch:
  assumes "pg_wf srv s'" "frame (n_ID ` set ns) (pg_rows s) (pg_rows s')" "length pubss = length ns"
    and ho: "\<And>j. j < length ns \<Longrightarrow> n_Status (ns ! j) = StatusPending \<and>
       handed_over up (f j) (ns ! j) (pg_rows s') (pubss ! j) (ns' ! j)"
    and "(\<forall>n \<in> set ns. pg_rows s (n_ID n) = Some n) \<or> (\<forall>n \<in> set ns. pg_rows s (n_ID n) = None \<and> fresh n)"
  shows "op_ok k up srv s (s', concat pubss)"
proof -
  have "\<exists>r. pg_rows s' (n_ID n) = Some r \<and> row_path k n r" if "n \<in> set ns" for n
    using that ho handed_over_path by (metis in_set_conv_nth)
  then have "rows_evolve k (pg_rows s) (pg_rows s')" using evolve_handed_over assms(2,5) by blast
  moreover have "messages_ok up (pg_rows s') ps" if "ps \<in> set pubss" for ps
    using that ho assms(3) messages_handed_over by (metis in_set_conv_nth)
  then have "messages_ok up (pg_rows s') (concat pubss)" by (simp add: messages_concat)
  ultimately show ?thesis using assms(1) by (simp add: op_ok_def)
qed

lemma service_create_op:
  assumes "pg_wf srv s" "Service_Create up (postgres_repository up srv cj) TR env req (s, []) = (res, w)"
  shows "op_ok k up srv s w"
proof (cases w)
  case (Pair s' out')
  show ?thesis
  proof (cases res)
    case (Inl e)
    have run: "Service_Create up (postgres_repository up srv cj) TR env req (s, []) = (Inl e, s', out')"
      using assms(2) Inl Pair by simp
    from pg.Service_Create_error [OF assms(1) run]
    obtain "pg_wf srv s'" "out' = []" "s' = s \<or> (\<exists>n. fresh n \<and> rows_added (pg_rows s) (pg_rows s') [n])" by auto
    then show ?thesis using op_added [of srv s' s] by (metis Pair list.pred_inject)
  next
    case (Inr n')
    have run: "Service_Create up (postgres_repository up srv cj) TR env req (s, []) = (Inr n', s', out')"
      using assms(2) Inr Pair by simp
    from pg.Service_Create_stores [OF assms(1) run]
    obtain n pubs where n: "pg_wf srv s'" "out' = pubs" "handed_over up (sv_now env 0) n (pg_rows s') pubs n'"
      "pg_rows s (n_ID n) = None" "frame {n_ID n} (pg_rows s) (pg_rows s')" "fresh n" by auto
    have "op_ok k up srv s (s', concat [pubs])"
      by (rule op_batch [where ns = "[n]" and ns' = "[n']" and f = "\<lambda>_. sv_now env 0"])
        (use n in \<open>auto simp: fresh_def\<close>)
    then show ?thesis using n(2) by (simp add: Pair)
  qed
qed

lemma handler_create_op:
  assumes "pg_wf srv s" "Handler_Create up (postgres_repository up srv cj) TR env depth body (s, []) = (resp, w)"
  shows "op_ok k up srv s w"
proof -
  consider "w = (s, [])" | req res where "Service_Create up (postgres_repository up srv cj) TR env req (s, []) = (res, w)"
    using assms(2) by (auto simp: Handler_Create_def Let_def split: option.splits if_splits prod.splits sum.splits)
  then show ?thesis by cases (use assms(1) op_nothing service_create_op in auto)
qed

lemma handler_batch_op:
  assumes "pg_wf srv s" "Handler_CreateBatch up (postgres_repository up srv cj) env body (s, []) = (resp, w)"
  shows "op_ok k up srv s w"
proof -
  obtain s' out' where w: "w = (s', out')" by force
  consider "w = (s, [])"
    | req e where "Service_CreateBatch up (postgres_repository up srv cj) env req (s, []) = (Inl e, s', out')"
    | req b ns' where "Service_CreateBatch up (postgres_repository up srv cj) env req (s, []) = (Inr (b, ns'), s', out')"
    using assms(2) w by (auto simp: Handler_CreateBatch_def split: option.splits prod.splits sum.splits)
  then show ?thesis
  proof cases
    case 1
    then show ?thesis using assms(1) op_nothing by simp
  next
    case (2 req e)
    from pg.Service_CreateBatch_error [OF assms(1) this] show ?thesis unfolding w by (auto intro!: op_added)
  next
    case (3 req b ns')
    from pg.Service_CreateBatch_ok [OF assms(1) this] obtain ns pubss where
      n: "pg_wf srv s'" "length pubss = length ns" "frame (n_ID ` set ns) (pg_rows s) (pg_rows s')" "out' = concat pubss"
      "\<forall>j < length ns. pg_rows s (n_ID (ns ! j)) = None \<and> fresh (ns ! j) \<and>
         handed_over up (sv_now env j) (ns ! j) (pg_rows s') (pubss ! j) (ns' ! j)" by auto
    have "\<forall>n \<in> set ns. pg_rows s (n_ID n) = None \<and> fresh n" using n(5) by (metis in_set_conv_nth)
    with n show ?thesis unfolding w n(4)
      by (intro op_batch [where ns = ns and ns' = ns' and f = "sv_now env"]) (auto simp: fresh_def)
  qed
qed

lemma handler_cancel_op:
  assumes "pg_wf srv s" "Handler_Cancel up (postgres_repository up srv cj) ce ce' raw s = (resp, s')"
  shows "op_ok k up srv s (s', [])"
proof -
  consider "s' = s" | i e where "pg_Cancel up srv ce i s = (e, s')"
    using assms(2)
    by (auto simp: Handler_Cancel_def Service_Cancel_def split: option.splits prod.splits sum.splits)
  then show ?thesis
  proof cases
    case 1
    then show ?thesis using assms(1) op_nothing by simp
  next
    case (2 i e)
    then have "repo_Cancel (postgres_repository up srv cj) ce i s = (e, s')" by simp
    from pg.cancel_writes [OF assms(1) this] show ?thesis
      by (auto simp: op_ok_def messages_ok_def intro: evolve_cancelled)
  qed
qed

lemma template_keeps_notifications:
  "pg_template_Create srv ce t s = (out, s') \<Longrightarrow> pg_notifications s' = pg_notifications s"
  by (auto simp: pg_template_Create_def Let_def run_stmt_def
      split: net_fault.splits sum.splits iter_fault.splits prod.splits)

lemma handler_template_op:
  assumes "pg_wf srv s" "TemplateHandler_Create (template_repository up srv) ce body s = (resp, s')"
  shows "op_ok k up srv s (s', [])"
proof -
  have "pg_notifications s' = pg_notifications s"
    using assms(2) template_keeps_notifications
    by (auto simp: TemplateHandler_Create_def template_repository_def Let_def
        split: option.splits prod.splits sum.splits)
  then have "pg_rows s' = pg_rows s" "pg_wf srv s'"
    using assms(1) by (simp_all add: pg_rows_def [abs_def] pg_wf_def)
  then show ?thesis by (simp add: op_ok_def messages_ok_def evolve_refl)
qed

lemma serve_op:
  assumes "pg_wf (sp_srv P) s" "se_up E = sp_up P" "se_repo E = postgres_repository (sp_up P) (sp_srv P) (sp_cj P)"
    "se_trepo E = template_repository (sp_up P) (sp_srv P)" "serve E rq (s, []) = (out, w)"
  shows "op_ok k (sp_up P) (sp_srv P) s w"
  using assms(5)
proof (cases rule: serve_cases)
  case 1
  then show ?thesis using op_nothing assms(1) by simp
next
  case (2 t param wr cx out')
  let ?R = "postgres_repository (sp_up P) (sp_srv P) (sp_cj P)"
  let ?create = "Handler_Create (sp_up P) ?R (se_trepo E) (correlated cx (se_service E)) (se_depth E)
        (rq_body rq) (s, [])"
  let ?batch = "Handler_CreateBatch (sp_up P) ?R (correlated cx (se_service E)) (rq_body rq) (s, [])"
  let ?cancel = "Handler_Cancel (sp_up P) ?R (se_ce E) (se_ce2 E) (param ''id'') s"
  let ?template = "TemplateHandler_Create (template_repository (sp_up P) (sp_srv P)) (se_ce E) (rq_body rq) s"
  show ?thesis
  proof (cases t)
    case ToCreate
    have "?create = (fst ?create, w)"
      using 2 assms(2-4) ToCreate by (auto simp: serve_api_def responded_def Let_def)
    then show ?thesis by (rule handler_create_op [OF assms(1)])
  next
    case ToCreateBatch
    have "?batch = (fst ?batch, w)"
      using 2 assms(2-4) ToCreateBatch by (auto simp: serve_api_def responded_def Let_def)
    then show ?thesis by (rule handler_batch_op [OF assms(1)])
  next
    case ToCancel
    have "?cancel = (fst ?cancel, fst w)" "w = (fst w, [])"
      using 2 assms(2-4) ToCancel by (auto simp: serve_api_def Let_def split_beta)
    then show ?thesis using handler_cancel_op [OF assms(1)] by metis
  next
    case ToTemplateCreate
    have "?template = (fst ?template, fst w)" "w = (fst w, [])"
      using 2 assms(2-4) ToTemplateCreate by (auto simp: serve_api_def Let_def split_beta)
    then show ?thesis using handler_template_op [OF assms(1)] by metis
  qed (use 2 op_nothing assms(1) in \<open>auto simp: serve_api_def\<close>)
qed

lemma poll_op:
  assumes "pg_wf srv s" "scans_all (po_ready env)" "poll up (postgres_repository up srv cj) env (s, []) = w"
  shows "op_ok k up srv s w"
proof -
  obtain s' out' where w: "w = (s', out')" by force
  have run: "poll up (postgres_repository up srv cj) env (s, []) = (s', out')" using assms(3) w by simp
  from pg.poll_polled [OF assms(1,2) run]
  have "pg_wf srv s'" and p: "polled up (ce_now (po_ready env)) (pg_rows s) (pg_rows s') out'" by auto
  moreover obtain ns ns' pubss where q: "out' = concat pubss" "length pubss = length ns"
    "\<forall>j < length ns. n_Status (ns ! j) = StatusPending \<and>
       handed_over up (ce_now (po_ready env)) (ns ! j) (pg_rows s') (pubss ! j) (ns' ! j)"
    using p unfolding polled_def by blast
  have "messages_ok up (pg_rows s') ps" if "ps \<in> set pubss" for ps
    using that q messages_handed_over by (metis in_set_conv_nth)
  then have "messages_ok up (pg_rows s') out'" by (simp add: q(1) messages_concat)
  ultimately show ?thesis by (simp add: w op_ok_def evolve_polled)
qed

lemma work_op:
  assumes "pg_wf srv (ps_store s)" "Process up (postgres_repository up srv cj) p env body s = (s', eff)"
  shows "op_ok (p_maxRetries p) up srv (ps_store s) (ps_store s', [])"
  using pg.process_row [OF assms]
  by (auto simp: op_ok_def messages_ok_def evolve_refl intro: evolve_processed split: sum.splits option.splits)

section \<open>The invariant\<close>

definition sys_rows :: "sys \<Rightarrow> uuid \<rightharpoonup> Notification" where
  "sys_rows s = pg_rows (y_store s)"

definition sys_inv :: "sys_params \<Rightarrow> sys \<Rightarrow> bool" where
  "sys_inv P s \<longleftrightarrow> pg_wf (sp_srv P) (y_store s) \<and> messages_ok (sp_up P) (sys_rows s) (y_taken s) \<and>
     set (y_queue s) \<subseteq> set (y_taken s) \<and> set (y_dead s) \<subseteq> set (y_taken s) \<and>
     (\<forall>i n. sys_rows s i = Some n \<longrightarrow> row_inv (sp_maxRetries P) n)"

lemma evolve_inv: "rows_evolve k m m' \<Longrightarrow> \<forall>i n. m i = Some n \<longrightarrow> row_inv k n \<Longrightarrow> m' i = Some n \<Longrightarrow> row_inv k n"
  by (metis evolve_new evolve_old fresh_inv not_Some_eq option.inject path_inv)

lemma messages_append: "messages_ok up m (xs @ ys) \<longleftrightarrow> messages_ok up m xs \<and> messages_ok up m ys"
  by (simp add: messages_ok_def)

lemma absorb_step:
  assumes "sys_inv P s" "op_ok (sp_maxRetries P) (sp_up P) (sp_srv P) (y_store s) w"
  shows "sys_inv P (absorb w s) \<and> rows_evolve (sp_maxRetries P) (sys_rows s) (sys_rows (absorb w s))"
proof -
  have ev: "rows_evolve (sp_maxRetries P) (sys_rows s) (sys_rows (absorb w s))"
    using assms(2) by (simp add: op_ok_def sys_rows_def absorb_def)
  have "messages_ok (sp_up P) (sys_rows (absorb w s)) (y_taken (absorb w s))"
    using messages_evolve [OF ev] assms by (simp add: messages_append absorb_def op_ok_def sys_rows_def sys_inv_def)
  moreover have "\<forall>i n. sys_rows (absorb w s) i = Some n \<longrightarrow> row_inv (sp_maxRetries P) n"
    using evolve_inv [OF ev] assms(1) by (simp add: sys_inv_def)
  ultimately show ?thesis using assms ev by (auto simp: sys_inv_def op_ok_def absorb_def)
qed

lemma after_work_step:
  assumes "sys_inv P s" "k < length (y_queue s)"
    and op: "op_ok (sp_maxRetries P) (sp_up P) (sp_srv P) (y_store s) (ps_store ps, [])"
  shows "sys_inv P (after_work k ps eff s) \<and>
    rows_evolve (sp_maxRetries P) (sys_rows s) (sys_rows (after_work k ps eff s))"
proof -
  let ?s = "after_work k ps eff s"
  have y: "y_store ?s = ps_store ps" "y_taken ?s = y_taken s"
    "set (y_queue ?s) \<subseteq> set (y_queue s)" "set (y_dead ?s) \<subseteq> set (y_dead s) \<union> set (y_queue s)"
    using assms(2) by (auto simp: after_work_def Let_def dest: in_set_takeD in_set_dropD)
  have ev: "rows_evolve (sp_maxRetries P) (sys_rows s) (sys_rows ?s)"
    using op by (simp add: op_ok_def sys_rows_def y)
  have "messages_ok (sp_up P) (sys_rows ?s) (y_taken ?s)"
    using messages_evolve [OF ev] assms(1) by (simp add: y sys_inv_def)
  moreover have "\<forall>i n. sys_rows ?s i = Some n \<longrightarrow> row_inv (sp_maxRetries P) n"
    using evolve_inv [OF ev] assms(1) by (simp add: sys_inv_def)
  moreover have "pg_wf (sp_srv P) (y_store ?s)" using op by (simp add: op_ok_def y)
  ultimately show ?thesis using assms(1) ev y by (auto simp: sys_inv_def)
qed

lemma sys_step_evolves:
  assumes "sys_step P s s'" "sys_inv P s"
  shows "sys_inv P s' \<and> rows_evolve (sp_maxRetries P) (sys_rows s) (sys_rows s')"
proof -
  have wf: "pg_wf (sp_srv P) (y_store s)" using assms(2) by (simp add: sys_inv_def)
  note absorb = absorb_step [OF assms(2)]
  show ?thesis
    using assms(1)
  proof cases
    case request
    show ?thesis using absorb serve_op [OF wf] request unfolding sys_repo_def sys_trepo_def by blast
  next
    case tick
    show ?thesis using absorb poll_op [OF wf] tick unfolding sys_repo_def by blast
  next
    case (work k ch pv ps eff)
    have "op_ok (sp_maxRetries P) (sp_up P) (sp_srv P) (y_store s) (ps_store ps, [])"
      using work_op [of "sp_srv P" "proc_view ch s" "sp_up P" "sp_cj P" "processor_for (sp_cfg P) ch"] work(4) wf
      by (auto simp: sys_repo_def proc_view_def processor_for_def)
    then show ?thesis using after_work_step assms(2) work(1,2) by blast
  qed
qed

lemma reachable_evolves:
  "reachable P s s' \<Longrightarrow> sys_inv P s \<Longrightarrow> sys_inv P s' \<and> rows_evolve (sp_maxRetries P) (sys_rows s) (sys_rows s')"
proof (induction rule: reachable.induct)
  case (reach_refl s)
  then show ?case by (simp add: evolve_refl)
next
  case (reach_step s s1 s2)
  then show ?case using sys_step_evolves evolve_trans by blast
qed

lemma init_inv: "server_ok (sp_srv P) \<Longrightarrow> sys_inv P (sys_init now)"
  by (simp add: sys_inv_def sys_init_def sys_rows_def pg_rows_def pg_wf_def messages_ok_def idempotency_keys_def)

section \<open>Examples\<close>

definition sample_params :: sys_params where
  "sample_params = \<lparr>sp_up = sample_uuid_pkg, sp_srv = any_server, sp_cj = utc_json, sp_cfg = sample_config\<rparr>"

text \<open>The state after one accepted request, and the step that leads to it.\<close>

definition one_request :: "sys" where
  "one_request = absorb (snd (serve sample_server sample_post (y_store (sys_init 0), []))) (sys_init 0)"

lemma one_request_step: "sys_step sample_params (sys_init 0) one_request"
  unfolding one_request_def
  by (rule sys_step.request [OF _ _ _ prod.collapse [symmetric]])
    (simp_all add: sample_params_def sample_server_def sys_repo_def sys_trepo_def)

lemma one_request_reachable: "reachable sample_params (sys_init 0) one_request"
  by (rule reach_step [OF reach_refl one_request_step])

lemma one_request_row: "map_option n_Status (sys_rows one_request 7) = Some StatusQueued"
  unfolding one_request_def serve_unfold sample_post_top sample_post_api
  by (simp add: absorb_def sys_rows_def sys_init_def serve_api_def responded_def sample_server_def sample_post_def
      correlated_def Handler_Create_def Service_Create_def service_eval checkBackpressure_def ThresholdNormal_def
      resolve_template_def pg_rows_def pg_Create_def Let_def)

definition pending_row :: Notification where
  "pending_row = sample_notification\<lparr>n_Status := ''pending''\<rparr>"

lemma pending_db: "pg_wf any_server (keyed_db [pending_row])" "pg_rows (keyed_db [pending_row]) 1 = Some pending_row"
  by (simp_all add: pg_wf_def pg_rows_def)
    (simp_all add: keyed_db_def pending_row_def sample_notification_def idempotency_keys_def row_checks_def int4_def
      chk_channel_def chk_status_def chk_priority_def)

section \<open>Properties\<close>





text \<open>
  What a notification is about never changes: its recipient, channel, content, subject, priority,
  batch, key, schedule, metadata and creation time are those it was stored with; its retries never go
  down, and its status moves along the edges of the life cycle, so that a sent, failed or cancelled
  row changes its status only if a worker takes it up again.
\<close>

lemma notification_immutable:
  assumes "server_ok (sp_srv P)" "reachable P (sys_init now) s" "reachable P s s'" "sys_rows s i = Some n"
  shows "\<exists>n'. sys_rows s' i = Some n' \<and> same_notification n n' \<and> n_RetryCount n \<le> n_RetryCount n' \<and>
    status_edge\<^sup>*\<^sup>* (n_Status n) (n_Status n')"
proof -
  have "sys_inv P s" using reachable_evolves [OF assms(2) init_inv [OF assms(1)]] by simp
  from reachable_evolves [OF assms(3) this] obtain n' where "sys_rows s' i = Some n'" "row_path (sp_maxRetries P) n n'"
    using evolve_old assms(4) by blast
  then show ?thesis using path_same path_retries path_edges by blast
qed



end
