(* ===== verification/Progress.thy ===== *)
theory Progress
  imports System
begin

text \<open>
  What the system can always still do: with a provider that answers, a limiter that lets through and a
  database that does not fail, the messages that wait are delivered one after the other, from every
  reachable state in which no breaker is half-open. A breaker that is half-open between deliveries
  is one whose probe was never recorded; what becomes of it is shown in \<open>Worker\<close>.
\<close>

section \<open>One delivery\<close>

lemma Process_sent:
  assumes "pg_wf srv (ps_store s)" "unmarshal_message body = Some msg" "uuid_Parse up (qm_ID msg) = Some i"
    "pg_rows (ps_store s) i = Some n" "faultless (pv_get env)" "faultless (pv_mark env)" "faultless (pv_write env)"
    "\<not> pv_cancelled env" "fst (allow_call env (ps_breaker s))" "fst (wait_call p env (ps_bucket s)) = None"
    and run: "Process up (postgres_repository up srv cj) p env body s = (s', eff)"
    and sent: "Send (pv_send env) (p_provider p) n = (Inr resp, req)" "utf8_length (pr_MessageID resp) \<le> 255"
  shows "pg_rows (ps_store s') = (pg_rows (ps_store s))(i \<mapsto> set_sent (stored_text srv (pr_MessageID resp))
      (ce_now (pv_write env)) (set_status StatusProcessing (ce_now (pv_mark env)) n)) \<and>
    ps_breaker s' = RecordSuccess (pv_record env) (snd (allow_call env (ps_breaker s))) \<and>
    DoNack True \<notin> set eff \<and> DoNack False \<notin> set eff"
proof -
  from pg.process_outcomes [OF assms(1-11)] sent have settled: "filter is_settle eff = [DoAck]"
    and row: "pg_rows (ps_store s') i = Some (set_sent (stored_text srv (pr_MessageID resp)) (ce_now (pv_write env))
      (set_status StatusProcessing (ce_now (pv_mark env)) n))"
    by (auto simp: outcome_row_is_def Let_def)
  from pg.process_row [OF assms(1) run] assms(2,3) have "frame {i} (pg_rows (ps_store s)) (pg_rows (ps_store s'))"
    by (simp add: row_processed_def)
  with row have rows: "pg_rows (ps_store s') = (pg_rows (ps_store s))(i \<mapsto> set_sent (stored_text srv (pr_MessageID resp))
      (ce_now (pv_write env)) (set_status StatusProcessing (ce_now (pv_mark env)) n))"
    by (auto simp: frame_def fun_eq_iff)
  have no: "DoNack b \<notin> set eff" for b
  proof
    assume "DoNack b \<in> set eff"
    then have "DoNack b \<in> set (filter is_settle eff)" by simp
    then show False by (simp add: settled)
  qed
  have get: "repo_GetByID (postgres_repository up srv cj) (pv_get env) i (ps_store s) = Inr n"
    by (rule pg.get_complete [OF assms(1,5,4)])
  have mark: "fst (repo_UpdateStatus (postgres_repository up srv cj) (pv_mark env) i StatusProcessing (ps_store s)) = None"
    using pg.status_complete [OF assms(1,6,4), of StatusProcessing up cj] by (simp add: legal_status_def)
  have "ps_breaker s' = RecordSuccess (pv_record env) (snd (allow_call env (ps_breaker s)))"
    using run
  proof (cases rule: process_cases)
    case (delivered msg' i' n' delays eff')
    then have d: "Process_deliver up (postgres_repository up srv cj) p env msg i n s = (s', eff')"
      using assms(2,3) get by simp
    then show ?thesis
    proof (cases rule: deliver_cases)
      case (called st cb b k result req' eff2)
      then show ?thesis using sent(1) by (auto simp: Process_outcome_def Let_def split: prod.splits)
    qed (use mark assms(9,10) in simp_all)
  qed (use assms(2,3,8) get in auto)
  with rows no show ?thesis by blast
qed

text \<open>The surroundings of a delivery that succeeds, with both clocks late enough.\<close>

definition fair_env :: "time \<Rightarrow> rat \<Rightarrow> process_env" where
  "fair_env t r = (sample_process_env (Response 200 []))\<lparr>pv_allow := (t, t, t),
     pv_wait := sample_wait_env\<lparr>we_redis := (\<lambda>_. r)\<rparr>\<rparr>"

lemma fair_env_simps [simp]:
  "faultless (pv_get (fair_env t r))" "faultless (pv_mark (fair_env t r))" "faultless (pv_write (fair_env t r))"
  "\<not> pv_cancelled (fair_env t r)" "pv_send (fair_env t r) = sample_send_env (Response 200 [])"
  by (simp_all add: fair_env_def sample_process_env_def)

lemma fair_allowed:
  assumes "cb_state cb \<noteq> HalfOpen"
  shows "\<exists>t. \<forall>r. fst (allow_call (fair_env t r) cb) \<and>
    cb_state (RecordSuccess (pv_record (fair_env t r)) (snd (allow_call (fair_env t r) cb))) = Closed"
proof
  let ?t = "cb_lastFailure cb + cb_timeout cb + 1"
  show "\<forall>r. fst (allow_call (fair_env ?t r) cb) \<and>
    cb_state (RecordSuccess (pv_record (fair_env ?t r)) (snd (allow_call (fair_env ?t r) cb))) = Closed"
    using assms by (cases "cb_state cb") (auto simp: allow_call_def fair_env_def cb_op_defs)
qed

lemma fair_admitted:
  assumes "1 \<le> rl_rate (p_limiter p)"
  shows "\<exists>r. \<forall>t. fst (wait_call p (fair_env t r) b) = None"
proof
  let ?r = "case b of None \<Rightarrow> 0 | Some k \<Rightarrow> bk_expires k"
  have "live_bucket ?r b = None" by (simp add: live_bucket_def split: option.split)
  then have "fst (RateLimiter_Allow NoFault t ?r (p_limiter p) b) \<noteq> Inr False" for t
    using assms by (simp add: RateLimiter_Allow_def tokenBucketScript_def Let_def)
  then show "\<forall>t. fst (wait_call p (fair_env t ?r) b) = None"
    using wait_first_call [of "sample_wait_env\<lparr>we_redis := (\<lambda>_. ?r)\<rparr>" _ "p_limiter p" b]
    by (simp add: wait_call_def fair_env_def sample_wait_env_def sample_process_env_def)
qed

lemma fair_send: "\<exists>resp req. Send (sample_send_env (Response 200 [])) p n = (Inr resp, req) \<and> utf8_length (pr_MessageID resp) \<le> 255"
  by (simp add: Send_def sample_send_env_def interpret_response_def marshal_request_def utf8_length_def)

section \<open>One step\<close>

definition can_run :: "sys_params \<Rightarrow> sys \<Rightarrow> bool" where
  "can_run P s \<longleftrightarrow> sys_inv P s \<and> (\<forall>i n. sys_rows s i = Some n \<longrightarrow> readable_metadata (n_Metadata n)) \<and>
     (\<forall>ch. breaker_State (y_breaker s ch) \<noteq> HalfOpen)"

definition healthy :: "sys_params \<Rightarrow> bool" where
  "healthy P \<longleftrightarrow> uuid_roundtrip (sp_up P) \<and> 1 \<le> cf_RateLimit (sp_cfg P)"

lemma sent_same: "n_Status (set_sent m t (set_status st t' n)) = StatusSent"
  "same_notification n (set_sent m t (set_status st t' n))"
  by (simp_all add: same_notification_def row_write_defs)

lemma drain_step:
  assumes "healthy P" "can_run P s" "y_queue s = p # rest"
  shows "\<exists>s' i n n'. sys_step P s s' \<and> can_run P s' \<and> y_queue s' = rest \<and> y_dead s' = y_dead s \<and>
    sys_rows s i = Some n \<and> message_for (sp_up P) n p \<and> same_notification n n' \<and> n_Status n' = StatusSent \<and>
    sys_rows s' = (sys_rows s)(i \<mapsto> n')"
proof -
  have inv: "sys_inv P s" and meta: "\<And>i n. sys_rows s i = Some n \<Longrightarrow> readable_metadata (n_Metadata n)"
    and cbs: "\<And>ch. cb_state (y_breaker s ch) \<noteq> HalfOpen"
    using assms(2) by (simp_all add: can_run_def breaker_State_def)
  have wf: "pg_wf (sp_srv P) (y_store s)" using inv by (simp add: sys_inv_def)
  have "p \<in> set (y_taken s)" using inv assms(3) by (simp add: sys_inv_def)
  then obtain i n where n: "sys_rows s i = Some n" "message_for (sp_up P) n p"
    using inv by (auto simp: sys_inv_def messages_ok_def list_all_iff)
  have row: "pg_rows (y_store s) i = Some n" using n(1) by (simp add: sys_rows_def)
  have id: "n_ID n = i" by (rule pg.row_id [OF wf row])
  let ?msg = "delivered_message (message_of (sp_up P) n)"
  have msg: "unmarshal_message (pub_Body p) = Some ?msg" "uuid_Parse (sp_up P) (qm_ID ?msg) = Some i"
    using message_for_reads [OF n(2) meta [OF n(1)]] uuid_text(1) [of "sp_up P" i] assms(1)
    by (simp_all add: delivered_message_def message_of_def id healthy_def)
  let ?ch = "pub_RoutingKey p"
  let ?p = "processor_for (sp_cfg P) ?ch"
  obtain t where t: "\<And>r. fst (allow_call (fair_env t r) (y_breaker s ?ch))"
    "\<And>r. cb_state (RecordSuccess (pv_record (fair_env t r)) (snd (allow_call (fair_env t r) (y_breaker s ?ch)))) = Closed"
    using fair_allowed [OF cbs] by blast
  have "1 \<le> rl_rate (p_limiter ?p)" using assms(1) by (simp add: healthy_def processor_for_def NewRateLimiter_def)
  from fair_admitted [OF this] obtain r where r: "\<And>t. fst (wait_call ?p (fair_env t r) (y_bucket s ?ch)) = None" by blast
  obtain resp req where send: "Send (sample_send_env (Response 200 [])) (p_provider ?p) n = (Inr resp, req)"
    "utf8_length (pr_MessageID resp) \<le> 255" using fair_send by blast
  obtain ps eff where run: "Process (sp_up P) (postgres_repository (sp_up P) (sp_srv P) (sp_cj P)) ?p (fair_env t r)
      (pub_Body p) (proc_view ?ch s) = (ps, eff)" by force
  let ?n' = "set_sent (stored_text (sp_srv P) (pr_MessageID resp)) (ce_now (pv_write (fair_env t r)))
      (set_status StatusProcessing (ce_now (pv_mark (fair_env t r))) n)"
  let ?s' = "after_work 0 ps eff s"
  have view: "pg_wf (sp_srv P) (ps_store (proc_view ?ch s))" "pg_rows (ps_store (proc_view ?ch s)) i = Some n"
    "fst (allow_call (fair_env t r) (ps_breaker (proc_view ?ch s)))"
    "fst (wait_call ?p (fair_env t r) (ps_bucket (proc_view ?ch s))) = None"
    using wf row t(1) r by (simp_all add: proc_view_def)
  have fin: "pg_rows (ps_store ps) = (sys_rows s)(i \<mapsto> ?n')" "cb_state (ps_breaker ps) = Closed"
    "DoNack True \<notin> set eff" "DoNack False \<notin> set eff"
    using Process_sent [OF view(1) msg view(2) _ _ _ _ view(3,4) run _ send(2)] send(1) t(2)
    by (simp_all add: proc_view_def sys_rows_def)
  have step: "sys_step P s ?s'"
    by (rule sys_step.work [of 0 s ?ch P "fair_env t r" ps eff]) (use assms(3) run in \<open>simp_all add: sys_repo_def\<close>)
  have s': "y_queue ?s' = rest" "y_dead ?s' = y_dead s" "sys_rows ?s' = (sys_rows s)(i \<mapsto> ?n')"
    "y_breaker ?s' = (y_breaker s)(?ch := ps_breaker ps)"
    using fin assms(3) by (simp_all add: after_work_def sys_rows_def Let_def)
  have inv': "sys_inv P ?s'" using sys_step_evolves [OF step inv] by blast
  have "readable_metadata (n_Metadata n')" if "sys_rows ?s' j = Some n'" for j n'
    using that meta [of j] meta [OF n(1)] by (auto simp: s'(3) row_write_defs split: if_splits)
  then have "can_run P ?s'" using inv' cbs fin(2) by (simp add: can_run_def breaker_State_def s'(4))
  with step s' n sent_same show ?thesis by blast
qed

section \<open>Draining\<close>

lemma reachable_trans: "reachable P s1 s2 \<Longrightarrow> reachable P s s1 \<Longrightarrow> reachable P s s2"
  by (induction rule: reachable.induct) (auto intro: reachable.intros)

lemma drains:
  assumes "healthy P"
  shows "can_run P s \<Longrightarrow> \<exists>s'. reachable P s s' \<and> y_queue s' = [] \<and> y_dead s' = y_dead s \<and>
    (\<forall>p \<in> set (y_queue s). \<exists>i n. sys_rows s' i = Some n \<and> n_Status n = StatusSent \<and> message_for (sp_up P) n p) \<and>
    (\<forall>i n. sys_rows s i = Some n \<longrightarrow> n_Status n = StatusSent \<longrightarrow>
       (\<exists>n'. sys_rows s' i = Some n' \<and> n_Status n' = StatusSent \<and> same_notification n n'))"
proof (induction "y_queue s" arbitrary: s)
  case Nil
  then show ?case by (intro exI [of _ s]) (auto intro: reach_refl)
next
  case (Cons p rest)
  obtain s1 i n n1 where one: "sys_step P s s1" "can_run P s1" "y_queue s1 = rest" "y_dead s1 = y_dead s"
    "sys_rows s i = Some n" "message_for (sp_up P) n p" "same_notification n n1" "n_Status n1 = StatusSent"
    "sys_rows s1 = (sys_rows s)(i \<mapsto> n1)"
    using drain_step [OF assms Cons.prems Cons.hyps(2) [symmetric]] by blast
  obtain s' where s': "reachable P s1 s'" "y_queue s' = []" "y_dead s' = y_dead s1"
    "\<forall>p \<in> set (y_queue s1). \<exists>i n. sys_rows s' i = Some n \<and> n_Status n = StatusSent \<and> message_for (sp_up P) n p"
    "\<And>i n. sys_rows s1 i = Some n \<Longrightarrow> n_Status n = StatusSent \<Longrightarrow>
       \<exists>n'. sys_rows s' i = Some n' \<and> n_Status n' = StatusSent \<and> same_notification n n'"
    using Cons.hyps(1) [OF one(3) [symmetric] one(2)] by blast
  have "reachable P s s'" using reachable_trans [OF s'(1) reach_step [OF reach_refl one(1)]] .
  moreover obtain n' where n': "sys_rows s' i = Some n'" "n_Status n' = StatusSent" "same_notification n1 n'"
    using s'(5) [of i n1] one(8,9) by auto
  then have "message_for (sp_up P) n' p" using message_for_same one(6,7) by blast
  moreover have "\<exists>m'. sys_rows s' j = Some m' \<and> n_Status m' = StatusSent \<and> same_notification m m'"
    if "sys_rows s j = Some m" "n_Status m = StatusSent" for j m
  proof (cases "j = i")
    case True
    then have "same_notification m n'" using that one(5,7) n'(3) by (auto simp: same_notification_def)
    then show ?thesis using n' True by blast
  next
    case False
    then show ?thesis using s'(5) [of j m] that one(9) by simp
  qed
  moreover have "y_queue s = p # y_queue s1" using Cons.hyps(2) one(3) by simp
  ultimately show ?case using s'(2-4) one(4) n'(1,2) by (intro exI [of _ s']) auto
qed

section \<open>Properties\<close>

text \<open>
  C4. Nothing waits in vain: from every state the system can reach in which no breaker is half-open and
  the metadata of the stored notifications can be read, there is a way on, with a provider that
  answers and clocks that advance, to a state with an empty queue in which every notification that
  was waiting has been sent and nothing more has been dead-lettered.
\<close>

theorem system_can_drain:
  assumes "server_ok (sp_srv P)" "healthy P" "reachable P (sys_init now) s"
    "\<forall>i n. sys_rows s i = Some n \<longrightarrow> readable_metadata (n_Metadata n)"
    "\<forall>ch. breaker_State (y_breaker s ch) \<noteq> HalfOpen"
  shows "\<exists>s'. reachable P s s' \<and> y_queue s' = [] \<and> y_dead s' = y_dead s \<and>
    (\<forall>p \<in> set (y_queue s). \<exists>i n. sys_rows s' i = Some n \<and> n_Status n = StatusSent \<and> message_for (sp_up P) n p)"
proof -
  have "can_run P s"
    using reachable_evolves [OF assms(3) init_inv [OF assms(1)]] assms(4,5) by (simp add: can_run_def)
  from drains [OF assms(2) this] show ?thesis by blast
qed

lemma one_request_ready:
  "sys_rows one_request i = Some n \<Longrightarrow> n_Metadata n = None" "breaker_State (y_breaker one_request ch) \<noteq> HalfOpen"
  "length (y_queue one_request) = 1"
  unfolding one_request_def serve_unfold sample_post_top sample_post_api
  by (auto simp: absorb_def sys_rows_def sys_init_def serve_api_def responded_def sample_server_def sample_post_def
      correlated_def Handler_Create_def Service_Create_def service_eval checkBackpressure_def ThresholdNormal_def
      resolve_template_def pg_rows_def pg_Create_def Let_def CircuitBreaker.New_def breaker_State_def split: if_splits)

theorem system_can_drain_witness:
  "length (y_queue one_request) = 1 \<and> (\<exists>s'. reachable sample_params one_request s' \<and> y_queue s' = [])"
proof -
  have ok: "server_ok (sp_srv sample_params)" by (simp add: sample_params_def)
  have h: "healthy sample_params"
    using sample_uuid_roundtrip by (simp add: healthy_def sample_params_def sample_config_def)
  show ?thesis
    using system_can_drain [OF ok h one_request_reachable] one_request_ready readable_none by metis
qed

end
