(* ===== verification/Docs.thy ===== *)
theory Docs
  imports Router
begin

text \<open>
  Package \<open>docs\<close>: the API documentation that is served under \<open>/swagger/\<close>, as data, and what it says
  next to what the handlers do. A schema is what the document says of a JSON value, \<open>conforms\<close>
  reads it against the text of one. The generator \<open>swag\<close> only substitutes the
  fields of \<open>SwaggerInfo\<close>; its escaping of them is not modelled.

  The lemmas: every answer of a documented operation has a documented status and a body as its
  schema has it, up to a list of statuses and one member that the document leaves out.
\<close>

section \<open>The document\<close>

text \<open>The schemas of the document; \<open>TAnyObject\<close> is an object nothing more is said of.\<close>

datatype schema = TString | TInteger | TNumber | TBoolean | TAnyObject | TObject "(string \<times> schema) list"
  | TMap schema | TArray schema | TRef string

record doc_param =
  dp_type :: schema
  dp_description :: string
  dp_name :: string
  dp_in :: string
  dp_required :: bool

record doc_operation =
  do_description :: string
  do_consumes :: "string list"
  do_produces :: "string list"
  do_tags :: "string list"
  do_summary :: string
  do_parameters :: "doc_param list"
  do_responses :: "(int \<times> string \<times> schema) list"

subsection \<open>Definitions\<close>

definition doc_BatchCreateRequest :: "string \<times> schema" where
  "doc_BatchCreateRequest = (''domain.BatchCreateRequest'', TObject [(''notifications'',
     TArray (TRef ''domain.CreateNotificationRequest''))])"

definition doc_CreateNotificationRequest :: "string \<times> schema" where
  "doc_CreateNotificationRequest = (''domain.CreateNotificationRequest'', TObject [(''channel'', TString),
     (''content'', TString), (''idempotency_key'', TString), (''metadata'', TAnyObject), (''priority'', TString),
     (''recipient'', TString), (''scheduled_at'', TString), (''subject'', TString)])"

definition doc_FieldError :: "string \<times> schema" where
  "doc_FieldError = (''domain.FieldError'', TObject [(''field'', TString), (''message'', TString)])"

definition doc_Notification :: "string \<times> schema" where
  "doc_Notification = (''domain.Notification'', TObject [(''batch_id'', TString), (''channel'', TString),
     (''content'', TString), (''created_at'', TString), (''error_message'', TString), (''failed_at'', TString),
     (''id'', TString), (''idempotency_key'', TString), (''max_retries'', TInteger), (''metadata'', TAnyObject),
     (''next_retry_at'', TString), (''priority'', TString), (''provider_message_id'', TString),
     (''recipient'', TString), (''retry_count'', TInteger), (''scheduled_at'', TString), (''sent_at'', TString),
     (''status'', TString), (''subject'', TString), (''updated_at'', TString)])"

definition doc_batchResponse :: "string \<times> schema" where
  "doc_batchResponse = (''handler.batchResponse'', TObject [(''batch_id'', TString), (''count'', TInteger),
     (''notifications'', TArray (TRef ''domain.Notification''))])"

definition doc_errorResponse :: "string \<times> schema" where
  "doc_errorResponse = (''handler.errorResponse'', TObject [(''details'', TArray (TRef ''domain.FieldError'')),
     (''error'', TString)])"

definition doc_healthResponse :: "string \<times> schema" where
  "doc_healthResponse = (''handler.healthResponse'', TObject [(''checks'', TMap TString), (''status'', TString)])"

definition doc_listResponse :: "string \<times> schema" where
  "doc_listResponse = (''handler.listResponse'', TObject [(''data'', TArray (TRef ''domain.Notification'')),
     (''pagination'', TRef ''handler.paginationInfo'')])"

definition doc_metricsResponse :: "string \<times> schema" where
  "doc_metricsResponse = (''handler.metricsResponse'', TObject [(''circuit_breakers'', TMap TString),
     (''notifications'', TMap (TMap TInteger)), (''queues'', TMap (TRef ''handler.queueMetrics'')),
     (''rate_limiters'', TMap (TRef ''handler.rateLimiterMetrics'')), (''timestamp'', TString)])"

definition doc_paginationInfo :: "string \<times> schema" where
  "doc_paginationInfo = (''handler.paginationInfo'', TObject [(''has_more'', TBoolean), (''next_cursor'', TString)])"

definition doc_queueMetrics :: "string \<times> schema" where
  "doc_queueMetrics = (''handler.queueMetrics'', TObject [(''depth'', TInteger), (''dlq_depth'', TInteger)])"

definition doc_rateLimiterMetrics :: "string \<times> schema" where
  "doc_rateLimiterMetrics = (''handler.rateLimiterMetrics'', TObject [(''tokens_remaining'', TNumber)])"

definition doc_definitions :: "(string \<times> schema) list" where
  "doc_definitions = [doc_BatchCreateRequest, doc_CreateNotificationRequest, doc_FieldError, doc_Notification,
     doc_batchResponse, doc_errorResponse, doc_healthResponse, doc_listResponse, doc_metricsResponse,
     doc_paginationInfo, doc_queueMetrics, doc_rateLimiterMetrics]"

subsection \<open>Operations\<close>

definition doc_list :: doc_operation where
  "doc_list =
     \<lparr>do_description = ''List notifications with filtering and cursor pagination'',
      do_consumes = [], do_produces = [''application/json''], do_tags = [''notifications''],
      do_summary = ''List notifications'',
      do_parameters = [\<lparr>dp_type = TString,
         dp_description = ''Filter by status (pending, queued, processing, sent, failed, cancelled)'',
         dp_name = ''status'', dp_in = ''query'', dp_required = False\<rparr>,
        \<lparr>dp_type = TString, dp_description = ''Filter by channel (sms, email, push)'',
           dp_name = ''channel'', dp_in = ''query'', dp_required = False\<rparr>,
        \<lparr>dp_type = TString, dp_description = ''Filter by priority (high, normal, low)'',
           dp_name = ''priority'', dp_in = ''query'', dp_required = False\<rparr>,
        \<lparr>dp_type = TString, dp_description = ''Filter by created_at >= (RFC3339 format)'',
           dp_name = ''created_after'', dp_in = ''query'', dp_required = False\<rparr>,
        \<lparr>dp_type = TString, dp_description = ''Filter by created_at <= (RFC3339 format)'',
           dp_name = ''created_before'', dp_in = ''query'', dp_required = False\<rparr>,
        \<lparr>dp_type = TString, dp_description = ''Pagination cursor from previous response'',
           dp_name = ''cursor'', dp_in = ''query'', dp_required = False\<rparr>,
        \<lparr>dp_type = TInteger, dp_description = ''Page size (default 20, max 100)'', dp_name = ''limit'',
           dp_in = ''query'', dp_required = False\<rparr>],
      do_responses = [(200, ''OK'', TRef ''handler.listResponse''),
        (400, ''Bad Request'', TRef ''handler.errorResponse'')]\<rparr>"

definition doc_create :: doc_operation where
  "doc_create =
     \<lparr>do_description = ''Create a single notification request'',
      do_consumes = [''application/json''], do_produces = [''application/json''], do_tags = [''notifications''],
      do_summary = ''Create a notification'',
      do_parameters = [\<lparr>dp_type = TRef ''domain.CreateNotificationRequest'',
         dp_description = ''Notification request'', dp_name = ''request'', dp_in = ''body'',
         dp_required = True\<rparr>],
      do_responses = [(201, ''Created'', TRef ''domain.Notification''),
        (400, ''Bad Request'', TRef ''handler.errorResponse''),
        (409, ''Conflict'', TRef ''handler.errorResponse'')]\<rparr>"

definition doc_create_batch :: doc_operation where
  "doc_create_batch =
     \<lparr>do_description = ''Create up to 1000 notifications in a single request'',
      do_consumes = [''application/json''], do_produces = [''application/json''], do_tags = [''notifications''],
      do_summary = ''Create a batch of notifications'',
      do_parameters = [\<lparr>dp_type = TRef ''domain.BatchCreateRequest'', dp_description = ''Batch request'',
         dp_name = ''request'', dp_in = ''body'', dp_required = True\<rparr>],
      do_responses = [(201, ''Created'', TRef ''handler.batchResponse''),
        (400, ''Bad Request'', TRef ''handler.errorResponse''),
        (409, ''Conflict'', TRef ''handler.errorResponse'')]\<rparr>"

definition doc_batch_status :: doc_operation where
  "doc_batch_status =
     \<lparr>do_description = ''Retrieve all notifications in a batch by batch ID'',
      do_consumes = [], do_produces = [''application/json''], do_tags = [''notifications''],
      do_summary = ''Get batch status'',
      do_parameters = [\<lparr>dp_type = TString, dp_description = ''Batch ID (UUID)'', dp_name = ''id'',
         dp_in = ''path'', dp_required = True\<rparr>],
      do_responses = [(200, ''OK'', TRef ''handler.batchResponse''),
        (400, ''Bad Request'', TRef ''handler.errorResponse'')]\<rparr>"

definition doc_get :: doc_operation where
  "doc_get =
     \<lparr>do_description = ''Retrieve a notification by its UUID'',
      do_consumes = [], do_produces = [''application/json''], do_tags = [''notifications''],
      do_summary = ''Get notification by ID'',
      do_parameters = [\<lparr>dp_type = TString, dp_description = ''Notification ID (UUID)'', dp_name = ''id'',
         dp_in = ''path'', dp_required = True\<rparr>],
      do_responses = [(200, ''OK'', TRef ''domain.Notification''),
        (400, ''Bad Request'', TRef ''handler.errorResponse''),
        (404, ''Not Found'', TRef ''handler.errorResponse'')]\<rparr>"

definition doc_cancel :: doc_operation where
  "doc_cancel =
     \<lparr>do_description = ''Cancel a pending or queued notification'',
      do_consumes = [], do_produces = [''application/json''], do_tags = [''notifications''],
      do_summary = ''Cancel a notification'',
      do_parameters = [\<lparr>dp_type = TString, dp_description = ''Notification ID (UUID)'', dp_name = ''id'',
         dp_in = ''path'', dp_required = True\<rparr>],
      do_responses = [(200, ''OK'', TRef ''domain.Notification''),
        (400, ''Bad Request'', TRef ''handler.errorResponse''),
        (404, ''Not Found'', TRef ''handler.errorResponse''),
        (409, ''Notification cannot be cancelled'', TRef ''handler.errorResponse'')]\<rparr>"

definition doc_health :: doc_operation where
  "doc_health =
     \<lparr>do_description = ''Check connectivity to PostgreSQL, RabbitMQ, and Redis'',
      do_consumes = [], do_produces = [''application/json''], do_tags = [''infrastructure''],
      do_summary = ''Health check'',
      do_parameters = [],
      do_responses = [(200, ''OK'', TRef ''handler.healthResponse''),
        (503, ''Service Unavailable'', TRef ''handler.healthResponse'')]\<rparr>"

definition doc_metrics :: doc_operation where
  "doc_metrics =
     \<lparr>do_description = ''Real-time metrics: queue depths, notification counts, circuit breaker states, rate limiter tokens'',
      do_consumes = [], do_produces = [''application/json''], do_tags = [''infrastructure''],
      do_summary = ''System metrics'',
      do_parameters = [],
      do_responses = [(200, ''OK'', TRef ''handler.metricsResponse'')]\<rparr>"

definition doc_paths :: "(string \<times> (string \<times> doc_operation) list) list" where
  "doc_paths = [(''/api/v1/notifications'', [(''get'', doc_list), (''post'', doc_create)]),
     (''/api/v1/notifications/batch'', [(''post'', doc_create_batch)]),
     (''/api/v1/notifications/batch/{id}'', [(''get'', doc_batch_status)]),
     (''/api/v1/notifications/{id}'', [(''get'', doc_get)]),
     (''/api/v1/notifications/{id}/cancel'', [(''patch'', doc_cancel)]),
     (''/health'', [(''get'', doc_health)]),
     (''/metrics'', [(''get'', doc_metrics)])]"

subsection \<open>The whole\<close>

record swag_spec =
  si_Version :: string
  si_Host :: string
  si_BasePath :: string
  si_Schemes :: "string list"
  si_Title :: string
  si_Description :: string
  si_InfoInstanceName :: string
  si_LeftDelim :: string
  si_RightDelim :: string

text \<open>Its \<open>SwaggerTemplate\<close> is \<open>docTemplate\<close>, the function below.\<close>

definition SwaggerInfo :: swag_spec where
  "SwaggerInfo =
     \<lparr>si_Version = ''1.0'', si_Host = ''localhost:8080'', si_BasePath = ''/'', si_Schemes = [],
      si_Title = ''Notification System API'',
      si_Description = ''Event-driven notification system that processes and delivers messages '' @
        ''through SMS, Email, and Push channels.'',
      si_InfoInstanceName = ''swagger'', si_LeftDelim = ''{{'', si_RightDelim = ''}}''\<rparr>"

record swagger_doc =
  sd_schemes :: "string list"
  sd_swagger :: string
  sd_description :: string
  sd_title :: string
  sd_version :: string
  sd_host :: string
  sd_basePath :: string
  sd_paths :: "(string \<times> (string \<times> doc_operation) list) list"
  sd_definitions :: "(string \<times> schema) list"

definition docTemplate :: "swag_spec \<Rightarrow> swagger_doc" where
  "docTemplate info =
     \<lparr>sd_schemes = si_Schemes info, sd_swagger = ''2.0'', sd_description = si_Description info,
      sd_title = si_Title info, sd_version = si_Version info, sd_host = si_Host info,
      sd_basePath = si_BasePath info, sd_paths = doc_paths, sd_definitions = doc_definitions\<rparr>"

text \<open>The operation documented for a method and a path; the paths are below \<open>basePath\<close>, which is the root.\<close>

definition doc_method :: "string \<Rightarrow> string" where
  "doc_method m = (if m = ''GET'' then ''get'' else if m = ''POST'' then ''post'' else if m = ''PATCH'' then ''patch'' else m)"

definition doc_operation_at :: "swagger_doc \<Rightarrow> string \<times> string \<Rightarrow> doc_operation option" where
  "doc_operation_at doc ep =
     Option.bind (map_of (sd_paths doc) (snd ep)) (\<lambda>ops. map_of ops (doc_method (fst ep)))"

section \<open>Reading a value against a schema\<close>

definition is_integer :: "string \<Rightarrow> bool" where
  "is_integer raw \<longleftrightarrow> (let digits = (if take 1 raw = ''-'' then tl raw else raw) in jint digits = Some (digits, []))"

definition is_number :: "string \<Rightarrow> bool" where
  "is_number raw \<longleftrightarrow> jnumber raw = Some (raw, [])"

text \<open>
  Members the schema does not name are allowed if they are in \<open>extra\<close>. Every step into a value or
  through a reference takes one unit of fuel; the schemas of the document need 7 (\<open>doc_depth\<close>).
\<close>

primrec conforms :: "nat \<Rightarrow> string list \<Rightarrow> (string \<times> schema) list \<Rightarrow> schema \<Rightarrow> string \<Rightarrow> bool" where
  "conforms 0 extra defs sch raw = False"
| "conforms (Suc k) extra defs sch raw =
     (case sch of
        TString \<Rightarrow> take 1 raw = [dquote]
      | TInteger \<Rightarrow> is_integer raw
      | TNumber \<Rightarrow> is_number raw
      | TBoolean \<Rightarrow> raw = ''true'' \<or> raw = ''false''
      | TAnyObject \<Rightarrow> take 1 raw = ''{''
      | TObject props \<Rightarrow>
          (case json_read raw of
             Some (JObject ms) \<Rightarrow>
               list_all (\<lambda>(name, v). case map_of props name of
                   None \<Rightarrow> name \<in> set extra
                 | Some s \<Rightarrow> conforms k extra defs s v) ms
           | _ \<Rightarrow> False)
      | TMap s \<Rightarrow>
          (case json_read raw of Some (JObject ms) \<Rightarrow> list_all (\<lambda>(_, v). conforms k extra defs s v) ms | _ \<Rightarrow> False)
      | TArray s \<Rightarrow>
          take 1 raw = ''['' \<and>
          (case array_elements raw of None \<Rightarrow> False | Some vs \<Rightarrow> list_all (conforms k extra defs s) vs)
      | TRef name \<Rightarrow> (case map_of defs name of None \<Rightarrow> False | Some s \<Rightarrow> conforms k extra defs s raw))"

definition doc_depth :: nat where
  "doc_depth = 7"

text \<open>A body: one value and the line break of \<open>Encode\<close>.\<close>

definition body_conforms :: "string list \<Rightarrow> schema \<Rightarrow> string \<Rightarrow> bool" where
  "body_conforms extra sch t \<longleftrightarrow>
     t \<noteq> [] \<and> last t = CHR 0x0A \<and> conforms doc_depth extra (sd_definitions (docTemplate SwaggerInfo)) sch (butlast t)"

section \<open>What the encoder writes\<close>

text \<open>
  \<open>fits d k extra sch v\<close>: if the value has a JSON form, it nests at most \<open>d\<close> deep and conforms.
\<close>

definition fits :: "nat \<Rightarrow> nat \<Rightarrow> string list \<Rightarrow> schema \<Rightarrow> string option \<Rightarrow> bool" where
  "fits d k extra sch v \<longleftrightarrow> (\<forall>u. v = Some u \<longrightarrow> value_again d u \<and> conforms k extra doc_definitions sch u)"

lemma fits_text [simp]:
  "fits d (Suc k) extra TString (text_json s)" "fits d (Suc k) extra TString (uuid_json cj i)"
  "fits d (Suc k) extra TString (time_json cj t)" "fits d (Suc k) extra TString (marshal_time z t)"
proof -
  show s: "fits d (Suc k) extra TString (text_json s)" for s
    using text_again(1) [of s] by (simp add: fits_def text_json_def json_string_def)
  show "fits d (Suc k) extra TString (uuid_json cj i)" using s by (simp add: uuid_json_def)
  show t: "fits d (Suc k) extra TString (marshal_time z t)" for z
    unfolding fits_def by (auto dest!: marshal_time_string simp: value_again_json_string, simp add: json_string_def)
  show "fits d (Suc k) extra TString (time_json cj t)" using t by (simp add: time_json_def)
qed

lemma fits_int [simp]: "fits d (Suc k) extra TInteger (int_json x)"
proof -
  obtain c cs where d: "nat_digits (nat x) = c # cs" "c \<noteq> CHR ''-''" using nat_digits_Cons by blast
  have "is_integer (itoa x)"
    using d jint_digits [of "nat x"] jint_digits [of "nat (- x)"] by (auto simp: is_integer_def itoa_def Let_def)
  then show ?thesis by (simp add: fits_def int_json_def value_again_itoa)
qed

lemma fits_bool [simp]: "fits d (Suc k) extra TBoolean (bool_json b)"
proof -
  have "value_again d (if b then ''true'' else ''false'')"
    using value_again_literal [of "if b then ''true'' else ''false''" "if b then ''true'' else ''false''" "[]"]
    by (simp add: jliteral_def split: if_splits)
  then show ?thesis by (simp add: fits_def bool_json_def)
qed

lemma jliteral_number: "jnumber s = Some (t, r) \<Longrightarrow> jliteral s = Some (t, r)"
  by (cases s) (auto simp: jliteral_def jnumber_def junsigned_def then_parse_def jint_def some_digits_def split: if_splits)

lemma fits_number: "is_number s \<Longrightarrow> fits d (Suc k) extra TNumber (Some s)"
  using value_again_literal [OF jliteral_number, of s s "[]"] by (simp add: fits_def is_number_def)

lemma fits_ref: "map_of doc_definitions name = Some sch \<Longrightarrow> fits d k extra sch v \<Longrightarrow> fits d (Suc k) extra (TRef name) v"
  by (simp add: fits_def)

lemma object_read:
  assumes "list_all (\<lambda>m. value_again (max_depth - 1) (snd m)) ms"
  shows "json_read (object_text ms) = Some (JObject (map (\<lambda>(n, v). (to_valid_utf8 n, v)) ms))"
proof (cases "ms = []")
  case True
  have "json_read ''{}'' = Some (JObject [])"
    by (simp add: json_read_def json_compact_def skip_ws_def is_ws_def max_depth_def)
  then show ?thesis using True by (simp add: object_text_def)
qed (rule json_read_object [OF _ assms])

lemma object_again:
  assumes "list_all (\<lambda>m. value_again d (snd m)) ms"
  shows "value_again (Suc d) (object_text ms)"
proof (cases "ms = []")
  case True
  then show ?thesis using value_again_empty [of "Suc d"] by (simp add: object_text_def)
qed (rule value_again_object_text [OF _ assms])

definition field_fits :: "nat \<Rightarrow> nat \<Rightarrow> string list \<Rightarrow> (string \<times> schema) list \<Rightarrow> string \<times> string option \<Rightarrow> bool" where
  "field_fits d k extra props f \<longleftrightarrow> ascii_name (fst f) \<and>
     (case map_of props (fst f) of
        None \<Rightarrow> fst f \<in> set extra \<and> (\<forall>u. snd f = Some u \<longrightarrow> value_again d u)
      | Some s \<Rightarrow> fits d k extra s (snd f))"

lemma struct_conforms:
  assumes "struct_json fs = Some t" "fields_again (max_depth - 1) fs" "list_all (\<lambda>(n, _). ascii_name n) fs"
  shows "conforms (Suc k) extra defs (TObject props) t \<longleftrightarrow>
    list_all (\<lambda>(n, v). case map_of props n of None \<Rightarrow> n \<in> set extra | Some s \<Rightarrow> conforms k extra defs s (the v)) fs"
proof -
  let ?ms = "map (\<lambda>(n, v). (n, the v)) fs"
  have "map (\<lambda>(n, v). (to_valid_utf8 n, v)) ?ms = ?ms"
    using assms(3) by (auto simp: list_all_iff ascii_name_def intro!: ascii_valid)
  then have "json_read t = Some (JObject ?ms)"
    using object_read [OF fields_members [OF assms(1,2)]] assms(1) by (simp add: struct_json_Some)
  moreover have "list_all (\<lambda>(n, v). case map_of props n of None \<Rightarrow> n \<in> set extra | Some s \<Rightarrow> conforms k extra defs s v)
      (map (\<lambda>(n, v). (n, the v)) gs) \<longleftrightarrow>
    list_all (\<lambda>(n, v). case map_of props n of None \<Rightarrow> n \<in> set extra | Some s \<Rightarrow> conforms k extra defs s (the v)) gs" for gs
    by (induction gs) auto
  ultimately show ?thesis by simp
qed

lemma fields_deeper: "fields_again d fs \<Longrightarrow> d \<le> d' \<Longrightarrow> fields_again d' fs"
  using value_again_deeper by (fastforce simp: fields_again_def list_all_iff)

lemma field_fits_again: "list_all (field_fits d k extra props) fs \<Longrightarrow> fields_again d fs \<and> list_all (\<lambda>(n, _). ascii_name n) fs"
  by (auto simp: fields_again_def field_fits_def fits_def list_all_iff split: option.splits)

lemma fits_struct:
  assumes "list_all (field_fits d k extra props) fs" "d < max_depth"
  shows "fits (Suc d) (Suc k) extra (TObject props) (struct_json fs)"
  unfolding fits_def
proof (intro allI impI conjI)
  fix t
  assume t: "struct_json fs = Some t"
  note again = field_fits_again [OF assms(1)]
  then show "value_again (Suc d) t" using object_again [OF fields_members [OF t]] t by (auto simp: struct_json_Some)
  have "fields_again (max_depth - 1) fs" using again assms(2) fields_deeper by fastforce
  moreover have "list_all (\<lambda>(_, v). v \<noteq> None) fs" using t by (simp add: struct_json_Some)
  ultimately show "conforms (Suc k) extra doc_definitions (TObject props) t"
    using assms(1) again struct_conforms [OF t]
    by (fastforce simp: list_all_iff field_fits_def fits_def split: option.splits)
qed

lemma fits_map:
  assumes "\<And>x a. m x = Some a \<Longrightarrow> fits d k extra s (f a)" "d < max_depth"
  shows "fits (Suc d) (Suc k) extra (TMap s) (map_json f m)"
  unfolding fits_def map_json_def
proof (intro allI impI conjI)
  fix t
  let ?fs = "map (\<lambda>x. (x, f (the (m x)))) (sorted_list_of_set (dom m))"
  let ?ms = "map (\<lambda>(n, v). (n, the v)) ?fs"
  assume t: "struct_json ?fs = Some t"
  have fs: "fits d k extra s v" if "(n, v) \<in> set ?fs" for n v
  proof -
    have "set (sorted_list_of_set (dom m)) \<subseteq> dom m" by (cases "finite (dom m)") simp_all
    moreover from that have "n \<in> set (sorted_list_of_set (dom m))" "v = f (the (m n))"
      by (simp_all add: image_iff)
    ultimately show ?thesis using assms(1) by auto
  qed
  then have "fields_again d ?fs" by (fastforce simp: fields_again_def fits_def list_all_iff)
  then have again: "list_all (\<lambda>m. value_again d (snd m)) ?ms" using fields_members t by blast
  then show "value_again (Suc d) t" using object_again t by (auto simp: struct_json_Some)
  have "list_all (\<lambda>m. value_again (max_depth - 1) (snd m)) ?ms"
    using again value_again_deeper [of d _ "max_depth - 1"] assms(2) by (auto simp: list_all_iff)
  then have "json_read t = Some (JObject (map (\<lambda>(n, v). (to_valid_utf8 n, v)) ?ms))"
    using object_read [of ?ms] t by (simp add: struct_json_Some)
  moreover have "list_all (\<lambda>(_, v). v \<noteq> None) ?fs" using t by (simp add: struct_json_Some)
  then have "\<forall>(n, v) \<in> set ?fs. conforms k extra doc_definitions s (the v)"
    using fs by (fastforce simp: fits_def list_all_iff)
  ultimately show "conforms (Suc k) extra doc_definitions (TMap s) t"
    by (auto simp: list_all_iff)
qed

lemma fits_array:
  assumes "list_all (fits d k extra s) vs" "d < max_depth"
  shows "fits (Suc d) (Suc k) extra (TArray s) (array_json vs)"
proof -
  have "value_again (Suc d) (array_text us) \<and> conforms (Suc k) extra doc_definitions (TArray s) (array_text us)"
    if us: "list_all (\<lambda>u. value_again d u \<and> conforms k extra doc_definitions s u) us" for us
  proof -
    have again: "list_all (value_again d) us" using us by (simp add: list_all_iff)
    then have "list_all (value_again (max_depth - 1)) us"
      using value_again_deeper [of d _ "max_depth - 1"] assms(2) by (auto simp: list_all_iff)
    from array_elements_text [OF this] show ?thesis
      using us value_again_array_text [OF again] by (simp add: list_all_iff array_text_def)
  qed
  moreover have "list_all (\<lambda>u. value_again d u \<and> conforms k extra doc_definitions s u) (map the vs)"
    if "list_all (\<lambda>v. v \<noteq> None) vs"
    using that assms(1) by (auto simp: list_all_iff fits_def)
  ultimately show ?thesis by (simp add: fits_def array_json_def)
qed

lemma fits_fields [simp]:
  "list_all (field_fits d k extra props) (omitempty name f x) \<longleftrightarrow> (\<forall>a. x = Some a \<longrightarrow> field_fits d k extra props (name, f a))"
  by (rule omitempty_all)

section \<open>The bodies of the answers\<close>

lemmas doc_defs = doc_BatchCreateRequest_def doc_CreateNotificationRequest_def doc_FieldError_def doc_Notification_def
  doc_batchResponse_def doc_errorResponse_def doc_healthResponse_def doc_listResponse_def doc_metricsResponse_def
  doc_paginationInfo_def doc_queueMetrics_def doc_rateLimiterMetrics_def

lemma doc_lookup:
  "map_of doc_definitions ''domain.Notification'' = Some (snd doc_Notification)"
  "map_of doc_definitions ''domain.FieldError'' = Some (snd doc_FieldError)"
  "map_of doc_definitions ''handler.batchResponse'' = Some (snd doc_batchResponse)"
  "map_of doc_definitions ''handler.errorResponse'' = Some (snd doc_errorResponse)"
  "map_of doc_definitions ''handler.healthResponse'' = Some (snd doc_healthResponse)"
  "map_of doc_definitions ''handler.listResponse'' = Some (snd doc_listResponse)"
  "map_of doc_definitions ''handler.metricsResponse'' = Some (snd doc_metricsResponse)"
  "map_of doc_definitions ''handler.paginationInfo'' = Some (snd doc_paginationInfo)"
  "map_of doc_definitions ''handler.queueMetrics'' = Some (snd doc_queueMetrics)"
  "map_of doc_definitions ''handler.rateLimiterMetrics'' = Some (snd doc_rateLimiterMetrics)"
  by (simp_all add: doc_definitions_def doc_defs)

text \<open>The document says that metadata are an object; \<open>d\<close> bounds how deep they nest.\<close>

definition object_metadata :: "nat \<Rightarrow> Notification \<Rightarrow> bool" where
  "object_metadata d n \<longleftrightarrow> metadata_fits d (n_Metadata n) \<and>
     (case n_Metadata n of None \<Rightarrow> True | Some raw \<Rightarrow> raw = [] \<or> take 1 (skip_ws raw) = ''{'')"

lemma compact_object:
  assumes "json_compact raw = Some t"
  shows "take 1 t = ''{'' \<longleftrightarrow> take 1 (skip_ws raw) = ''{''"
proof -
  obtain k where k: "length raw = Suc k" using assms by (cases raw) (auto simp: json_compact_def)
  obtain r where j: "jvalue (Suc k) max_depth raw = Some (t, r)"
    using assms k by (auto simp: json_compact_def split: option.splits if_splits)
  obtain c cs where s: "skip_ws raw = c # cs" using j by (cases "skip_ws raw") auto
  show ?thesis
  proof (cases "c = dquote \<or> c = CHR ''{'' \<or> c = CHR ''[''")
    case True
    then show ?thesis using j s by (auto simp: prepend_Some split: if_splits list.splits)
  next
    case False
    then have l: "jliteral (c # cs) = Some (t, r)" using j s by simp
    from jliteral_again [OF this delim_punctuation(4)] have "t \<noteq> []" "literal_start (hd t)" by (simp_all)
    then have "take 1 t \<noteq> ''{''" using literal_start_plain by (cases t) auto
    then show ?thesis using False s by simp
  qed
qed

lemma fits_metadata:
  assumes "object_metadata d n" "d \<le> max_depth" "map_of props ''metadata'' = Some TAnyObject"
  shows "list_all (field_fits d (Suc k) extra props) (metadata_field (n_Metadata n))"
proof -
  have f: "metadata_fits d (n_Metadata n)" using assms(1) by (simp add: object_metadata_def)
  note m = metadata_fits_member [OF f assms(2)]
  have "take 1 t = ''{''" if "n_Metadata n = Some raw" "raw \<noteq> []" "json_compact raw = Some t" for raw t
    using compact_object [OF that(3)] assms(1) that by (simp add: object_metadata_def)
  with m assms(3) show ?thesis
    by (auto simp: field_fits_def fits_def fields_again_def ascii_name_def split: option.splits if_splits)
qed

lemma field_fits_names: "field_fits d k extra props (name, v) \<longleftrightarrow> ascii_name name \<and>
     (case map_of props name of
        None \<Rightarrow> name \<in> set extra \<and> (\<forall>u. v = Some u \<longrightarrow> value_again d u)
      | Some s \<Rightarrow> fits d k extra s v)"
  by (simp add: field_fits_def split: option.split)

lemma fits_notification:
  assumes "object_metadata d n" "d < max_depth"
  shows "fits (Suc d) (Suc (Suc (Suc k))) extra (TRef ''domain.Notification'') (notification_json cj n)"
proof -
  have "list_all (field_fits d (Suc k) extra props) (notification_fields cj n)"
    if "TObject props = snd doc_Notification" for props
  proof -
    have "map_of props ''metadata'' = Some TAnyObject" using that by (simp add: doc_Notification_def)
    from fits_metadata [OF assms(1) less_imp_le [OF assms(2)] this] show ?thesis
      unfolding notification_fields_def list_all_append
      using that by (simp add: field_fits_names ascii_name_def doc_Notification_def)
  qed
  from fits_struct [OF this assms(2)] show ?thesis
    by (auto simp: notification_json_def doc_lookup doc_Notification_def intro!: fits_ref)
qed

lemma fits_field_error:
  "d < max_depth \<Longrightarrow> fits (Suc d) (Suc (Suc (Suc k))) extra (TRef ''domain.FieldError'') (field_error_json e)"
  by (auto simp: field_error_json_def doc_lookup doc_FieldError_def field_fits_names ascii_name_def intro!: fits_ref fits_struct)

lemma fits_error:
  assumes "d + 2 < max_depth"
  shows "fits (Suc (Suc (Suc d))) (Suc (Suc (Suc (Suc (Suc (Suc k)))))) extra (TRef ''handler.errorResponse'') (error_json m fs)"
proof -
  have "fits (Suc (Suc d)) (Suc (Suc (Suc (Suc k)))) extra (TArray (TRef ''domain.FieldError'')) (array_json (map field_error_json fs))"
    using assms by (intro fits_array) (auto simp: list_all_iff intro: fits_field_error)
  then show ?thesis
    using assms
    by (auto simp: error_json_def doc_lookup doc_errorResponse_def field_fits_names ascii_name_def intro!: fits_ref fits_struct)
qed

lemma fits_pagination:
  "d < max_depth \<Longrightarrow> fits (Suc d) (Suc (Suc (Suc k))) extra (TRef ''handler.paginationInfo'') (pagination_json c m)"
  by (auto simp: pagination_json_def doc_lookup doc_paginationInfo_def field_fits_names ascii_name_def
      intro!: fits_ref fits_struct)

lemma fits_notifications:
  assumes "list_all (object_metadata d) ns" "d + 2 < max_depth"
  shows "fits (Suc (Suc d)) (Suc (Suc (Suc (Suc k)))) extra (TArray (TRef ''domain.Notification''))
    (array_json (map (notification_json cj) ns))"
  using assms fits_notification by (intro fits_array) (auto simp: list_all_iff)

lemma fits_list:
  assumes "list_all (object_metadata d) ns" "d + 2 < max_depth"
  shows "fits (Suc (Suc (Suc d))) (Suc (Suc (Suc (Suc (Suc (Suc k)))))) extra (TRef ''handler.listResponse'') (list_json cj ns c m)"
  using assms fits_notifications [OF assms] fits_pagination
  by (auto simp: list_json_def doc_lookup doc_listResponse_def field_fits_names ascii_name_def intro!: fits_ref fits_struct)

lemma fits_batch:
  assumes "list_all (object_metadata d) ns" "d + 2 < max_depth"
  shows "fits (Suc (Suc (Suc d))) (Suc (Suc (Suc (Suc (Suc (Suc k)))))) extra (TRef ''handler.batchResponse'') (batch_json cj b ns c)"
  using assms fits_notifications [OF assms]
  by (auto simp: batch_json_def doc_lookup doc_batchResponse_def field_fits_names ascii_name_def intro!: fits_ref fits_struct)

lemma fits_health:
  "d + 2 < max_depth \<Longrightarrow> fits (Suc (Suc d)) (Suc (Suc (Suc (Suc k)))) extra (TRef ''handler.healthResponse'') (health_json h)"
  by (auto simp: health_json_def doc_lookup doc_healthResponse_def field_fits_names ascii_name_def
      intro!: fits_ref fits_struct fits_map)

text \<open>\<open>encoding/json\<close> writes a \<open>float64\<close> as a number.\<close>

definition float_numbers :: "(rat \<Rightarrow> string) \<Rightarrow> bool" where
  "float_numbers fl \<longleftrightarrow> (\<forall>x. is_number (fl x))"

lemma fits_tokens: "float_numbers fl \<Longrightarrow> d < max_depth \<Longrightarrow>
  fits (Suc d) (Suc (Suc (Suc k))) extra (TRef ''handler.rateLimiterMetrics'') (tokens_json fl x)"
  by (auto simp: tokens_json_def doc_lookup doc_rateLimiterMetrics_def field_fits_names ascii_name_def float_numbers_def
      intro!: fits_ref fits_struct fits_number)

lemma fits_queue: "d < max_depth \<Longrightarrow>
  fits (Suc d) (Suc (Suc (Suc k))) extra (TRef ''handler.queueMetrics'') (queue_json q)"
  by (auto simp: queue_json_def doc_lookup doc_queueMetrics_def field_fits_names ascii_name_def intro!: fits_ref fits_struct)

lemma latency_again:
  assumes "float_numbers fl" "d + 2 < max_depth"
  shows "\<forall>u. map_json (latency_json fl) m = Some u \<longrightarrow> value_again (Suc (Suc d)) u"
proof -
  let ?s = "TObject [(''avg_seconds'', TNumber), (''max_seconds'', TNumber), (''min_seconds'', TNumber)]"
  have "fits (Suc d) 2 [] ?s (latency_json fl l)" for l
    unfolding latency_json_def numeral_2_eq_2
    by (rule fits_struct)
      (use assms in \<open>auto simp: field_fits_names ascii_name_def float_numbers_def intro!: fits_number\<close>)
  then have "fits (Suc (Suc d)) (Suc 2) [] (TMap ?s) (map_json (latency_json fl) m)"
    using assms(2) by (intro fits_map) auto
  then show ?thesis by (simp add: fits_def)
qed

text \<open>The members of the metrics, \<open>latency\<close> apart.\<close>

lemma metrics_members:
  assumes "float_numbers fl" "d + 3 < max_depth"
  shows "fits (Suc (Suc d)) (Suc (Suc (Suc (Suc k)))) extra (TMap (TRef ''handler.queueMetrics'')) (map_json queue_json m1)"
    "fits (Suc (Suc d)) (Suc (Suc (Suc (Suc k)))) extra (TMap (TRef ''handler.rateLimiterMetrics'')) (map_json (tokens_json fl) m2)"
    "fits (Suc (Suc d)) (Suc (Suc (Suc (Suc k)))) extra (TMap (TMap TInteger)) (map_json (map_json int_json) m3)"
    "fits (Suc (Suc d)) (Suc (Suc (Suc (Suc k)))) extra (TMap TString) (map_json text_json m4)"
  by (rule fits_map; use assms in \<open>auto intro!: fits_queue fits_tokens fits_map\<close>)+

lemma metrics_fields_fit:
  assumes "float_numbers fl" "d + 3 < max_depth" "TObject props = snd doc_metricsResponse"
  shows "list_all (field_fits (Suc (Suc d)) (Suc (Suc (Suc (Suc k)))) [''latency''] props) (metrics_fields fl r)"
  using assms(3) metrics_members [OF assms(1,2)] latency_again [OF assms(1), of d] assms(2)
  by (simp add: metrics_fields_def doc_metricsResponse_def field_fits_names ascii_name_def)

lemma fits_metrics:
  assumes "float_numbers fl" "d + 3 < max_depth"
  shows "fits (Suc (Suc (Suc d))) (Suc (Suc (Suc (Suc (Suc (Suc k)))))) [''latency''] (TRef ''handler.metricsResponse'')
    (metrics_json fl r)"
  using fits_struct [OF metrics_fields_fit [OF assms]] assms(2)
  by (auto simp: metrics_json_def metrics_fields_def doc_lookup doc_metricsResponse_def intro!: fits_ref)

text \<open>The schema of every body the documented operations answer with, and the notifications in it.\<close>

fun body_schema :: "response_body \<Rightarrow> string option" where
  "body_schema (ErrorMessage m) = Some ''handler.errorResponse''"
| "body_schema (ErrorDetails m fs) = Some ''handler.errorResponse''"
| "body_schema (OneNotification n) = Some ''domain.Notification''"
| "body_schema (BatchBody b ns k) = Some ''handler.batchResponse''"
| "body_schema (ListBody ns c m) = Some ''handler.listResponse''"
| "body_schema (HealthBody h) = Some ''handler.healthResponse''"
| "body_schema (MetricsBody r) = Some ''handler.metricsResponse''"
| "body_schema _ = None"

fun body_notifications :: "response_body \<Rightarrow> Notification list" where
  "body_notifications (OneNotification n) = [n]"
| "body_notifications (BatchBody b ns k) = ns"
| "body_notifications (ListBody ns c m) = ns"
| "body_notifications _ = []"

text \<open>Members that are answered without being documented.\<close>

definition undocumented_members :: "string \<Rightarrow> string list" where
  "undocumented_members name = (if name = ''handler.metricsResponse'' then [''latency''] else [])"

lemma fits_body:
  assumes "body_schema body = Some name" "float_numbers fl"
    "list_all (object_metadata (max_depth - 3)) (body_notifications body)"
  shows "\<exists>d. fits d doc_depth (undocumented_members name) (TRef name) (body_json cj fl body)"
proof -
  have depth: "doc_depth = Suc (Suc (Suc (Suc (Suc (Suc (Suc 0))))))" by (simp add: doc_depth_def eval_nat_numeral)
  have room: "max_depth - 3 + 2 < max_depth" "max_depth - 3 < max_depth" "0 + 2 < max_depth" "0 + 3 < max_depth"
    by (simp_all add: max_depth_def)
  have error: "\<exists>d. fits d doc_depth extra (TRef ''handler.errorResponse'') (error_json m fs)" for extra m fs
    using fits_error [OF room(3)] unfolding depth by blast
  have single: "\<exists>d. fits d doc_depth extra (TRef ''domain.Notification'') (notification_json cj n)"
    if "object_metadata (max_depth - 3) n" for extra n
    using fits_notification [OF that room(2)] unfolding depth by blast
  have batch: "\<exists>d. fits d doc_depth extra (TRef ''handler.batchResponse'') (batch_json cj b ns c)"
    if "list_all (object_metadata (max_depth - 3)) ns" for extra b ns c
    using fits_batch [OF that room(1)] unfolding depth by blast
  have listing: "\<exists>d. fits d doc_depth extra (TRef ''handler.listResponse'') (list_json cj ns c m)"
    if "list_all (object_metadata (max_depth - 3)) ns" for extra ns c m
    using fits_list [OF that room(1)] unfolding depth by blast
  have health: "\<exists>d. fits d doc_depth extra (TRef ''handler.healthResponse'') (health_json h)" for extra h
    using fits_health [OF room(3)] unfolding depth by blast
  have metrics: "\<exists>d. fits d doc_depth [''latency''] (TRef ''handler.metricsResponse'') (metrics_json fl r)" for r
    using fits_metrics [OF assms(2) room(4)] unfolding depth by blast
  show ?thesis
    using assms(1,3) by (cases body) (auto simp: body_json_def undocumented_members_def error single batch listing health metrics)
qed

lemma body_fits_schema:
  assumes "body_schema body = Some name" "float_numbers fl"
    "list_all (object_metadata (max_depth - 3)) (body_notifications body)" "encode_body cj fl body = Some t"
  shows "body_conforms (undocumented_members name) (TRef name) t"
proof -
  obtain d where "fits d doc_depth (undocumented_members name) (TRef name) (body_json cj fl body)"
    using fits_body [OF assms(1-3)] by blast
  moreover obtain u where "body_json cj fl body = Some u" "t = u @ [CHR 0x0A]"
    using assms(1,4) by (cases body) (auto simp: encode_body_def)
  ultimately show ?thesis by (simp add: body_conforms_def docTemplate_def fits_def)
qed

section \<open>The answers of the documented operations\<close>

definition answer_kind :: "http_response \<Rightarrow> int \<times> string option" where
  "answer_kind r = (rs_status r, body_schema (rs_body r))"

lemma answer_kind_simps [simp]: "answer_kind (respondJSON st body) = (st, body_schema body)"
  by (simp add: answer_kind_def)

lemma error_kind:
  "answer_kind (respondError e) = (case e of ErrValidation _ \<Rightarrow> 400 | ErrNotFound _ _ \<Rightarrow> 404 | ErrConflict _ \<Rightarrow> 409
     | ErrOther _ \<Rightarrow> 500, Some ''handler.errorResponse'')"
  by (simp add: respondError_def split: go_error.split)

definition not_found_or_other :: "go_error \<Rightarrow> bool" where
  "not_found_or_other e \<longleftrightarrow> (\<exists>m. e = ErrOther m) \<or> (\<exists>entity i. e = ErrNotFound entity i)"

definition conflict_or_other :: "go_error \<Rightarrow> bool" where
  "conflict_or_other e \<longleftrightarrow> (\<exists>m. e = ErrOther m) \<or> (\<exists>m. e = ErrConflict m)"

lemma error_kinds:
  "not_found_or_other e \<Longrightarrow> answer_kind (respondError e) \<in> {(404, Some ''handler.errorResponse''), (500, Some ''handler.errorResponse'')}"
  "conflict_or_other e \<Longrightarrow> answer_kind (respondError e) \<in> {(409, Some ''handler.errorResponse''), (500, Some ''handler.errorResponse'')}"
  by (auto simp: error_kind not_found_or_other_def conflict_or_other_def)

text \<open>What the repositories can fail with.\<close>

lemma repository_errors:
  "read_rows srv ce what q = Inl e \<Longrightarrow> \<exists>m. e = ErrOther m"
  "pg_GetByID up srv ce i s = Inl e \<Longrightarrow> not_found_or_other e"
  "pg_template_GetByID up srv ce i s = Inl e \<Longrightarrow> not_found_or_other e"
  "pg_Create srv ce n s = (Inl e, s') \<Longrightarrow> conflict_or_other e"
  by (auto simp: read_rows_def pg_GetByID_def pg_template_GetByID_def pg_Create_def not_found_or_other_def conflict_or_other_def
      split: prod.splits sum.splits list.splits iter_fault.splits if_splits)

lemma batch_insert_errors: "batch_inserts srv ce i ns s = Inl e \<Longrightarrow> conflict_or_other e"
  by (induction ns arbitrary: i s) (auto simp: conflict_or_other_def split: prod.splits sum.splits if_splits)

lemma batch_errors: "pg_CreateBatch srv ce ns s = (Inl e, s') \<Longrightarrow> conflict_or_other e"
  by (auto simp: pg_CreateBatch_def dest: batch_insert_errors split: prod.splits sum.splits)
    (auto simp: conflict_or_other_def)

lemma listing_errors:
  "pg_GetByBatchID srv ce b s = Inl e \<Longrightarrow> \<exists>m. e = ErrOther m"
  "pg_List srv cj ce filters cursor limit s = Inl e \<Longrightarrow> \<exists>m. e = ErrOther m"
  by (auto simp: pg_GetByBatchID_def pg_List_def Let_def split: sum.splits if_splits dest: repository_errors(1))

lemma cancel_errors: "pg_Cancel up srv ce i s = (Some e, s') \<Longrightarrow> not_found_or_other e \<or> conflict_or_other e"
  by (auto simp: pg_Cancel_def not_found_or_other_def conflict_or_other_def split: prod.splits sum.splits option.splits if_splits)

lemma validation_errors:
  "CreateNotificationRequest_Validate r = (r', Some e) \<Longrightarrow> \<exists>fs. e = ErrValidation fs"
  "BatchCreateRequest_Validate b = (b', Some e) \<Longrightarrow> \<exists>fs. e = ErrValidation fs"
  by (auto simp: CreateNotificationRequest_Validate_def BatchCreateRequest_Validate_def Let_def split: if_splits prod.splits)

abbreviation error_with :: "int \<Rightarrow> int \<times> string option" where
  "error_with st \<equiv> (st, Some ''handler.errorResponse'')"

lemma service_errors:
  "Service_Create up (postgres_repository up' srv cj) (template_repository up' srv) env req w = (Inl e, w') \<Longrightarrow>
     (\<exists>fs. e = ErrValidation fs) \<or> not_found_or_other e \<or> conflict_or_other e"
  "Service_CreateBatch up (postgres_repository up' srv cj) env breq w = (Inl e, w') \<Longrightarrow>
     (\<exists>fs. e = ErrValidation fs) \<or> conflict_or_other e"
  "Service_Cancel (postgres_repository up' srv cj) ce ce' i s = (Inl e, s') \<Longrightarrow> not_found_or_other e \<or> conflict_or_other e"
    apply (auto simp: Service_Create_def resolve_template_def Let_def template_repository_def dest: repository_errors validation_errors
      split: prod.splits option.splits sum.splits if_splits)[1]
   apply (auto simp: Service_CreateBatch_def Let_def dest: batch_errors validation_errors
      split: prod.splits option.splits sum.splits if_splits)[1]
  apply (auto simp: Service_Cancel_def dest: cancel_errors repository_errors split: prod.splits option.splits)[1]
  done

lemma answer_of_error:
  "(\<exists>fs. e = ErrValidation fs) \<or> not_found_or_other e \<or> conflict_or_other e \<Longrightarrow>
   answer_kind (respondError e) \<in> {error_with 400, error_with 404, error_with 409, error_with 500}"
  "(\<exists>fs. e = ErrValidation fs) \<or> conflict_or_other e \<Longrightarrow>
   answer_kind (respondError e) \<in> {error_with 400, error_with 409, error_with 500}"
  by (auto simp: error_kind not_found_or_other_def conflict_or_other_def)

lemma create_kind:
  "answer_kind (fst (Handler_Create up (postgres_repository up' srv cj) (template_repository up' srv) env d body w)) \<in>
     {(201, Some ''domain.Notification''), error_with 400, error_with 404, error_with 409, error_with 429, error_with 500}"
proof (cases "decode_request up body")
  case None
  then show ?thesis by (simp add: Handler_Create_def)
next
  case (Some req)
  show ?thesis
  proof (cases "checkBackpressure d (if r_Priority req = [] then PriorityNormal else r_Priority req)")
    case True
    then show ?thesis using Some by (simp add: Handler_Create_def answer_kind_def Let_def)
  next
    case False
    obtain res w' where run:
      "Service_Create up (postgres_repository up' srv cj) (template_repository up' srv) env req w = (res, w')"
      by (metis surj_pair)
    show ?thesis
    proof (cases res)
      case (Inl e)
      then show ?thesis
        using Some False run answer_of_error(1) [OF service_errors(1) [of up up' srv cj env req w e w']]
        by (auto simp: Handler_Create_def)
    next
      case (Inr n)
      then show ?thesis using Some False run by (simp add: Handler_Create_def)
    qed
  qed
qed

lemma create_batch_kind:
  "answer_kind (fst (Handler_CreateBatch up (postgres_repository up' srv cj) env body w)) \<in>
     {(201, Some ''handler.batchResponse''), error_with 400, error_with 409, error_with 500}"
proof (cases "decode_batch up body")
  case None
  then show ?thesis by (simp add: Handler_CreateBatch_def)
next
  case (Some req)
  obtain res w' where run: "Service_CreateBatch up (postgres_repository up' srv cj) env req w = (res, w')"
    by (metis surj_pair)
  show ?thesis
  proof (cases res)
    case (Inl e)
    then show ?thesis
      using Some run answer_of_error(2) [OF service_errors(2) [of up up' srv cj env req w e w']]
      by (auto simp: Handler_CreateBatch_def)
  next
    case (Inr p)
    then show ?thesis using Some run by (simp add: Handler_CreateBatch_def split_beta)
  qed
qed

lemma cancel_kind:
  "answer_kind (fst (Handler_Cancel up (postgres_repository up' srv cj) ce ce' raw s)) \<in>
     {(200, Some ''domain.Notification''), error_with 400, error_with 404, error_with 409, error_with 500}"
proof (cases "parseUUIDParam up raw")
  case None
  then show ?thesis by (simp add: Handler_Cancel_def)
next
  case (Some i)
  obtain res s' where run: "Service_Cancel (postgres_repository up' srv cj) ce ce' i s = (res, s')"
    by (metis surj_pair)
  show ?thesis
  proof (cases res)
    case (Inl e)
    then have "answer_kind (respondError e) \<in> {error_with 404, error_with 409, error_with 500}"
      using error_kinds [of e] service_errors(3) [of up' srv cj ce ce' i s e s'] run by auto
    then show ?thesis using Some run Inl by (simp add: Handler_Cancel_def)
  next
    case (Inr n)
    then show ?thesis using Some run by (simp add: Handler_Cancel_def)
  qed
qed

lemma read_kinds:
  "answer_kind (Handler_GetByID up (postgres_repository up' srv cj) ce raw s) \<in>
     {(200, Some ''domain.Notification''), error_with 400, error_with 404, error_with 500}"
  "answer_kind (Handler_GetBatchStatus up (postgres_repository up' srv cj) ce raw s) \<in>
     {(200, Some ''handler.batchResponse''), error_with 400, error_with 500}"
  "answer_kind (Handler_List (postgres_repository up' srv cj) ce cj' err_text q s) \<in>
     {(200, Some ''handler.listResponse''), error_with 400, error_with 500}"
  "answer_kind (Handler_Health h) \<in> {(200, Some ''handler.healthResponse''), (503, Some ''handler.healthResponse'')}"
  "Handler_Metrics m bs s = Some r \<Longrightarrow> answer_kind r = (200, Some ''handler.metricsResponse'')"
proof -
  show "answer_kind (Handler_GetByID up (postgres_repository up' srv cj) ce raw s) \<in>
     {(200, Some ''domain.Notification''), error_with 400, error_with 404, error_with 500}"
    by (auto simp: Handler_GetByID_def Service_GetByID_def error_kind not_found_or_other_def dest!: repository_errors(2)
        split: option.split sum.split)
  show "answer_kind (Handler_GetBatchStatus up (postgres_repository up' srv cj) ce raw s) \<in>
     {(200, Some ''handler.batchResponse''), error_with 400, error_with 500}"
    by (auto simp: Handler_GetBatchStatus_def Service_GetByBatchID_def error_kind dest!: listing_errors(1) split: option.split sum.split)
  show "answer_kind (Handler_List (postgres_repository up' srv cj) ce cj' err_text q s) \<in>
     {(200, Some ''handler.listResponse''), error_with 400, error_with 500}"
    by (auto simp: Handler_List_def Service_List_def error_kind dest!: listing_errors(2) split: sum.split)
  show "answer_kind (Handler_Health h) \<in> {(200, Some ''handler.healthResponse''), (503, Some ''handler.healthResponse'')}"
    by (simp add: Handler_Health_def collect_health_def split_beta Let_def)
  show "Handler_Metrics m bs s = Some r \<Longrightarrow> answer_kind r = (200, Some ''handler.metricsResponse'')"
    by (auto simp: Handler_Metrics_def)
qed

section \<open>Answers and document\<close>

text \<open>The row of the routing tables a request is sent to, as a method and a whole path.\<close>

definition endpoint :: "server_env \<Rightarrow> http_req \<Rightarrow> (string \<times> string) option" where
  "endpoint E rq =
     (case se_chi E (map fst top_routes) (rq_method rq) (rq_path rq) of
        Matched k ps \<Rightarrow>
          (if snd (top_routes ! k) \<noteq> ToAPI then Some (fst (top_routes ! k))
           else (case se_chi E (map fst api_routes) (rq_method rq) (ps ''*'') of
                   Matched j _ \<Rightarrow> Some (fst (fst (api_routes ! j)), ''/api/v1'' @ snd (fst (api_routes ! j)))
                 | _ \<Rightarrow> None))
      | _ \<Rightarrow> None)"

text \<open>The statuses an operation answers with although they are not documented.\<close>

definition undocumented_statuses :: "string \<times> string \<Rightarrow> int list" where
  "undocumented_statuses ep =
     (if ep = (''POST'', ''/api/v1/notifications'') then [404, 415, 429, 500]
      else if ep = (''POST'', ''/api/v1/notifications/batch'') then [415, 500]
      else if ep = (''GET'', ''/health'') \<or> ep = (''GET'', ''/metrics'') then []
      else [500])"

definition kind_documented :: "string \<times> string \<Rightarrow> int \<times> string option \<Rightarrow> bool" where
  "kind_documented ep kind \<longleftrightarrow> fst kind \<in> set (undocumented_statuses ep) \<or>
     (\<exists>op descr name. doc_operation_at (docTemplate SwaggerInfo) ep = Some op \<and> snd kind = Some name \<and>
        map_of (do_responses op) (fst kind) = Some (descr, TRef name))"

lemma operation_lookup:
  "doc_operation_at (docTemplate SwaggerInfo) (''GET'', ''/api/v1/notifications'') = Some doc_list"
  "doc_operation_at (docTemplate SwaggerInfo) (''POST'', ''/api/v1/notifications'') = Some doc_create"
  "doc_operation_at (docTemplate SwaggerInfo) (''POST'', ''/api/v1/notifications/batch'') = Some doc_create_batch"
  "doc_operation_at (docTemplate SwaggerInfo) (''GET'', ''/api/v1/notifications/batch/{id}'') = Some doc_batch_status"
  "doc_operation_at (docTemplate SwaggerInfo) (''GET'', ''/api/v1/notifications/{id}'') = Some doc_get"
  "doc_operation_at (docTemplate SwaggerInfo) (''PATCH'', ''/api/v1/notifications/{id}/cancel'') = Some doc_cancel"
  "doc_operation_at (docTemplate SwaggerInfo) (''GET'', ''/health'') = Some doc_health"
  "doc_operation_at (docTemplate SwaggerInfo) (''GET'', ''/metrics'') = Some doc_metrics"
  "doc_operation_at (docTemplate SwaggerInfo) (m, ''/api/v1/templates'') = None"
  "doc_operation_at (docTemplate SwaggerInfo) (m, ''/api/v1/templates/{id}'') = None"
  "doc_operation_at (docTemplate SwaggerInfo) (m, ''/api/v1/ws'') = None"
  "doc_operation_at (docTemplate SwaggerInfo) (m, ''/swagger/*'') = None"
  by (simp_all add: doc_operation_at_def docTemplate_def doc_paths_def doc_method_def)

lemma doc_responses:
  "do_responses doc_list = [(200, ''OK'', TRef ''handler.listResponse''), (400, ''Bad Request'', TRef ''handler.errorResponse'')]"
  "do_responses doc_create = [(201, ''Created'', TRef ''domain.Notification''),
     (400, ''Bad Request'', TRef ''handler.errorResponse''), (409, ''Conflict'', TRef ''handler.errorResponse'')]"
  "do_responses doc_create_batch = [(201, ''Created'', TRef ''handler.batchResponse''),
     (400, ''Bad Request'', TRef ''handler.errorResponse''), (409, ''Conflict'', TRef ''handler.errorResponse'')]"
  "do_responses doc_batch_status = [(200, ''OK'', TRef ''handler.batchResponse''),
     (400, ''Bad Request'', TRef ''handler.errorResponse'')]"
  "do_responses doc_get = [(200, ''OK'', TRef ''domain.Notification''), (400, ''Bad Request'', TRef ''handler.errorResponse''),
     (404, ''Not Found'', TRef ''handler.errorResponse'')]"
  "do_responses doc_cancel = [(200, ''OK'', TRef ''domain.Notification''), (400, ''Bad Request'', TRef ''handler.errorResponse''),
     (404, ''Not Found'', TRef ''handler.errorResponse''), (409, ''Notification cannot be cancelled'', TRef ''handler.errorResponse'')]"
  "do_responses doc_health = [(200, ''OK'', TRef ''handler.healthResponse''),
     (503, ''Service Unavailable'', TRef ''handler.healthResponse'')]"
  "do_responses doc_metrics = [(200, ''OK'', TRef ''handler.metricsResponse'')]"
  by (simp_all add: doc_list_def doc_create_def doc_create_batch_def doc_batch_status_def doc_get_def doc_cancel_def
      doc_health_def doc_metrics_def)

lemma kind_documentedI:
  "doc_operation_at (docTemplate SwaggerInfo) ep = Some op \<Longrightarrow>
   \<forall>(st, name) \<in> kinds. st \<in> set (undocumented_statuses ep) \<or> map_option snd (map_of (do_responses op) st) = map_option TRef name \<and> name \<noteq> None \<Longrightarrow>
   kind \<in> kinds \<Longrightarrow> kind_documented ep kind"
  by (cases kind) (fastforce simp: kind_documented_def)

lemma kinds_documented:
  "kind \<in> {(200, Some ''handler.listResponse''), error_with 400, error_with 500} \<Longrightarrow>
     kind_documented (''GET'', ''/api/v1/notifications'') kind"
  "kind \<in> {(201, Some ''domain.Notification''), error_with 400, error_with 404, error_with 409, error_with 415,
       error_with 429, error_with 500} \<Longrightarrow> kind_documented (''POST'', ''/api/v1/notifications'') kind"
  "kind \<in> {(201, Some ''handler.batchResponse''), error_with 400, error_with 409, error_with 415, error_with 500} \<Longrightarrow>
     kind_documented (''POST'', ''/api/v1/notifications/batch'') kind"
  "kind \<in> {(200, Some ''handler.batchResponse''), error_with 400, error_with 500} \<Longrightarrow>
     kind_documented (''GET'', ''/api/v1/notifications/batch/{id}'') kind"
  "kind \<in> {(200, Some ''domain.Notification''), error_with 400, error_with 404, error_with 500} \<Longrightarrow>
     kind_documented (''GET'', ''/api/v1/notifications/{id}'') kind"
  "kind \<in> {(200, Some ''domain.Notification''), error_with 400, error_with 404, error_with 409, error_with 500} \<Longrightarrow>
     kind_documented (''PATCH'', ''/api/v1/notifications/{id}/cancel'') kind"
  "kind \<in> {(200, Some ''handler.healthResponse''), (503, Some ''handler.healthResponse'')} \<Longrightarrow>
     kind_documented (''GET'', ''/health'') kind"
  "kind = (200, Some ''handler.metricsResponse'') \<Longrightarrow> kind_documented (''GET'', ''/metrics'') kind"
  by (erule kind_documentedI [OF operation_lookup(1), rotated] kind_documentedI [OF operation_lookup(2), rotated]
      kind_documentedI [OF operation_lookup(3), rotated] kind_documentedI [OF operation_lookup(4), rotated]
      kind_documentedI [OF operation_lookup(5), rotated] kind_documentedI [OF operation_lookup(6), rotated]
      kind_documentedI [OF operation_lookup(7), rotated], simp add: undocumented_statuses_def doc_responses)+
    (rule kind_documentedI [OF operation_lookup(8), of "{(200, Some ''handler.metricsResponse'')}"],
      simp_all add: undocumented_statuses_def doc_responses)

lemma api_kind:
  assumes "se_repo E = postgres_repository up srv cj" "se_trepo E = template_repository up srv"
    "((m, path), t) \<in> set api_routes" "doc_operation_at (docTemplate SwaggerInfo) (m, ''/api/v1'' @ path) \<noteq> None"
    "rq_method rq = m" "contentTypeJSON (\<lambda>w cx rq s. serve_api E t ps w cx rq s) w cx rq s = (Responded r, s')"
  shows "kind_documented (m, ''/api/v1'' @ path) (answer_kind r)"
proof -
  have put: "m \<noteq> ''PUT''" using assms(3) by (auto simp: api_routes_def)
  have json: "m = ''POST'' \<and> answer_kind r = error_with 415 \<or> serve_api E t ps w cx rq s = (Responded r, s')"
    using assms(5,6) put by (auto simp: contentTypeJSON_def answer_kind_def split: if_splits)
  have row: "(m, path, t) \<in> {(''GET'', ''/notifications'', ToList), (''POST'', ''/notifications'', ToCreate),
      (''POST'', ''/notifications/batch'', ToCreateBatch), (''GET'', ''/notifications/batch/{id}'', ToGetBatchStatus),
      (''GET'', ''/notifications/{id}'', ToGetByID), (''PATCH'', ''/notifications/{id}/cancel'', ToCancel)} \<or>
      path = ''/templates'' \<or> path = ''/templates/{id}''"
    using assms(3) unfolding api_routes_def list.set insert_iff empty_iff prod.inject by argo
  moreover have "path \<noteq> ''/templates''" "path \<noteq> ''/templates/{id}''"
    using assms(4) operation_lookup(9,10) by auto
  ultimately consider "t = ToList" "m = ''GET''" "path = ''/notifications''" | "t = ToCreate" "m = ''POST''" "path = ''/notifications''"
    | "t = ToCreateBatch" "m = ''POST''" "path = ''/notifications/batch''"
    | "t = ToGetBatchStatus" "m = ''GET''" "path = ''/notifications/batch/{id}''"
    | "t = ToGetByID" "m = ''GET''" "path = ''/notifications/{id}''"
    | "t = ToCancel" "m = ''PATCH''" "path = ''/notifications/{id}/cancel''"
    unfolding insert_iff empty_iff prod.inject by argo
  then show ?thesis
  proof cases
    case 1
    then have "r = Handler_List (se_repo E) (se_ce E) (se_cj E) (se_err_text E) (rq_query rq) (fst s)"
      using json by (auto simp: serve_api_def)
    then have "kind_documented (''GET'', ''/api/v1/notifications'') (answer_kind r)"
      using assms(1) read_kinds(3) by (intro kinds_documented(1)) simp
    then show ?thesis using 1 by simp
  next
    case 2
    then have "answer_kind r = error_with 415 \<or> r = fst (Handler_Create (se_up E) (se_repo E) (se_trepo E)
        (correlated cx (se_service E)) (se_depth E) (rq_body rq) s)"
      using json by (auto simp: serve_api_def responded_def Let_def)
    then have "kind_documented (''POST'', ''/api/v1/notifications'') (answer_kind r)"
      using assms(1,2) create_kind by (intro kinds_documented(2)) fastforce
    then show ?thesis using 2 by simp
  next
    case 3
    then have "answer_kind r = error_with 415 \<or> r = fst (Handler_CreateBatch (se_up E) (se_repo E)
        (correlated cx (se_service E)) (rq_body rq) s)"
      using json by (auto simp: serve_api_def responded_def Let_def)
    then have "kind_documented (''POST'', ''/api/v1/notifications/batch'') (answer_kind r)"
      using assms(1) create_batch_kind by (intro kinds_documented(3)) fastforce
    then show ?thesis using 3 by simp
  next
    case 4
    then have "r = Handler_GetBatchStatus (se_up E) (se_repo E) (se_ce E) (ps ''id'') (fst s)"
      using json by (auto simp: serve_api_def)
    then have "kind_documented (''GET'', ''/api/v1/notifications/batch/{id}'') (answer_kind r)"
      using assms(1) read_kinds(2) by (intro kinds_documented(4)) simp
    then show ?thesis using 4 by simp
  next
    case 5
    then have "r = Handler_GetByID (se_up E) (se_repo E) (se_ce E) (ps ''id'') (fst s)"
      using json by (auto simp: serve_api_def)
    then have "kind_documented (''GET'', ''/api/v1/notifications/{id}'') (answer_kind r)"
      using assms(1) read_kinds(1) by (intro kinds_documented(5)) simp
    then show ?thesis using 5 by simp
  next
    case 6
    then have "r = fst (Handler_Cancel (se_up E) (se_repo E) (se_ce E) (se_ce2 E) (ps ''id'') (fst s))"
      using json by (auto simp: serve_api_def Let_def split_beta)
    then have "kind_documented (''PATCH'', ''/api/v1/notifications/{id}/cancel'') (answer_kind r)"
      using assms(1) cancel_kind by (intro kinds_documented(6)) simp
    then show ?thesis using 6 by simp
  qed
qed

lemma nth_pair: "k < length table \<Longrightarrow> ((fst (fst (table ! k)), snd (fst (table ! k))), snd (table ! k)) \<in> set table"
  by (simp add: in_set_conv_nth) (metis prod.collapse)

lemma top_kind:
  assumes "se_repo E = postgres_repository up srv cj" "se_trepo E = template_repository up srv" "chi_ok (se_chi E)"
    "endpoint E rq = Some ep" "doc_operation_at (docTemplate SwaggerInfo) ep \<noteq> None"
    "top_router E w cx rq s = (Responded r, s')"
  shows "kind_documented ep (answer_kind r)"
proof -
  obtain k ps where k: "se_chi E (map fst top_routes) (rq_method rq) (rq_path rq) = Matched k ps"
    using assms(4) by (auto simp: endpoint_def split: chi_match.splits)
  then have row: "k < length top_routes" "fst (fst (top_routes ! k)) = rq_method rq \<or> fst (fst (top_routes ! k)) = ''*''"
    using assms(3) unfolding chi_ok_def by fastforce+
  note cell = nth_pair [OF row(1)]
  show ?thesis
  proof (cases "snd (top_routes ! k)")
    case ToAPI
    then have api: "contentTypeJSON (api_router E ps) w cx rq s = (Responded r, s')"
      using assms(6) k by (simp add: top_router_def)
    obtain j qs where j: "se_chi E (map fst api_routes) (rq_method rq) (ps ''*'') = Matched j qs"
      and ep: "ep = (fst (fst (api_routes ! j)), ''/api/v1'' @ snd (fst (api_routes ! j)))"
      using assms(4) k ToAPI by (auto simp: endpoint_def split: chi_match.splits)
    have jrow: "j < length api_routes" "fst (fst (api_routes ! j)) = rq_method rq \<or> fst (fst (api_routes ! j)) = ''*''"
      using assms(3) j unfolding chi_ok_def by fastforce+
    note jcell = nth_pair [OF jrow(1)]
    have "fst (fst (api_routes ! j)) \<noteq> ''*''" using jcell by (auto simp: api_routes_def)
    with jrow(2) have m: "rq_method rq = fst (fst (api_routes ! j))" by simp
    have "api_router E ps w cx rq s = serve_api E (snd (api_routes ! j)) qs w cx rq s"
      using j by (simp add: api_router_def)
    then have "contentTypeJSON (\<lambda>w cx rq s. serve_api E (snd (api_routes ! j)) qs w cx rq s) w cx rq s =
        contentTypeJSON (api_router E ps) w cx rq s"
      by (simp add: contentTypeJSON_def)
    also note api
    finally have "contentTypeJSON (\<lambda>w cx rq s. serve_api E (snd (api_routes ! j)) qs w cx rq s) w cx rq s = (Responded r, s')" .
    from api_kind [OF assms(1,2) jcell _ m this] show ?thesis using assms(5) ep by simp
  next
    case ToHealth
    then have "ep = (''GET'', ''/health'')"
      using assms(4) k cell by (auto simp: endpoint_def top_routes_def)
    moreover have "r = Handler_Health (se_health E)" using assms(6) k ToHealth by (simp add: top_router_def)
    ultimately show ?thesis using kinds_documented(7) read_kinds(4) by metis
  next
    case ToMetrics
    then have "ep = (''GET'', ''/metrics'')"
      using assms(4) k cell by (auto simp: endpoint_def top_routes_def)
    moreover have "Handler_Metrics (se_metrics E) (se_breakers E) (fst s) = Some r"
      using assms(6) k ToMetrics by (simp add: top_router_def split: option.splits)
    ultimately show ?thesis using kinds_documented(8) read_kinds(5) by metis
  next
    case ToSwagger
    then have "snd ep = ''/swagger/*''"
      using assms(4) k cell by (auto simp: endpoint_def top_routes_def)
    then show ?thesis using assms(5) operation_lookup(12) by (cases ep) simp
  next
    case ToWS
    then have "snd ep = ''/api/v1/ws''"
      using assms(4) k cell by (auto simp: endpoint_def top_routes_def)
    then show ?thesis using assms(5) operation_lookup(11) by (cases ep) simp
  qed
qed

section \<open>Properties\<close>


definition sample_answer :: Notification where
  "sample_answer = \<lparr>n_ID = 7, n_BatchID = None, n_IdempotencyKey = None, n_Recipient = ''+90555'', n_Channel = ''sms'',
     n_Content = ''hi'', n_Subject = None, n_Priority = ''normal'', n_Status = ''queued'', n_ProviderMessageID = None,
     n_RetryCount = 0, n_MaxRetries = 3, n_NextRetryAt = None, n_ScheduledAt = None, n_SentAt = None, n_FailedAt = None,
     n_ErrorMessage = None, n_Metadata = None, n_CreatedAt = 5, n_UpdatedAt = 5\<rparr>"

lemma sample_post_answer:
  "\<exists>r s'. serve sample_server sample_post (keyed_db [], []) = (Responded r, s') \<and> rs_status r = 201 \<and>
     rs_body r = OneNotification sample_answer"
  unfolding serve_unfold sample_post_top sample_post_api
  by (simp add: serve_api_def responded_def sample_server_def sample_post_def correlated_def Handler_Create_def
      Service_Create_def service_eval checkBackpressure_def ThresholdNormal_def resolve_template_def pg_Create_def Let_def
      sample_answer_def)


text \<open>The members a schema has.\<close>

fun members_of :: "schema \<Rightarrow> string list" where
  "members_of (TObject props) = map fst props"
| "members_of _ = []"

definition all_endpoints :: "(string \<times> string) list" where
  "all_endpoints =
     map fst (filter (\<lambda>(_, t). t \<noteq> ToAPI) top_routes) @ map (\<lambda>((m, p), _). (m, ''/api/v1'' @ p)) api_routes"

text \<open>The metadata, if any, begin like an object.\<close>

definition metadata_object :: "Notification \<Rightarrow> bool" where
  "metadata_object n \<longleftrightarrow>
     (case n_Metadata n of None \<Rightarrow> True | Some raw \<Rightarrow> raw = [] \<or> take 1 (skip_ws raw) = ''{'')"

lemma metadata_field_object:
  assumes "metadata_fits d (n_Metadata n)" "d \<le> max_depth" "(''metadata'', v) \<in> set (metadata_field (n_Metadata n))"
    "take 1 (the v) = ''{''"
  shows "metadata_object n"
proof -
  from metadata_fits_member [OF assms(1,2)] assms(3) obtain raw t
    where "n_Metadata n = Some raw" "raw \<noteq> []" "json_compact raw = Some t" "v = Some t"
    by (auto split: option.splits if_splits)
  then show ?thesis using compact_object assms(4) by (simp add: metadata_object_def)
qed

lemma notification_conforms_iff:
  assumes "metadata_fits (max_depth - 1) (n_Metadata n)" "notification_json cj n = Some t"
  shows "conforms (Suc (Suc (Suc k))) [] doc_definitions (TRef ''domain.Notification'') t \<longleftrightarrow> metadata_object n"
proof
  assume "metadata_object n"
  then have "object_metadata (max_depth - 1) n" using assms(1) by (simp add: object_metadata_def metadata_object_def)
  from fits_notification [OF this, of k "[]" cj] show "conforms (Suc (Suc (Suc k))) [] doc_definitions (TRef ''domain.Notification'') t"
    using assms(2) by (simp add: fits_def max_depth_def)
next
  assume c: "conforms (Suc (Suc (Suc k))) [] doc_definitions (TRef ''domain.Notification'') t"
  obtain props where props: "snd doc_Notification = TObject props" "map_of props ''metadata'' = Some TAnyObject"
    by (simp add: doc_Notification_def)
  have again: "fields_again (max_depth - 1) (notification_fields cj n)"
    using metadata_fits_member [OF assms(1) diff_le_self] notification_fields_again by blast
  have "conforms (Suc (Suc k)) [] doc_definitions (TObject props) t"
    using c by (simp only: conforms.simps(2) [of "Suc (Suc k)"] schema.case doc_lookup option.case props(1))
  from struct_conforms [OF assms(2) [unfolded notification_json_def] again notification_names, THEN iffD1, OF this]
  have all: "list_all (\<lambda>(n, v). case map_of props n of None \<Rightarrow> n \<in> set [] | Some s \<Rightarrow>
      conforms (Suc k) [] doc_definitions s (the v)) (notification_fields cj n)" .
  show "metadata_object n"
  proof (cases "metadata_field (n_Metadata n) = []")
    case True
    then show ?thesis
      by (auto simp: metadata_object_def metadata_field_def metadata_member_def split: option.splits if_splits)
  next
    case False
    then obtain v where v: "(''metadata'', v) \<in> set (metadata_field (n_Metadata n))"
      by (auto simp: metadata_field_def metadata_member_def split: option.splits if_splits)
    then have "(''metadata'', v) \<in> set (notification_fields cj n)" by (simp add: notification_fields_def)
    then have "take 1 (the v) = ''{''" using all props(2) by (fastforce simp: list_all_iff)
    then show ?thesis using metadata_field_object [OF assms(1) _ v] by simp
  qed
qed

lemma latency_undocumented:
  assumes "float_numbers fl" "metrics_json fl r = Some t"
  shows "\<not> conforms k [] doc_definitions (TRef ''handler.metricsResponse'') t"
proof
  assume c: "conforms k [] doc_definitions (TRef ''handler.metricsResponse'') t"
  obtain props where props: "snd doc_metricsResponse = TObject props" "map_of props ''latency'' = None"
    by (simp add: doc_metricsResponse_def)
  obtain k' where k: "k = Suc (Suc k')" using c by (cases k; cases "k - 1") (auto simp: doc_lookup)
  have t: "struct_json (metrics_fields fl r) = Some t" using assms(2) by (simp add: metrics_json_def metrics_fields_def)
  have "0 + 3 < max_depth" by (simp add: max_depth_def)
  from field_fits_again [OF metrics_fields_fit [OF assms(1) this props(1) [symmetric]]] have
    "fields_again (max_depth - 1) (metrics_fields fl r)" "list_all (\<lambda>(n, _). ascii_name n) (metrics_fields fl r)"
    using fields_deeper [of 2 _ "max_depth - 1"] by (simp_all add: max_depth_def numeral_2_eq_2)
  from struct_conforms [OF t this] show False
    using c props by (simp add: k doc_lookup metrics_fields_def)
qed

text \<open>
  C38. What the documentation leaves out, all of it: of the routes the documentation's own, the websocket and
  those of the templates, while every operation it describes has its route; of the request to create a notification
  \<open>template_id\<close> and \<open>variables\<close>; no status listed as undocumented is documented. The
  parameters it gives for the listing are all the listing looks at. A strict reader of its schemas refuses
  every report of the metrics, for \<open>latency\<close>, and of the notifications exactly
  those whose metadata, which may be any JSON value, are not an object.
\<close>

theorem documentation_gaps:
  "filter (\<lambda>ep. doc_operation_at (docTemplate SwaggerInfo) ep = None) all_endpoints =
     [(''GET'', ''/swagger/*''), (''GET'', ''/api/v1/ws''), (''POST'', ''/api/v1/templates''),
      (''GET'', ''/api/v1/templates''), (''GET'', ''/api/v1/templates/{id}'')] \<and>
   list_all (\<lambda>(path, ops). list_all (\<lambda>(m, _). list_ex (\<lambda>ep. snd ep = path \<and> doc_method (fst ep) = m) all_endpoints) ops)
     (sd_paths (docTemplate SwaggerInfo)) \<and>
   list_all (\<lambda>ep. case doc_operation_at (docTemplate SwaggerInfo) ep of
       None \<Rightarrow> True
     | Some op \<Rightarrow> list_all (\<lambda>(st, _). st \<notin> set (undocumented_statuses ep)) (do_responses op)) all_endpoints \<and>
   filter (\<lambda>f. f \<notin> set (members_of (snd doc_CreateNotificationRequest))) request_fields = [''template_id'', ''variables''] \<and>
   ((\<forall>p \<in> set (do_parameters doc_list). q (dp_name p) = q' (dp_name p)) \<longrightarrow>
      parse_list_query cj err_text q = parse_list_query cj err_text q') \<and>
   (float_numbers fl \<longrightarrow> encode_body cj fl (MetricsBody r) = Some t \<longrightarrow>
      \<not> body_conforms [] (TRef ''handler.metricsResponse'') t) \<and>
   (metadata_fits (max_depth - 1) (n_Metadata n) \<longrightarrow> encode_body cj fl (OneNotification n) = Some u \<longrightarrow>
      (body_conforms [] (TRef ''domain.Notification'') u \<longleftrightarrow> metadata_object n))"
proof (intro conjI impI)
  have eps: "all_endpoints = [(''GET'', ''/health''), (''GET'', ''/metrics''), (''GET'', ''/swagger/*''), (''GET'', ''/api/v1/ws''),
      (''POST'', ''/api/v1/notifications''), (''POST'', ''/api/v1/notifications/batch''), (''GET'', ''/api/v1/notifications''),
      (''GET'', ''/api/v1/notifications/{id}''), (''GET'', ''/api/v1/notifications/batch/{id}''),
      (''PATCH'', ''/api/v1/notifications/{id}/cancel''), (''POST'', ''/api/v1/templates''),
      (''GET'', ''/api/v1/templates''), (''GET'', ''/api/v1/templates/{id}'')]"
    by (simp add: all_endpoints_def top_routes_def api_routes_def)
  show "filter (\<lambda>ep. doc_operation_at (docTemplate SwaggerInfo) ep = None) all_endpoints =
     [(''GET'', ''/swagger/*''), (''GET'', ''/api/v1/ws''), (''POST'', ''/api/v1/templates''),
      (''GET'', ''/api/v1/templates''), (''GET'', ''/api/v1/templates/{id}'')]"
    unfolding eps by (simp only: filter.simps operation_lookup option.distinct simp_thms if_True if_False)
  show "list_all (\<lambda>(path, ops). list_all (\<lambda>(m, _). list_ex (\<lambda>ep. snd ep = path \<and> doc_method (fst ep) = m) all_endpoints) ops)
     (sd_paths (docTemplate SwaggerInfo))"
    by (simp add: eps docTemplate_def doc_paths_def doc_method_def)
  show "list_all (\<lambda>ep. case doc_operation_at (docTemplate SwaggerInfo) ep of
       None \<Rightarrow> True
     | Some op \<Rightarrow> list_all (\<lambda>(st, _). st \<notin> set (undocumented_statuses ep)) (do_responses op)) all_endpoints"
    unfolding eps by (simp add: operation_lookup doc_responses undocumented_statuses_def)
  show "filter (\<lambda>f. f \<notin> set (members_of (snd doc_CreateNotificationRequest))) request_fields = [''template_id'', ''variables'']"
    by (simp add: doc_CreateNotificationRequest_def request_fields_def)
next
  assume same: "\<forall>p \<in> set (do_parameters doc_list). q (dp_name p) = q' (dp_name p)"
  have names: "dp_name ` set (do_parameters doc_list) =
      {''status'', ''channel'', ''priority'', ''created_after'', ''created_before'', ''cursor'', ''limit''}"
    by (simp add: doc_list_def)
  have "q p = q' p" if "p \<in> dp_name ` set (do_parameters doc_list)" for p
    using that same by blast
  then have "q ''status'' = q' ''status''" "q ''channel'' = q' ''channel''" "q ''priority'' = q' ''priority''"
    "q ''created_after'' = q' ''created_after''" "q ''created_before'' = q' ''created_before''"
    "q ''cursor'' = q' ''cursor''" "q ''limit'' = q' ''limit''"
    unfolding names by blast+
  then show "parse_list_query cj err_text q = parse_list_query cj err_text q'" by (simp only: parse_list_query_def)
next
  assume "float_numbers fl" "encode_body cj fl (MetricsBody r) = Some t"
  then show "\<not> body_conforms [] (TRef ''handler.metricsResponse'') t"
    using latency_undocumented by (auto simp: encode_body_def body_json_def body_conforms_def docTemplate_def)
next
  assume m: "metadata_fits (max_depth - 1) (n_Metadata n)" and "encode_body cj fl (OneNotification n) = Some u"
  then obtain v where v: "notification_json cj n = Some v" "u = v @ [CHR 0x0A]"
    by (auto simp: encode_body_def body_json_def)
  have "doc_depth = Suc (Suc (Suc 4))" by (simp add: doc_depth_def)
  with notification_conforms_iff [OF m v(1), of 4] show "body_conforms [] (TRef ''domain.Notification'') u \<longleftrightarrow> metadata_object n"
    by (simp only: body_conforms_def docTemplate_def swagger_doc.simps) (simp add: v(2))
qed

text \<open>Metadata that are a number are accepted, and answered.\<close>

theorem documentation_gaps_witness:
  "parse_list_query utc_json id (\<lambda>name. if name = ''limit'' then ''7'' else if name = ''page'' then ''2'' else []) =
     parse_list_query utc_json id (\<lambda>name. if name = ''limit'' then ''7'' else []) \<and>
   (\<exists>t. encode_body utc_json (\<lambda>_. ''0'') (OneNotification (sample_answer\<lparr>n_Metadata := Some ''5''\<rparr>)) = Some t \<and>
      \<not> body_conforms [] (TRef ''domain.Notification'') t) \<and>
   (\<exists>t. encode_body utc_json (\<lambda>_. ''0'') (MetricsBody \<lparr>mr_Timestamp = 0, mr_Queues = Map.empty, mr_Notifications = Map.empty,
        mr_Latency = Map.empty, mr_CircuitBreakers = Map.empty, mr_RateLimiters = Map.empty\<rparr>) = Some t \<and>
      \<not> body_conforms [] (TRef ''handler.metricsResponse'') t)"
proof (intro conjI)
  let ?q = "\<lambda>name. if name = ''limit'' then ''7'' else if name = ''page'' then ''2'' else []"
  let ?q' = "\<lambda>name. if name = ''limit'' then ''7'' else []"
  have "\<forall>p \<in> set (do_parameters doc_list). ?q (dp_name p) = ?q' (dp_name p)" by (simp add: doc_list_def)
  then show "parse_list_query utc_json id ?q = parse_list_query utc_json id ?q'"
    using documentation_gaps [of ?q ?q'] by blast
next
  let ?n = "sample_answer\<lparr>n_Metadata := Some ''5''\<rparr>"
  have five: "jvalue (length ''5'') d ''5'' = Some (''5'', [])" for d
    by (simp add: jliteral_def jnumber_def junsigned_def then_parse_def jint_def some_digits_def jfraction_def jexponent_def
        skip_ws_def is_ws_def)
  have "metadata_fits (max_depth - 1) (Some ''5'')"
    unfolding metadata_fits_def option.case five prod.case by (simp add: skip_ws_def)
  then have fits: "metadata_fits (max_depth - 1) (n_Metadata ?n)" by simp
  have "writable (\<lambda>_. 0) 5" by code_simp
  then obtain t where t: "notification_json utc_json ?n = Some t"
    using notification_json_ok [of utc_json ?n "max_depth - 1"] fits
    by (auto simp: times_writable_def utc_json_def sample_answer_def)
  have "\<not> metadata_object ?n" by (simp add: metadata_object_def skip_ws_def is_ws_def)
  then show "\<exists>t. encode_body utc_json (\<lambda>_. ''0'') (OneNotification ?n) = Some t \<and> \<not> body_conforms [] (TRef ''domain.Notification'') t"
    using documentation_gaps [of "\<lambda>_. []" "\<lambda>_. []" utc_json id "\<lambda>_. ''0''" undefined undefined ?n "t @ [CHR 0x0A]"] fits t
    by (simp add: encode_body_def body_json_def)
next
  let ?r = "\<lparr>mr_Timestamp = 0, mr_Queues = Map.empty, mr_Notifications = Map.empty, mr_Latency = Map.empty,
    mr_CircuitBreakers = Map.empty, mr_RateLimiters = Map.empty\<rparr> :: metricsResponse"
  have "writable (\<lambda>_. 0) 0" by code_simp
  then obtain t where t: "metrics_json (\<lambda>_. ''0'') ?r = Some t"
    by (auto simp: metrics_json_def metrics_fields_def struct_json_def map_json_def marshal_time_def)
  have "float_numbers (\<lambda>_. ''0'')" by (simp add: float_numbers_def) code_simp
  then show "\<exists>t. encode_body utc_json (\<lambda>_. ''0'') (MetricsBody ?r) = Some t \<and> \<not> body_conforms [] (TRef ''handler.metricsResponse'') t"
    using documentation_gaps [of "\<lambda>_. []" "\<lambda>_. []" utc_json id "\<lambda>_. ''0''" ?r "t @ [CHR 0x0A]"] t
    by (auto simp: encode_body_def body_json_def)
qed

end
