(* ===== verification/Spec2Isabelle.thy ===== *)
theory Spec2Isabelle
  imports Progress Docs
begin

text \<open>
  Verification of the notification system (\<open>src/\<close>), a Go service that takes notifications over HTTP,
  stores them in PostgreSQL, hands them to RabbitMQ and delivers them to a webhook, with retries, a
  circuit breaker and a rate limit per channel.

  \<^bold>\<open>The program.\<close> \<open>internal/api\<close> routes requests to handlers; the handlers call
  \<open>internal/service\<close>, which validates (\<open>internal/domain\<close>), renders templates, stores
  (\<open>internal/repository\<close>, \<open>internal/repository/postgres\<close>), publishes (\<open>internal/queue\<close>) and marks the row
  queued. \<open>internal/scheduler\<close> polls for notifications that were scheduled for later and are due.
  \<open>internal/worker\<close> consumes one queue per channel: \<open>Process\<close> loads the row, waits out a backoff, marks it
  \<open>processing\<close>, asks the breaker (\<open>internal/circuitbreaker\<close>) and the limiter (\<open>internal/ratelimiter\<close>), calls the
  webhook (\<open>internal/provider\<close>), writes the outcome, settles the delivery and announces the status
  (\<open>internal/pubsub\<close>). \<open>cmd/server/main.go\<close> puts it together.

  \<^bold>\<open>Which theory models what.\<close>

  \<^item> \<open>Prelude\<close>: Go's integers, decimal printing and parsing, string functions, faults of calls.
  \<^item> \<open>Domain\<close> (\<open>domain/notification.go\<close>, \<open>errors.go\<close>): records, constants and both \<open>Validate\<close>
    methods. \<open>Template\<close> (\<open>domain/template.go\<close>): \<open>Render\<close> and \<open>Validate\<close>.
  \<^item> \<open>Json\<close>: what the program uses of Go's \<open>encoding/json\<close>, on bytes: quoting and unquoting strings,
    checking and compacting any value, taking an object or an array apart, decoding into a struct, the
    first value of a body. \<open>Rfc3339\<close>: the calendar, and \<open>time.RFC3339\<close> printed and parsed.
  \<^item> \<open>Cursor\<close>, \<open>Repository\<close> (\<open>repository/*.go\<close>): the interfaces as records of operations, their
    contracts as the locales \<open>notification_store\<close> and \<open>template_store\<close>, the cursor codec, base64 over JSON.
  \<^item> \<open>Postgres\<close>, \<open>Listing\<close>, \<open>Store\<close> (\<open>repository/postgres/*.go\<close>, \<open>migrations/\<close>): every SQL statement by
    its effect on the tables, with constraints, trigger and faults; \<open>List\<close> with the query it builds; the
    interpretations \<open>pg\<close> and \<open>pg_templates\<close> of the contracts.
  \<^item> \<open>Queue\<close> (\<open>queue/*.go\<close>): connecting, the declared topology, publishing with the JSON body.
    \<open>Message\<close> (\<open>QueueMessage\<close> of \<open>worker/processor.go\<close>): the body as the worker reads it, and the round trip.
    \<open>Requests\<close> (the tags of \<open>domain\<close>, the decoding of \<open>handler\<close>): the bodies of the API's requests.
    \<open>Responses\<close> (the same tags, \<open>respondJSON\<close>): the bodies of its answers.
  \<^item> \<open>Service\<close> (\<open>service/notification.go\<close>), \<open>Scheduler\<close> (\<open>scheduler/scheduler.go\<close>): over any
    \<open>notification_store\<close>, then for PostgreSQL.
  \<^item> \<open>CircuitBreaker\<close>, \<open>RateLimiter\<close>, \<open>Provider\<close>, \<open>PubSub\<close>: the packages of these names.
  \<^item> \<open>Worker\<close> (\<open>worker/processor.go\<close>), \<open>Dispatcher\<close> (\<open>worker/dispatcher.go\<close>).
  \<^item> \<open>Metrics\<close> (\<open>handler/metrics.go\<close>, \<open>health.go\<close>), \<open>Handler\<close> (\<open>handler/notification.go\<close>,
    \<open>template.go\<close>, \<open>response.go\<close>), \<open>Middleware\<close> (\<open>middleware/*.go\<close>, \<open>handler/websocket.go\<close>), \<open>Router\<close>
    (\<open>api/router.go\<close>), \<open>Server\<close> (\<open>config/config.go\<close>, \<open>cmd/server/main.go\<close>). \<open>Docs\<close> (\<open>docs/docs.go\<close>): the API
    documentation as data, what a JSON text has to be like to conform to one of its schemas, and the
    answers of \<open>Router\<close> held against it.
  \<^item> \<open>Lifecycle\<close>: the abstract machine of one notification. \<open>Interleaving\<close>: one operation while others
    act between its statements. \<open>System\<close>: requests, polls and deliveries in any order on one database
    and one broker. \<open>Progress\<close>: how its queue can be emptied.

  \<^bold>\<open>Conventions.\<close> A method that changes state is a function from state to result and state. Errors
  are values: the three error types of the domain and \<open>ErrOther\<close> with its text. Whatever an operation
  meets in its surroundings (clock readings, faults of statements and network calls, random numbers,
  the order of map iterations, of rows and of \<open>select\<close>) is an argument, so a lemma without hypotheses on
  it holds for all of them. A network call can fail before or after it took effect. Third-party
  packages (\<open>uuid\<close>, \<open>chi\<close>, \<open>websocket\<close>, \<open>env\<close>, PostgreSQL's treatment of values) are arguments too, with
  what is used of them as named predicates (\<open>uuid_roundtrip\<close>, \<open>chi_ok\<close>, \<open>accept_needs_hijacker\<close>,
  \<open>server_ok\<close>), each shown satisfiable by an instance.

  \<^bold>\<open>What is shown.\<close>

  \<^item> The whole system: the invariant of all reachable states, the refinement of the life cycle, the
    immutability of a notification (\<open>System\<close>); what of it survives when single statements interleave
    (\<open>Interleaving\<close>, by rely and guarantee: well-formedness, immutability, sound rows, messages of
    stored rows), and the two statements whose interleaving breaks out of the life cycle; and that from
    every reachable state without a half-open breaker the queue can be emptied by sending
    (\<open>Progress\<close>).
  \<^item> Validation, rendering, creation of one or many, idempotency, atomic batches, complete pagination:
    functional correctness on every branch.
  \<^item> What the producer encodes the worker decodes, for every message with readable metadata; a request
    written with the tags of its struct is read back by the create endpoint; a client reads back the
    notifications it is answered; cursors and times are read back as written.
  \<^item> The breaker refines a policy over recorded outcomes; the bucket bounds throughput; waiting ends.
  \<^item> A delivery is settled exactly once; every outcome of the provider leads to the right row; the
    number of calls of the provider is bounded; the backoff is right up to attempt 33 and overflows
    beyond.
  \<^item> The HTTP layer: status codes, correlation ids end to end, safe methods, logging, metrics; that
    every answer of a documented operation is as documented up to a listed remainder, and what the
    documentation leaves out.
  \<^item> Flaws: a limiter error that wedges the breaker, cancelled notifications that are delivered, a late
    status mark, websocket handshakes that are always refused, a metrics request that panics or leaks, a
    notification scheduled for the year 10000 that empties every answer it is part of.

  \<^bold>\<open>Bounds and fuel.\<close> Integers that the code stores in 32 or 64 bits wrap or are refused as in Go
  and PostgreSQL (\<open>wrap64\<close>, \<open>int4\<close>, words for the queue depth and priorities).
  \<open>Wait\<close> recurs on the time left until its deadline, and every other loop on a list or a text that gets
  shorter. Only the reader of JSON values (\<open>jvalue\<close>), whose recursion is nested, takes fuel, as much as
  the text is long; \<open>parse_fuel\<close> shows that this is always enough; and \<open>conforms\<close>, which
  follows the references of a schema, as much as the document nests (\<open>doc_depth\<close>), which the theorems of
  \<open>Docs\<close> show to be enough. Floating-point numbers are rationals; the theories that use them say why.

  \<^bold>\<open>Not modelled.\<close> Of the documentation only how \<open>swag\<close> fills its template and
  serves it. Logging has no effect but the log line of a request. The JSON of requests, answers, queue messages,
  cursors, webhook calls and status updates is modelled byte for byte, but for the digits of the metrics'
  floating-point numbers, which are an argument (\<open>se_float\<close>, with \<open>float_numbers\<close> saying
  that they are JSON numbers). When a request has the member of an array twice, Go decodes the second into the
  elements of the first; \<open>decode_items\<close> does the same. Goroutines are modelled by the order of their
  steps: in \<open>System\<close> each request, poll and delivery is one step; in \<open>Interleaving\<close> each
  statement of one operation is, and the statements of all others may come before any of them.
\<close>

end
